(* ===== verification/Prelude.thy ===== *)
theory Prelude
  imports Main "HOL-Library.Word"
begin

text \<open>
  Shared vocabulary of the development.  Go's machine integers are words of their width,
  a \<^verbatim>\<open>[]byte\<close> and a \<^verbatim>\<open>string\<close> are lists of bytes, a fallible
  operation on a state returns \<^emph>\<open>both\<close> its outcome and the state it leaves behind (an
  error return of a Go method does not undo what the method already did), and a loop is a
  recursive function.  The theory holds these types, Go's \<^verbatim>\<open>copy\<close>, the
  little-endian accessors that \<^verbatim>\<open>kfs/format.go\<close> and
  \<^verbatim>\<open>guests/lib/frame.go\<close> share byte for byte, and the list and word lemmas
  the component theories rely on.
\<close>

unbundle bit_operations_syntax

type_synonym byte = "8 word"
type_synonym u16 = "16 word"
type_synonym u32 = "32 word"
type_synonym u64 = "64 word"
type_synonym bytes = "byte list"

text \<open>The facts that unfold wire layouts, and those that say how long a layout is.\<close>

named_theorems wire_defs "definitions of byte layouts"
named_theorems wire_len "lengths of byte layouts"

text \<open>A Go string literal as the bytes it denotes (ASCII only in the sources modelled).\<close>

definition str :: "string \<Rightarrow> bytes" where
  "str s = map of_char s"

text \<open>A fallible step on a state: the outcome and the state left behind.\<close>

definition sbind :: "(('e + 'a) \<times> 's) \<Rightarrow> ('a \<Rightarrow> 's \<Rightarrow> ('e + 'b) \<times> 's) \<Rightarrow> ('e + 'b) \<times> 's" where
  "sbind r f = (case r of (Inl e, s) \<Rightarrow> (Inl e, s) | (Inr a, s) \<Rightarrow> f a s)"

lemma sbind_simps [simp]:
  "sbind (Inl e, s) f = (Inl e, s)"
  "sbind (Inr a, s) f = f a s"
  by (simp_all add: sbind_def)

lemma sbind_eq_Inr:
  "sbind r f = (Inr b, t) \<longleftrightarrow> (\<exists>a s. r = (Inr a, s) \<and> f a s = (Inr b, t))"
  by (cases r; cases "fst r") (auto simp: sbind_def)

section \<open>Go's copy\<close>

text \<open>
  \<^verbatim>\<open>copy(dst[off:], src)\<close>: overwrites as much of \<^verbatim>\<open>dst\<close> from
  \<^verbatim>\<open>off\<close> on as both slices allow.
\<close>

definition go_copy :: "'a list \<Rightarrow> nat \<Rightarrow> 'a list \<Rightarrow> 'a list" where
  "go_copy dst off src =
     take off dst @ take (length dst - off) src @ drop (off + length src) dst"

lemma length_go_copy [simp]: "off \<le> length dst \<Longrightarrow> length (go_copy dst off src) = length dst"
  by (simp add: go_copy_def)

lemma go_copy_nth:
  assumes "i < length dst" "off \<le> length dst"
  shows "go_copy dst off src ! i =
    (if off \<le> i \<and> i < off + length src then src ! (i - off) else dst ! i)"
  using assms by (auto simp: go_copy_def nth_append min_def)

lemma go_copy_whole [simp]: "length src = length dst \<Longrightarrow> go_copy dst 0 src = src"
  by (simp add: go_copy_def)

lemma go_copy_Nil [simp]: "go_copy dst off [] = dst"
  by (simp add: go_copy_def)

lemma take_go_copy [simp]:
  "off \<le> length dst \<Longrightarrow> take off (go_copy dst off src) = take off dst"
  by (simp add: go_copy_def)

lemma go_copy_exact:
  "off + length src \<le> length dst \<Longrightarrow>
   go_copy dst off src = take off dst @ src @ drop (off + length src) dst"
  by (simp add: go_copy_def)

lemma window_go_copy:
  "off + length src \<le> length dst \<Longrightarrow>
   take (length src) (drop off (go_copy dst off src)) = src"
  by (simp add: go_copy_exact)

lemma drop_go_copy:
  "off + length src \<le> length dst \<Longrightarrow>
   drop (off + length src) (go_copy dst off src) = drop (off + length src) dst"
  by (simp add: go_copy_exact)

text \<open>Two adjacent copies are one copy of the concatenation.\<close>

lemma go_copy_append:
  assumes "off + length xs + length ys \<le> length dst"
  shows "go_copy (go_copy dst off xs) (off + length xs) ys = go_copy dst off (xs @ ys)"
proof (rule nth_equalityI)
  show "length (go_copy (go_copy dst off xs) (off + length xs) ys) =
        length (go_copy dst off (xs @ ys))"
    using assms by simp
  fix i assume "i < length (go_copy (go_copy dst off xs) (off + length xs) ys)"
  then have "i < length dst" using assms by simp
  then show "go_copy (go_copy dst off xs) (off + length xs) ys ! i =
             go_copy dst off (xs @ ys) ! i"
    using assms by (simp add: go_copy_nth nth_append) auto
qed

text \<open>
  How the builders fill a zeroed buffer: a copy that stays inside the first part of a
  buffer, and one that starts right after it.
\<close>

lemma go_copy_left:
  "off + length src \<le> length xs \<Longrightarrow> go_copy (xs @ ys) off src = go_copy xs off src @ ys"
  by (simp add: go_copy_exact)

lemma go_copy_right:
  "off = length xs \<Longrightarrow> length src = length ys \<Longrightarrow> go_copy (xs @ ys) off src = xs @ src"
  by (simp add: go_copy_def)

text \<open>A window of a list, \<^verbatim>\<open>b[off:off+n]\<close> of Go (the caller checks the range).\<close>

definition window :: "nat \<Rightarrow> nat \<Rightarrow> 'a list \<Rightarrow> 'a list" where
  "window off n xs = take n (drop off xs)"

lemma length_window [simp]: "off + n \<le> length xs \<Longrightarrow> length (window off n xs) = n"
  by (simp add: window_def)

lemma window_nth: "off + n \<le> length xs \<Longrightarrow> i < n \<Longrightarrow> window off n xs ! i = xs ! (off + i)"
  by (simp add: window_def)

lemma window_0_length [simp]: "window 0 (length xs) xs = xs"
  by (simp add: window_def)

lemma window_zero [simp]: "window off 0 xs = []"
  by (simp add: window_def)

lemma window_append_split: "window off (n + m) xs = window off n xs @ window (off + n) m xs"
  unfolding window_def by (subst take_add) (simp add: add.commute)

lemma window_middle: "length pre = off \<Longrightarrow> length mid = n \<Longrightarrow> window off n (pre @ mid @ post) = mid"
  by (simp add: window_def)

section \<open>Byte order\<close>

text \<open>
  \<^verbatim>\<open>byte(v >> k)\<close> is \<^term>\<open>ucast (drop_bit k v) :: byte\<close> and
  \<^verbatim>\<open>uint32(b) << k\<close> is \<^term>\<open>push_bit k (ucast b) :: u32\<close>.
\<close>

definition le16 :: "u16 \<Rightarrow> bytes" where
  "le16 v = [ucast v, ucast (drop_bit 8 v)]"

definition le32 :: "u32 \<Rightarrow> bytes" where
  "le32 v = [ucast v, ucast (drop_bit 8 v), ucast (drop_bit 16 v), ucast (drop_bit 24 v)]"

definition le64 :: "u64 \<Rightarrow> bytes" where
  "le64 v = map (\<lambda>i. ucast (drop_bit (8 * i) v)) [0..<8]"

definition Get16 :: "bytes \<Rightarrow> u16" where
  "Get16 b = ucast (b ! 0) OR push_bit 8 (ucast (b ! 1))"

definition Get32 :: "bytes \<Rightarrow> u32" where
  "Get32 b = ucast (b ! 0) OR push_bit 8 (ucast (b ! 1)) OR
             push_bit 16 (ucast (b ! 2)) OR push_bit 24 (ucast (b ! 3))"

text \<open>The loop \<^verbatim>\<open>for i := 7; i >= 0; i-- { v = v<<8 | uint64(b[i]) }\<close>.\<close>

primrec get64_loop :: "nat \<Rightarrow> bytes \<Rightarrow> u64 \<Rightarrow> u64" where
  "get64_loop 0 b v = v"
| "get64_loop (Suc i) b v = get64_loop i b (push_bit 8 v OR ucast (b ! i))"

definition Get64 :: "bytes \<Rightarrow> u64" where
  "Get64 b = get64_loop 8 b 0"

text \<open>The in-place writers: \<^verbatim>\<open>Put32(b[off:], v)\<close>.\<close>

definition Put16 :: "bytes \<Rightarrow> nat \<Rightarrow> u16 \<Rightarrow> bytes" where
  "Put16 b off v = go_copy b off (le16 v)"

definition Put32 :: "bytes \<Rightarrow> nat \<Rightarrow> u32 \<Rightarrow> bytes" where
  "Put32 b off v = go_copy b off (le32 v)"

definition Put64 :: "bytes \<Rightarrow> nat \<Rightarrow> u64 \<Rightarrow> bytes" where
  "Put64 b off v = go_copy b off (le64 v)"

lemma length_le [simp, wire_len]:
  "length (le16 a) = 2" "length (le32 b) = 4" "length (le64 c) = 8"
  by (simp_all add: le16_def le32_def le64_def)

lemma octet_cases:
  fixes n :: nat
  obtains "n < 8" | "8 \<le> n" "n < 16" | "16 \<le> n" "n < 24" | "24 \<le> n" "n < 32"
    | "32 \<le> n" "n < 40" | "40 \<le> n" "n < 48" | "48 \<le> n" "n < 56" | "56 \<le> n"
  by fastforce

lemma bit_byte_ge: "8 \<le> n \<Longrightarrow> \<not> bit (b :: byte) n"
  using bit_imp_le_length by fastforce

lemma xor_left_cancel: "a XOR b = a XOR c \<longleftrightarrow> b = c" for a b c :: "'a :: len word"
proof
  assume eq: "a XOR b = a XOR c"
  have "bit b n = bit c n" for n
    using arg_cong [OF eq, where f = "\<lambda>w. bit w n"] by (auto simp: bit_simps)
  then show "b = c" by (intro bit_word_eqI) simp
qed simp

lemma xor_right_cancel: "b XOR a = c XOR a \<longleftrightarrow> b = c" for a b c :: "'a :: len word"
  using xor_left_cancel [of a b c] by (simp add: xor.commute)

lemma Get16_le16 [simp]: "Get16 (le16 v @ xs) = v"
proof (rule bit_word_eqI)
  fix n assume "n < LENGTH(16)"
  then show "bit (Get16 (le16 v @ xs)) n = bit v n"
    by (cases n rule: octet_cases) (simp_all add: Get16_def le16_def bit_simps less_diff_conv2)
qed

lemma Get32_le32 [simp]: "Get32 (le32 v @ xs) = v"
proof (rule bit_word_eqI)
  fix n assume "n < LENGTH(32)"
  then show "bit (Get32 (le32 v @ xs)) n = bit v n"
    by (cases n rule: octet_cases) (simp_all add: Get32_def le32_def bit_simps less_diff_conv2)
qed

lemma get64_loop_8:
  "Get64 b = push_bit 8 (push_bit 8 (push_bit 8 (push_bit 8 (push_bit 8 (push_bit 8 (push_bit 8
     (ucast (b ! 7)) OR ucast (b ! 6)) OR ucast (b ! 5)) OR ucast (b ! 4)) OR
     ucast (b ! 3)) OR ucast (b ! 2)) OR ucast (b ! 1)) OR ucast (b ! 0)"
  by (simp add: Get64_def eval_nat_numeral)

lemma le64_list:
  "le64 v = [ucast v, ucast (drop_bit 8 v), ucast (drop_bit 16 v), ucast (drop_bit 24 v),
     ucast (drop_bit 32 v), ucast (drop_bit 40 v), ucast (drop_bit 48 v), ucast (drop_bit 56 v)]"
  by (simp add: le64_def upt_rec)

lemma Get64_le64 [simp]: "Get64 (le64 v @ xs) = v"
proof (rule bit_word_eqI)
  fix n assume "n < LENGTH(64)"
  then show "bit (Get64 (le64 v @ xs)) n = bit v n"
    by (cases n rule: octet_cases)
       (simp_all add: get64_loop_8 le64_list bit_simps less_diff_conv2)
qed

lemma Get_le_exact [simp]:
  "Get16 (le16 a) = a" "Get32 (le32 b) = b" "Get64 (le64 c) = c"
  using Get16_le16 [of a "[]"] Get32_le32 [of b "[]"] Get64_le64 [of c "[]"] by simp_all

text \<open>Decoding reads nothing but the bytes of the field.\<close>

lemma Get32_take: "4 \<le> n \<Longrightarrow> Get32 (take n b) = Get32 b"
  by (simp add: Get32_def)

lemma Get32_append: "4 \<le> length xs \<Longrightarrow> Get32 (xs @ ys) = Get32 xs"
  by (auto simp: Get32_def nth_append)

lemma Get64_append: "8 \<le> length xs \<Longrightarrow> Get64 (xs @ ys) = Get64 xs"
  by (auto simp: get64_loop_8 nth_append)

lemma Get32_window: "Get32 (drop b m) = Get32 (window b 4 m)"
  by (simp add: window_def Get32_take)

lemma Get64_window: "Get64 (drop b m) = Get64 (window b 8 m)"
  by (simp add: window_def get64_loop_8)

text \<open>Fields survive a copy elsewhere and hold what was stored.\<close>

lemma window_go_copy_other:
  assumes "a + n \<le> off \<or> off + length src \<le> a" "off + length src \<le> length m" "a + n \<le> length m"
  shows "window a n (go_copy m off src) = window a n m"
  using assms by (intro nth_equalityI) (auto simp: window_nth go_copy_nth)

lemma Get_copy_other:
  assumes "off + length x \<le> length m"
  shows "p + 4 \<le> length m \<Longrightarrow> p + 4 \<le> off \<or> off + length x \<le> p \<Longrightarrow> Get32 (drop p (go_copy m off x)) = Get32 (drop p m)"
    "p + 8 \<le> length m \<Longrightarrow> p + 8 \<le> off \<or> off + length x \<le> p \<Longrightarrow> Get64 (drop p (go_copy m off x)) = Get64 (drop p m)"
  using assms by (simp_all add: Get32_window Get64_window window_go_copy_other)

lemma Get_put_same:
  "p + 4 \<le> length m \<Longrightarrow> Get32 (drop p (go_copy m p (le32 v))) = v"
  "p + 8 \<le> length m \<Longrightarrow> Get64 (drop p (go_copy m p (le64 u))) = u"
  by (simp_all add: go_copy_exact)

lemma list4_cases:
  assumes "4 \<le> length b"
  obtains b0 b1 b2 b3 r where "b = b0 # b1 # b2 # b3 # r"
  using assms
  by (metis (no_types, opaque_lifting) Suc_le_length_iff numeral_eq_Suc pred_numeral_simps(3)
      pred_numeral_simps(2) BitM.simps)

lemma le32_Get32: "4 \<le> length b \<Longrightarrow> le32 (Get32 b) = take 4 b"
proof (elim list4_cases)
  fix b0 b1 b2 b3 r assume b: "b = b0 # b1 # b2 # b3 # r"
  show "le32 (Get32 b) = take 4 b"
    unfolding b Get32_def le32_def
    by (simp, intro conjI; rule bit_word_eqI; simp add: bit_simps bit_byte_ge)
qed

text \<open>The bytes read as one number, the value the words stand for.\<close>

lemma unat_Get32_bound: "unat (Get32 b) < 2 ^ 32"
  using unsigned_less [of "Get32 b"] by simp

section \<open>Signed readings\<close>

text \<open>Go's \<^verbatim>\<open>int(x)\<close> of an unsigned 64-bit value.\<close>

lemma unat_less_iff_uint: "unat (w :: u64) < n \<longleftrightarrow> uint w < int n"
  using of_nat_less_iff [where 'a = int, of "unat w" n] by simp

lemma unat_ge_iff_uint: "n \<le> unat (w :: u64) \<longleftrightarrow> int n \<le> uint w"
  using unat_less_iff_uint [of w n] by linarith

lemma sint_u64: "sint (w :: u64) = signed_take_bit 63 (uint w)"
proof -
  have "LENGTH(64) - Suc 0 = 63" by simp
  then show ?thesis using sint_uint [of w] by (simp only:)
qed

lemma sint_small: "unat (w :: u64) < 2 ^ 63 \<Longrightarrow> sint w = int (unat w)"
proof -
  assume "unat w < 2 ^ 63"
  then have "uint w < 2 ^ 63" by (simp add: unat_less_iff_uint)
  moreover have "- (2 ^ 63) \<le> uint w" by (rule order_trans [OF _ uint_ge_0]) simp
  ultimately have "sint w = uint w" unfolding sint_u64 by (intro signed_take_bit_int_eq_self)
  then show ?thesis by simp
qed

lemma sint_big: "2 ^ 63 \<le> unat (w :: u64) \<Longrightarrow> sint w < 0"
proof -
  assume "2 ^ 63 \<le> unat w"
  then have "2 ^ 63 \<le> uint w" by (simp add: unat_ge_iff_uint)
  then have "sint w \<le> uint w - 2 ^ Suc 63"
    unfolding sint_u64 by (rule signed_take_bit_int_less_eq)
  moreover have "uint w < 2 ^ Suc 63" using uint_lt2p [of w] by simp
  ultimately show ?thesis by linarith
qed

end
