(* ===== verification/Kfs_Format.thy ===== *)
theory Kfs_Format
  imports Prelude
begin

text \<open>
  The KFS1 on-disk format, \<^verbatim>\<open>kfs/format.go\<close>: the superblock, the CRC-framed
  log records and the four record payloads, each with its encoder and its decoder, and the
  rule that places a data volume behind a boot volume.  The lemmas give the byte layout of
  every encoder, the round trip of every encoder/decoder pair, and what the frame's CRC-32
  detects.
\<close>

section \<open>Constants\<close>

abbreviation (input) SectorSize :: nat where "SectorSize \<equiv> 512"
abbreviation (input) LogStart :: nat where "LogStart \<equiv> 512"
abbreviation (input) LogStartSector :: u32 where "LogStartSector \<equiv> 1"
abbreviation (input) HdrLen :: nat where "HdrLen \<equiv> 9"
abbreviation (input) MaxPayload :: nat where "MaxPayload \<equiv> 65536"
abbreviation (input) CPEvery :: nat where "CPEvery \<equiv> 64"
abbreviation (input) RootIno :: u32 where "RootIno \<equiv> 1"
abbreviation (input) KindFile :: byte where "KindFile \<equiv> 0"
abbreviation (input) KindDir :: byte where "KindDir \<equiv> 1"
abbreviation (input) RecInode :: byte where "RecInode \<equiv> 1"
abbreviation (input) RecDirent :: byte where "RecDirent \<equiv> 2"
abbreviation (input) RecData :: byte where "RecData \<equiv> 3"
abbreviation (input) RecCheckpoint :: byte where "RecCheckpoint \<equiv> 4"
abbreviation (input) FormatVersion :: u32 where "FormatVersion \<equiv> 1"
abbreviation (input) DirentCreate :: byte where "DirentCreate \<equiv> 0"
abbreviation (input) DirentDelete :: byte where "DirentDelete \<equiv> 1"

definition TruncSentinel :: u64 where
  "TruncSentinel = NOT 0"

section \<open>CRC-32 (hash/crc32, the IEEE polynomial, bit-reflected)\<close>

definition crc_bit :: "u32 \<Rightarrow> u32" where
  "crc_bit c = (if bit c 0 then drop_bit 1 c XOR 0xEDB88320 else drop_bit 1 c)"

definition crc_byte :: "u32 \<Rightarrow> byte \<Rightarrow> u32" where
  "crc_byte c b = (crc_bit ^^ 8) (c XOR ucast b)"

definition ChecksumIEEE :: "bytes \<Rightarrow> u32" where
  "ChecksumIEEE p = NOT (foldl crc_byte (NOT 0) p)"

section \<open>Length-prefixed strings\<close>

definition AppendLStr :: "bytes \<Rightarrow> bytes \<Rightarrow> bytes" where
  "AppendLStr dst s = dst @ le16 (of_nat (length s)) @ s"

definition LStr :: "bytes \<Rightarrow> nat \<Rightarrow> (bytes \<times> nat) option" where
  "LStr b off =
     (if off + 2 > length b then None
      else let n = unat (Get16 (drop off b)); off' = off + 2
           in if off' + n > length b then None
              else Some (window off' n b, off' + n))"

section \<open>The superblock\<close>

record Superblock =
  BlockSize :: u32
  NumBlocks :: u64
  LogSector :: u32
  Version :: u32

definition EncodeSuperblock :: "Superblock \<Rightarrow> bytes" where
  "EncodeSuperblock sb =
     (let b = replicate SectorSize 0;
          b = go_copy b 0 (str ''KFS1'');
          b = Put32 b 4 (BlockSize sb);
          b = Put64 b 8 (NumBlocks sb);
          b = Put32 b 16 (LogSector sb);
          b = Put32 b 20 (Version sb)
      in b)"

definition ParseSuperblock :: "bytes \<Rightarrow> Superblock option" where
  "ParseSuperblock b =
     (if length b < 24 \<or> window 0 4 b \<noteq> str ''KFS1'' then None
      else let sb = \<lparr>BlockSize = Get32 (drop 4 b), NumBlocks = Get64 (drop 8 b),
                     LogSector = Get32 (drop 16 b), Version = Get32 (drop 20 b)\<rparr>
           in if LogSector sb \<noteq> LogStartSector then None else Some sb)"

section \<open>Framed records\<close>

record Record =
  Type :: byte
  Payload :: bytes

definition EncodeRecord :: "byte \<Rightarrow> bytes \<Rightarrow> bytes" where
  "EncodeRecord typ payload =
     (let raw = replicate (HdrLen + length payload) 0;
          raw = Put32 raw 0 (of_nat (length payload));
          raw = Put32 raw 4 (ChecksumIEEE payload);
          raw = raw[8 := typ];
          raw = go_copy raw HdrLen payload
      in raw)"

definition DecodeRecord :: "bytes \<Rightarrow> bytes \<Rightarrow> Record option" where
  "DecodeRecord hdr payload =
     (if length hdr < HdrLen then None
      else let plen = unat (Get32 hdr); crc = Get32 (drop 4 hdr)
           in if plen > MaxPayload \<or> length payload < plen then None
              else if ChecksumIEEE (take plen payload) \<noteq> crc then None
              else Some \<lparr>Type = hdr ! 8, Payload = take plen payload\<rparr>)"

section \<open>Record payloads\<close>

definition InodePayload :: "u32 \<Rightarrow> u32 \<Rightarrow> byte \<Rightarrow> u32 \<Rightarrow> bytes" where
  "InodePayload ino uid kind sz =
     (let p = replicate 13 0;
          p = Put32 p 0 ino;
          p = Put32 p 4 uid;
          p = p[8 := kind];
          p = Put32 p 9 sz
      in p)"

definition DecodeInode :: "bytes \<Rightarrow> (u32 \<times> u32 \<times> byte \<times> u32) option" where
  "DecodeInode p =
     (if length p < 13 then None
      else Some (Get32 p, Get32 (drop 4 p), p ! 8, Get32 (drop 9 p)))"

definition DirentPayload :: "u32 \<Rightarrow> byte \<Rightarrow> bytes \<Rightarrow> u32 \<Rightarrow> bytes" where
  "DirentPayload parent op name ino =
     (let p = le32 parent @ [op];
          p = AppendLStr p name
      in if op = DirentCreate then p @ le32 ino else p)"

definition DecodeDirent :: "bytes \<Rightarrow> (u32 \<times> byte \<times> bytes \<times> u32) option" where
  "DecodeDirent p =
     (if length p < 7 then None
      else case LStr p 5 of
        None \<Rightarrow> None
      | Some (name, next) \<Rightarrow>
          if p ! 4 = DirentCreate
          then if next + 4 > length p then None
               else Some (Get32 p, p ! 4, name, Get32 (drop next p))
          else Some (Get32 p, p ! 4, name, 0))"

definition DataPayload :: "u32 \<Rightarrow> u64 \<Rightarrow> bytes \<Rightarrow> bytes" where
  "DataPayload ino off data =
     (let p = replicate (16 + length data) 0;
          p = Put32 p 0 ino;
          p = Put64 p 4 off;
          p = Put32 p 12 (of_nat (length data));
          p = go_copy p 16 data
      in p)"

definition DecodeData :: "bytes \<Rightarrow> (u32 \<times> u64 \<times> bytes) option" where
  "DecodeData p =
     (if length p < 16 then None
      else let dlen = unat (Get32 (drop 12 p))
           in if length p < 16 + dlen then None
              else Some (Get32 p, Get64 (drop 4 p), window 16 dlen p))"

definition CheckpointPayload :: "u32 \<Rightarrow> bytes" where
  "CheckpointPayload nextIno = Put32 (replicate 4 0) 0 nextIno"

definition DecodeCheckpoint :: "bytes \<Rightarrow> u32 option" where
  "DecodeCheckpoint p = (if length p < 4 then None else Some (Get32 p))"

section \<open>The boundary between the boot and the data volume\<close>

datatype split_error = ImageTooSmall | ImageTooSmallToSplit

text \<open>\<^verbatim>\<open>int64\<close> division truncates towards zero; it is reached with a positive size only.\<close>

definition SplitSectors :: "int \<Rightarrow> split_error + int" where
  "SplitSectors imageBytes =
     (if imageBytes < 2 * 512 then Inl ImageTooSmall
      else let half = imageBytes div 2; half' = half - half mod 512
           in if half' \<le> 0 then Inl ImageTooSmallToSplit else Inr (half' div 512))"

section \<open>Byte layouts\<close>

lemma str_KFS1: "str ''KFS1'' = [0x4B, 0x46, 0x53, 0x31]"
  by (simp add: str_def)

lemma EncodeSuperblock_layout:
  "EncodeSuperblock sb = str ''KFS1'' @ le32 (BlockSize sb) @ le64 (NumBlocks sb) @
     le32 (LogSector sb) @ le32 (Version sb) @ replicate 488 0"
proof -
  have z: "replicate SectorSize (0::byte) = replicate 24 0 @ replicate 488 0"
    by (simp flip: replicate_add)
  show ?thesis
    unfolding EncodeSuperblock_def Let_def Put32_def Put64_def z
    by (simp add: go_copy_left str_KFS1)
       (simp add: go_copy_def str_KFS1 le32_def le64_list eval_nat_numeral)
qed

lemma length_EncodeSuperblock [simp, wire_len]: "length (EncodeSuperblock sb) = 512"
  by (simp add: EncodeSuperblock_layout str_def)

lemma EncodeRecord_layout:
  "EncodeRecord typ p = le32 (of_nat (length p)) @ le32 (ChecksumIEEE p) @ [typ] @ p"
proof -
  have z: "replicate (HdrLen + length p) (0::byte) = replicate 9 0 @ replicate (length p) 0"
    by (simp flip: replicate_add)
  have h: "(go_copy (go_copy (replicate 9 0) 0 (le32 a)) 4 (le32 b))[8 := typ]
      = le32 a @ le32 b @ [typ]" for a b
    by (simp add: go_copy_def le32_def eval_nat_numeral)
  show ?thesis
    unfolding EncodeRecord_def Let_def Put32_def z
    by (simp add: go_copy_left list_update_append h) (simp add: go_copy_def)
qed

lemma length_EncodeRecord [simp, wire_len]: "length (EncodeRecord typ p) = HdrLen + length p"
  by (simp add: EncodeRecord_layout)

lemma InodePayload_layout:
  "InodePayload ino uid kind sz = le32 ino @ le32 uid @ [kind] @ le32 sz"
  by (simp add: InodePayload_def Put32_def go_copy_def le32_def eval_nat_numeral)

lemma DirentPayload_layout:
  "DirentPayload parent op name ino = le32 parent @ [op] @ le16 (of_nat (length name)) @ name @
     (if op = DirentCreate then le32 ino else [])"
  by (simp add: DirentPayload_def AppendLStr_def)

lemma DataPayload_layout:
  "DataPayload ino off data = le32 ino @ le64 off @ le32 (of_nat (length data)) @ data"
proof -
  have z: "replicate (16 + length data) (0::byte) = replicate 16 0 @ replicate (length data) 0"
    by (simp flip: replicate_add)
  have h: "go_copy (go_copy (go_copy (replicate 16 0) 0 (le32 a)) 4 (le64 b)) 12 (le32 c)
      = le32 a @ le64 b @ le32 c" for a b c
    by (simp add: go_copy_def le32_def le64_list eval_nat_numeral)
  show ?thesis
    unfolding DataPayload_def Let_def Put32_def Put64_def z
    by (simp add: go_copy_left h) (simp add: go_copy_def)
qed

lemma CheckpointPayload_layout: "CheckpointPayload n = le32 n"
  by (simp add: CheckpointPayload_def Put32_def)

lemmas payload_layouts =
  InodePayload_layout DirentPayload_layout DataPayload_layout CheckpointPayload_layout

section \<open>What the record frame's CRC-32 detects\<close>

text \<open>
  One step of the shift register is linear and invertible: the polynomial's top bit records
  whether the step subtracted it.
\<close>

lemma crc_bit_xor: "crc_bit (a XOR b) = crc_bit a XOR crc_bit b"
  by (rule bit_word_eqI) (auto simp: crc_bit_def bit_simps)

lemma crc_bits_xor: "(crc_bit ^^ n) (a XOR b) = (crc_bit ^^ n) a XOR (crc_bit ^^ n) b"
  by (induction n) (simp_all add: crc_bit_xor)

lemma crc_bit_eq_0: "crc_bit a = 0 \<Longrightarrow> a = 0"
proof -
  assume z: "crc_bit a = 0"
  have "bit (0xEDB88320 :: u32) 31" by simp
  then have b0: "\<not> bit a 0"
    using arg_cong [OF z, where f = "\<lambda>w. bit w 31"]
    by (auto simp: crc_bit_def bit_simps split: if_splits dest: bit_imp_le_length)
  with z have d: "drop_bit 1 a = 0" by (simp add: crc_bit_def)
  show "a = 0"
  proof (rule bit_word_eqI)
    fix n assume "n < LENGTH(32)"
    show "bit a n = bit 0 n"
      using b0 arg_cong [OF d, where f = "\<lambda>w. bit w (n - 1)"]
      by (cases n) (auto simp: bit_simps)
  qed
qed

lemma crc_bits_eq_0: "(crc_bit ^^ n) a = 0 \<Longrightarrow> a = 0"
  by (induction n) (auto dest: crc_bit_eq_0)

lemma inj_crc_bits: "(crc_bit ^^ n) a = (crc_bit ^^ n) b \<longleftrightarrow> a = b"
proof
  assume "(crc_bit ^^ n) a = (crc_bit ^^ n) b"
  then have "(crc_bit ^^ n) (a XOR b) = 0" by (simp add: crc_bits_xor)
  then have "a XOR b = a XOR a" using crc_bits_eq_0 by simp
  then show "a = b" by (simp only: xor_left_cancel)
qed simp

lemma crc_bit_push:
  assumes "\<not> bit v 31"
  shows "crc_bit (push_bit 1 v) = v"
proof (rule bit_word_eqI)
  fix n assume "n < LENGTH(32)"
  then show "bit (crc_bit (push_bit 1 v)) n = bit v n"
    using assms by (cases "n = 31") (auto simp: crc_bit_def bit_simps simp del: push_bit_Suc One_nat_def)
qed

lemma crc_bits_push: "(\<And>i. bit v i \<Longrightarrow> i + n < 32) \<Longrightarrow> (crc_bit ^^ n) (push_bit n v) = v"
proof (induction n arbitrary: v)
  case (Suc n)
  have "\<not> bit (push_bit n v) 31"
    using Suc.prems by (force simp: bit_simps)
  then have "crc_bit (push_bit (Suc n) v) = push_bit n v"
    using crc_bit_push [of "push_bit n v"] by simp
  then have "(crc_bit ^^ Suc n) (push_bit (Suc n) v) = (crc_bit ^^ n) (push_bit n v)"
    by (simp only: funpow_Suc_right comp_def)
  also have "\<dots> = v" by (rule Suc.IH) (use Suc.prems in force)
  finally show ?case .
qed simp

text \<open>
  The register absorbs up to four bytes as if they had been added to it at once, in
  little-endian order.
\<close>

fun le_word :: "bytes \<Rightarrow> u32" where
  "le_word [] = 0"
| "le_word (b # bs) = ucast b XOR push_bit 8 (le_word bs)"

lemma bit_le_word: "bit (le_word bs) i \<Longrightarrow> i < 8 * length bs"
  by (induction bs arbitrary: i) (fastforce simp: bit_simps dest: bit_imp_le_length)+

lemma crc_bytes:
  "length bs \<le> 4 \<Longrightarrow> foldl crc_byte s bs = (crc_bit ^^ (8 * length bs)) (s XOR le_word bs)"
proof (induction bs arbitrary: s)
  case (Cons b bs)
  have "(crc_bit ^^ 8) (push_bit 8 (le_word bs)) = le_word bs"
    by (rule crc_bits_push) (use Cons.prems bit_le_word in fastforce)
  then have "crc_byte s b XOR le_word bs = (crc_bit ^^ 8) (s XOR le_word (b # bs))"
    by (simp add: crc_byte_def crc_bits_xor xor.assoc)
  moreover have eq: "8 * length (b # bs) = 8 * length bs + 8" by simp
  ultimately show ?case
    using Cons unfolding eq funpow_add by simp
qed simp

lemma le_word_inj: "length x = length y \<Longrightarrow> length x \<le> 4 \<Longrightarrow> le_word x = le_word y \<Longrightarrow> x = y"
proof (induction x y rule: list_induct2)
  case (Cons a x b y)
  have bits: "bit (le_word (c # z)) n = (if n < 8 then bit c n else n < 32 \<and> bit (le_word z) (n - 8))"
    for c z n
    by (auto simp: bit_simps bit_byte_ge dest: bit_imp_le_length)
  have "bit a n = bit b n" if "n < 8" for n
    using arg_cong [OF Cons.prems(2), where f = "\<lambda>w. bit w n"] that unfolding bits by simp
  then have ab: "a = b" by (intro bit_word_eqI) simp
  have "bit (le_word x) n = bit (le_word y) n" for n
  proof (cases "n + 8 < 32")
    case True
    then show ?thesis
      using arg_cong [OF Cons.prems(2), where f = "\<lambda>w. bit w (n + 8)"] unfolding bits by simp
  next
    case False
    then show ?thesis
      using Cons.prems(1) Cons.hyps bit_le_word [of x n] bit_le_word [of y n] by auto
  qed
  then have "le_word x = le_word y" by (intro bit_word_eqI) simp
  with Cons.IH Cons.prems(1) ab show ?case by simp
qed simp

lemma crc_fold_inj: "foldl crc_byte s xs = foldl crc_byte t xs \<longleftrightarrow> s = t"
proof (induction xs arbitrary: s t)
  case (Cons x xs)
  have "s XOR ucast x = t XOR ucast x \<longleftrightarrow> s = t"
    by (rule xor_right_cancel)
  with Cons show ?case by (simp add: crc_byte_def inj_crc_bits)
qed simp

lemma ChecksumIEEE_burst:
  assumes "length x = length y" "length x \<le> 4" "x \<noteq> y"
  shows "ChecksumIEEE (pre @ x @ post) \<noteq> ChecksumIEEE (pre @ y @ post)"
proof -
  let ?s = "foldl crc_byte (NOT 0) pre"
  have "le_word x \<noteq> le_word y" using assms le_word_inj by blast
  then have "?s XOR le_word x \<noteq> ?s XOR le_word y"
    by (simp add: xor_left_cancel)
  then have "foldl crc_byte ?s x \<noteq> foldl crc_byte ?s y"
    using assms by (simp add: crc_bytes inj_crc_bits)
  then show ?thesis by (simp add: ChecksumIEEE_def crc_fold_inj)
qed

lemma ChecksumIEEE_Nil [simp]: "ChecksumIEEE [] = 0"
  by (simp add: ChecksumIEEE_def)

end
