(* ===== verification/Kfs_Device.thy ===== *)
theory Kfs_Device
  imports Kfs_Format
begin

text \<open>
  The block-device interface KFS1 is defined over (\<^verbatim>\<open>kfs.Device\<close>,
  \<^verbatim>\<open>services/fs BlockDev\<close>), its in-memory and offset implementations, and
  volume discovery.  The interface is a record of the three methods over an arbitrary device
  state; the locale \<^emph>\<open>block_device\<close> states what every client relies on, namely that a
  device of 512-byte sectors behaves as one flat byte image.
\<close>

text \<open>The error values of \<^verbatim>\<open>kfs\<close> and \<^verbatim>\<open>services/fs\<close>, and a run-time panic.\<close>

datatype ferr =
    ErrBadSB | KfsErrNoSpace | ErrSplit split_error | ErrReadPastEnd | ErrWritePastEnd
  | ErrNoEntry | ErrExists | ErrNotDir | ErrIsDir | ErrNoSpace | ErrBadName | ErrNotEmpt
  | ErrRange | ErrKFSBadSB | ErrBeyondDevice
  | ErrBlockWindow | ErrSectorCount | ErrLbaRange | ErrBlockRead | ErrBlockWrite
  | ErrNotAligned | ErrBlankBadGeometry | ErrBlkIO
  | GoPanic

section \<open>The interface\<close>

text \<open>
  \<^verbatim>\<open>Read(lba, buf)\<close> overwrites the caller's buffer, so the model takes the old
  contents and returns the new; both methods may change the device (a request mailbox does).
\<close>

record 'd Device =
  dRead :: "'d \<Rightarrow> u64 \<Rightarrow> bytes \<Rightarrow> (ferr + bytes) \<times> 'd"
  dWrite :: "'d \<Rightarrow> u64 \<Rightarrow> bytes \<Rightarrow> (ferr + unit) \<times> 'd"
  dGeometry :: "'d \<Rightarrow> u32 \<times> u64"

section \<open>memDevice\<close>

record memDevice =
  mem_bs :: u32
  mem_n :: u64
  mem_buf :: bytes

definition newMem :: "u32 \<Rightarrow> u64 \<Rightarrow> memDevice" where
  "newMem bs blocks = \<lparr>mem_bs = bs, mem_n = blocks, mem_buf = replicate (unat blocks * unat bs) 0\<rparr>"

definition mem_Read :: "memDevice \<Rightarrow> u64 \<Rightarrow> bytes \<Rightarrow> (ferr + bytes) \<times> memDevice" where
  "mem_Read m lba p =
     (if lba \<ge> mem_n m then (Inl ErrReadPastEnd, m)
      else (Inr (go_copy p 0 (drop (unat lba * unat (mem_bs m)) (mem_buf m))), m))"

definition mem_Write :: "memDevice \<Rightarrow> u64 \<Rightarrow> bytes \<Rightarrow> (ferr + unit) \<times> memDevice" where
  "mem_Write m lba p =
     (if lba \<ge> mem_n m then (Inl ErrWritePastEnd, m)
      else (Inr (), m\<lparr>mem_buf := go_copy (mem_buf m) (unat lba * unat (mem_bs m)) p\<rparr>))"

definition mem_Geometry :: "memDevice \<Rightarrow> u32 \<times> u64" where
  "mem_Geometry m = (mem_bs m, mem_n m)"

definition mem_dev :: "memDevice Device" where
  "mem_dev = \<lparr>dRead = mem_Read, dWrite = mem_Write, dGeometry = mem_Geometry\<rparr>"

section \<open>Offset: a suffix of a device as a device\<close>

record 'd Offset =
  Inner :: 'd
  Base :: u64

definition NewOffset :: "'d \<Rightarrow> u64 \<Rightarrow> 'd Offset" where
  "NewOffset inner baseSectors = \<lparr>Inner = inner, Base = baseSectors\<rparr>"

definition off_Read :: "'d Device \<Rightarrow> 'd Offset \<Rightarrow> u64 \<Rightarrow> bytes \<Rightarrow> (ferr + bytes) \<times> 'd Offset" where
  "off_Read D ofs lba buf = apsnd (\<lambda>d. ofs\<lparr>Inner := d\<rparr>) (dRead D (Inner ofs) (Base ofs + lba) buf)"

definition off_Write :: "'d Device \<Rightarrow> 'd Offset \<Rightarrow> u64 \<Rightarrow> bytes \<Rightarrow> (ferr + unit) \<times> 'd Offset" where
  "off_Write D ofs lba buf = apsnd (\<lambda>d. ofs\<lparr>Inner := d\<rparr>) (dWrite D (Inner ofs) (Base ofs + lba) buf)"

definition off_Geometry :: "'d Device \<Rightarrow> 'd Offset \<Rightarrow> u32 \<times> u64" where
  "off_Geometry D ofs =
     (let (bs, n) = dGeometry D (Inner ofs)
      in if Base ofs \<ge> n then (bs, 0) else (bs, n - Base ofs))"

definition off_dev :: "'d Device \<Rightarrow> 'd Offset Device" where
  "off_dev D = \<lparr>dRead = off_Read D, dWrite = off_Write D, dGeometry = off_Geometry D\<rparr>"

section \<open>Volume discovery\<close>

text \<open>
  \<^verbatim>\<open>FindVolume\<close> returns a \<^verbatim>\<open>Device\<close> whose dynamic type is the
  device itself or an \<^verbatim>\<open>*Offset\<close>; the methods dispatch on it.
\<close>

datatype 'd Volume = Bare 'd | Shifted "'d Offset"

definition vol_dev :: "'d Device \<Rightarrow> 'd Volume Device" where
  "vol_dev D = \<lparr>
     dRead = (\<lambda>v lba buf. case v of
         Bare d \<Rightarrow> apsnd Bare (dRead D d lba buf)
       | Shifted s \<Rightarrow> apsnd Shifted (off_Read D s lba buf)),
     dWrite = (\<lambda>v lba buf. case v of
         Bare d \<Rightarrow> apsnd Bare (dWrite D d lba buf)
       | Shifted s \<Rightarrow> apsnd Shifted (off_Write D s lba buf)),
     dGeometry = (\<lambda>v. case v of Bare d \<Rightarrow> dGeometry D d | Shifted s \<Rightarrow> off_Geometry D s)\<rparr>"

text \<open>A failed read gives a nil window, which no superblock parses from.\<close>

definition readSector :: "'d Device \<Rightarrow> 'd \<Rightarrow> u64 \<Rightarrow> bytes \<times> 'd" where
  "readSector D d lba =
     (let (bs, n) = dGeometry D d
      in if bs = 0 then ([], d)
         else case dRead D d lba (replicate (unat bs) 0) of
           (Inl e, d') \<Rightarrow> ([], d')
         | (Inr buf, d') \<Rightarrow> (buf, d'))"

definition FindVolume :: "'d Device \<Rightarrow> 'd \<Rightarrow> (ferr \<times> 'd) + 'd Volume" where
  "FindVolume D d =
     (let (s0, d) = readSector D d 0
      in if ParseSuperblock s0 \<noteq> None then Inr (Bare d)
         else let (bs, n) = dGeometry D d
              in case SplitSectors (int (unat n) * int (unat bs)) of
                Inl e \<Rightarrow> Inl (ErrSplit e, d)
              | Inr base \<Rightarrow>
                  let (s1, d) = readSector D d (word_of_int base)
                  in if ParseSuperblock s1 \<noteq> None then Inr (Shifted (NewOffset d (word_of_int base)))
                     else Inl (ErrBadSB, d))"

section \<open>What a client relies on\<close>

text \<open>
  \<^term>\<open>img\<close> is the device as one run of bytes.  The laws are for whole sectors inside the
  device: that is all the clients ask for.
\<close>

locale block_device =
  fixes D :: "'d Device"
    and dok :: "'d \<Rightarrow> bool"
    and img :: "'d \<Rightarrow> bytes"
  assumes geometry: "dok d \<Longrightarrow> dGeometry D d = (512, of_nat (length (img d) div 512))"
    and whole: "dok d \<Longrightarrow> 512 dvd length (img d)"
    and bounded: "dok d \<Longrightarrow> length (img d) < 2 ^ 63"
    and read: "dok d \<Longrightarrow> length buf = 512 * k \<Longrightarrow> 0 < k \<Longrightarrow>
        unat lba * 512 + length buf \<le> length (img d) \<Longrightarrow>
        \<exists>d'. dRead D d lba buf = (Inr (window (unat lba * 512) (length buf) (img d)), d') \<and>
             dok d' \<and> img d' = img d"
    and put: "dok d \<Longrightarrow> length buf = 512 * k \<Longrightarrow> 0 < k \<Longrightarrow>
        unat lba * 512 + length buf \<le> length (img d) \<Longrightarrow>
        \<exists>d'. dWrite D d lba buf = (Inr (), d') \<and>
             dok d' \<and> img d' = go_copy (img d) (unat lba * 512) buf"
begin

lemma sector_of_nat:
  assumes "dok d" "s * 512 \<le> length (img d)"
  shows "unat (of_nat s :: u64) = s"
proof -
  have "s < 2 ^ 64" using assms bounded [of d] by simp
  then show ?thesis by (simp add: unat_of_nat take_bit_eq_mod)
qed

lemma read_sector:
  assumes "dok d" "length sec = 512" "s * 512 + 512 \<le> length (img d)"
  obtains d' where "dRead D d (of_nat s) sec = (Inr (window (s * 512) 512 (img d)), d')"
    "dok d'" "img d' = img d"
  using read [of d sec 1 "of_nat s"] assms sector_of_nat [of d s] by auto

lemma write_sectors:
  assumes "dok d" "length buf = 512 * k" "0 < k" "s * 512 + length buf \<le> length (img d)"
  obtains d' where "dWrite D d (of_nat s) buf = (Inr (), d')"
    "dok d'" "img d' = go_copy (img d) (s * 512) buf"
  using put [of d buf k "of_nat s"] assms sector_of_nat [of d s] by auto

lemma unat_blocks:
  assumes "dok d"
  shows "unat (of_nat (length (img d) div 512) :: u64) * 512 = length (img d)"
  using sector_of_nat [of d "length (img d) div 512"] whole [of d] assms by simp

lemma readSector_img:
  assumes "dok d" "s * 512 + 512 \<le> length (img d)"
  obtains d' where "readSector D d (of_nat s) = (window (s * 512) 512 (img d), d')"
    "dok d'" "img d' = img d"
proof -
  have "unat (512 :: u32) = 512" by simp
  then have l: "length (replicate (unat (512 :: u32)) (0 :: byte)) = 512" by simp
  from read_sector [OF assms(1) l assms(2)] obtain d' where
    "dRead D d (of_nat s) (replicate (unat (512 :: u32)) 0) = (Inr (window (s * 512) 512 (img d)), d')"
    "dok d'" "img d' = img d" by blast
  with that show ?thesis by (simp add: readSector_def geometry [OF assms(1)])
qed

end

section \<open>The in-memory device is a block device\<close>

definition mem_inv :: "memDevice \<Rightarrow> bool" where
  "mem_inv m \<longleftrightarrow> mem_bs m = 512 \<and> length (mem_buf m) = 512 * unat (mem_n m) \<and>
     length (mem_buf m) < 2 ^ 63"

lemma mem_lba_less:
  assumes "mem_inv m" "unat lba * 512 + length buf \<le> length (mem_buf m)" "0 < length buf"
  shows "\<not> mem_n m \<le> lba"
proof
  assume "mem_n m \<le> lba"
  then have "unat (mem_n m) \<le> unat lba" by (simp add: word_le_nat_alt)
  then show False using assms unfolding mem_inv_def by linarith
qed

interpretation mem: block_device mem_dev mem_inv mem_buf
proof
  fix d assume dok: "mem_inv d"
  show "dGeometry mem_dev d = (512, of_nat (length (mem_buf d) div 512))"
    using dok by (simp add: mem_inv_def mem_dev_def mem_Geometry_def)
  show "512 dvd length (mem_buf d)" "length (mem_buf d) < 2 ^ 63"
    using dok by (simp_all add: mem_inv_def)
next
  fix d :: memDevice and buf :: bytes and k :: nat and lba :: u64
  assume dok: "mem_inv d" and len: "length buf = 512 * k" "0 < k"
    and fits: "unat lba * 512 + length buf \<le> length (mem_buf d)"
  have lt: "\<not> mem_n d \<le> lba" using mem_lba_less [OF dok fits] len by simp
  have "go_copy buf 0 (drop (unat lba * 512) (mem_buf d)) =
        window (unat lba * 512) (length buf) (mem_buf d)"
    using fits by (simp add: go_copy_def window_def)
  then show "\<exists>d'. dRead mem_dev d lba buf =
      (Inr (window (unat lba * 512) (length buf) (mem_buf d)), d') \<and> mem_inv d' \<and> mem_buf d' = mem_buf d"
    using lt dok by (simp add: mem_dev_def mem_Read_def mem_inv_def)
  show "\<exists>d'. dWrite mem_dev d lba buf = (Inr (), d') \<and> mem_inv d' \<and>
      mem_buf d' = go_copy (mem_buf d) (unat lba * 512) buf"
    using lt dok fits by (simp add: mem_dev_def mem_Write_def mem_inv_def)
qed

lemma mem_inv_newMem: "unat blocks * 512 < 2 ^ 63 \<Longrightarrow> mem_inv (newMem 512 blocks)"
  by (simp add: mem_inv_def newMem_def)

section \<open>A suffix of a block device is a block device\<close>

definition off_inv :: "('d \<Rightarrow> bool) \<Rightarrow> ('d \<Rightarrow> bytes) \<Rightarrow> 'd Offset \<Rightarrow> bool" where
  "off_inv dok img ofs \<longleftrightarrow> dok (Inner ofs) \<and> unat (Base ofs) * 512 \<le> length (img (Inner ofs))"

definition off_img :: "('d \<Rightarrow> bytes) \<Rightarrow> 'd Offset \<Rightarrow> bytes" where
  "off_img img ofs = drop (unat (Base ofs) * 512) (img (Inner ofs))"

lemma window_drop: "window off n (drop k xs) = window (k + off) n xs"
  by (simp add: window_def add.commute)

lemma drop_go_copy_suffix:
  "k + off + length src \<le> length xs \<Longrightarrow> drop k (go_copy xs (k + off) src) = go_copy (drop k xs) off src"
  by (simp add: go_copy_exact drop_take add.commute add.left_commute)

context block_device
begin

lemma off_geometry:
  assumes "off_inv dok img ofs"
  shows "off_Geometry D ofs = (512, of_nat (length (off_img img ofs) div 512))"
proof -
  let ?n = "length (img (Inner ofs)) div 512"
  have i: "dok (Inner ofs)" and b: "unat (Base ofs) * 512 \<le> length (img (Inner ofs))"
    using assms by (auto simp: off_inv_def)
  have n: "unat (of_nat ?n :: u64) = ?n" using sector_of_nat [OF i, of ?n] by simp
  have le: "unat (Base ofs) \<le> ?n" using b by (simp add: less_eq_div_iff_mult_less_eq)
  have "length (off_img img ofs) div 512 = ?n - unat (Base ofs)"
    using whole [OF i] b by (auto simp: off_img_def elim!: dvdE)
  then have len: "of_nat (length (off_img img ofs) div 512) = (of_nat ?n - Base ofs :: u64)"
    using le by (simp add: of_nat_diff)
  show ?thesis
  proof (cases "of_nat ?n \<le> Base ofs")
    case True
    then have "?n = unat (Base ofs)" using le n by (simp add: word_le_nat_alt)
    then have "of_nat ?n = Base ofs" by simp
    with True len show ?thesis by (simp add: off_Geometry_def geometry [OF i])
  next
    case False
    with len show ?thesis by (simp add: off_Geometry_def geometry [OF i])
  qed
qed

lemma off_lba:
  assumes "off_inv dok img ofs" "unat lba * 512 + n \<le> length (off_img img ofs)" "0 < n"
  shows "unat (Base ofs + lba) = unat (Base ofs) + unat lba"
    "unat (Base ofs) * 512 + unat lba * 512 + n \<le> length (img (Inner ofs))"
proof -
  have i: "dok (Inner ofs)" using assms by (auto simp: off_inv_def)
  show le: "unat (Base ofs) * 512 + unat lba * 512 + n \<le> length (img (Inner ofs))"
    using assms by (simp add: off_inv_def off_img_def)
  then have "unat (Base ofs) + unat lba < 2 ^ 64" using bounded [OF i] by simp
  then show "unat (Base ofs + lba) = unat (Base ofs) + unat lba"
    by (simp add: unat_word_ariths)
qed

lemma off_block_device: "block_device (off_dev D) (off_inv dok img) (off_img img)"
proof
  fix ofs :: "'d Offset" assume dok: "off_inv dok img ofs"
  then have i: "dok (Inner ofs)" by (simp add: off_inv_def)
  show "dGeometry (off_dev D) ofs = (512, of_nat (length (off_img img ofs) div 512))"
    using off_geometry [OF dok] by (simp add: off_dev_def)
  show "512 dvd length (off_img img ofs)"
    using whole [OF i] by (simp add: off_img_def dvd_diff_nat)
  show "length (off_img img ofs) < 2 ^ 63"
    using bounded [OF i] by (simp add: off_img_def)
next
  fix ofs :: "'d Offset" and buf :: bytes and k :: nat and lba :: u64
  assume dok: "off_inv dok img ofs" and k: "length buf = 512 * k" "0 < k"
    and fits: "unat lba * 512 + length buf \<le> length (off_img img ofs)"
  have i: "dok (Inner ofs)" using dok by (simp add: off_inv_def)
  have l0: "0 < length buf" using k by simp
  note lba = off_lba [OF dok fits l0]
  have fits': "unat (Base ofs + lba) * 512 + length buf \<le> length (img (Inner ofs))"
    using lba by (simp add: add_mult_distrib)
  from read [OF i k fits'] obtain d where
    d: "dRead D (Inner ofs) (Base ofs + lba) buf =
        (Inr (window (unat (Base ofs + lba) * 512) (length buf) (img (Inner ofs))), d)"
    "dok d" "img d = img (Inner ofs)" by blast
  then show "\<exists>d'. dRead (off_dev D) ofs lba buf =
      (Inr (window (unat lba * 512) (length buf) (off_img img ofs)), d') \<and>
      off_inv dok img d' \<and> off_img img d' = off_img img ofs"
    using dok by (simp add: off_dev_def off_Read_def off_inv_def off_img_def window_drop lba(1)
        add_mult_distrib)
  from put [OF i k fits'] obtain d where
    d: "dWrite D (Inner ofs) (Base ofs + lba) buf = (Inr (), d)"
    "dok d" "img d = go_copy (img (Inner ofs)) (unat (Base ofs + lba) * 512) buf" by blast
  then show "\<exists>d'. dWrite (off_dev D) ofs lba buf = (Inr (), d') \<and> off_inv dok img d' \<and>
      off_img img d' = go_copy (off_img img ofs) (unat lba * 512) buf"
    using dok lba fits'
    by (simp add: off_dev_def off_Write_def off_inv_def off_img_def add_mult_distrib
        drop_go_copy_suffix)
qed

end

interpretation off_mem: block_device "off_dev mem_dev" "off_inv mem_inv mem_buf" "off_img mem_buf"
  by (rule mem.off_block_device)

section \<open>A discovered volume is a block device\<close>

definition vol_inv :: "('d \<Rightarrow> bool) \<Rightarrow> ('d \<Rightarrow> bytes) \<Rightarrow> 'd Volume \<Rightarrow> bool" where
  "vol_inv dok img v = (case v of Bare d \<Rightarrow> dok d | Shifted s \<Rightarrow> off_inv dok img s)"

definition vol_img :: "('d \<Rightarrow> bytes) \<Rightarrow> 'd Volume \<Rightarrow> bytes" where
  "vol_img img v = (case v of Bare d \<Rightarrow> img d | Shifted s \<Rightarrow> off_img img s)"

lemma vol_dev_sel [simp]:
  "dRead (vol_dev D) (Bare d) lba buf = apsnd Bare (dRead D d lba buf)"
  "dRead (vol_dev D) (Shifted s) lba buf = apsnd Shifted (dRead (off_dev D) s lba buf)"
  "dWrite (vol_dev D) (Bare d) lba buf = apsnd Bare (dWrite D d lba buf)"
  "dWrite (vol_dev D) (Shifted s) lba buf = apsnd Shifted (dWrite (off_dev D) s lba buf)"
  "dGeometry (vol_dev D) (Bare d) = dGeometry D d"
  "dGeometry (vol_dev D) (Shifted s) = dGeometry (off_dev D) s"
  "vol_inv dok img (Bare d) = dok d" "vol_inv dok img (Shifted s) = off_inv dok img s"
  "vol_img img (Bare d) = img d" "vol_img img (Shifted s) = off_img img s"
  by (simp_all add: vol_dev_def off_dev_def vol_inv_def vol_img_def)

context block_device
begin

lemma vol_block_device: "block_device (vol_dev D) (vol_inv dok img) (vol_img img)"
proof
  fix v :: "'d Volume" assume "vol_inv dok img v"
  then show "dGeometry (vol_dev D) v = (512, of_nat (length (vol_img img v) div 512))"
    "512 dvd length (vol_img img v)" "length (vol_img img v) < 2 ^ 63"
    using geometry whole bounded block_device.geometry [OF off_block_device]
      block_device.whole [OF off_block_device] block_device.bounded [OF off_block_device]
    by (cases v; simp)+
next
  fix v :: "'d Volume" and buf :: bytes and k :: nat and lba :: u64
  assume h: "vol_inv dok img v" "length buf = 512 * k" "0 < k"
    "unat lba * 512 + length buf \<le> length (vol_img img v)"
  show "\<exists>d'. dRead (vol_dev D) v lba buf =
      (Inr (window (unat lba * 512) (length buf) (vol_img img v)), d') \<and>
      vol_inv dok img d' \<and> vol_img img d' = vol_img img v"
  proof (cases v)
    case (Bare d)
    with h read [of d buf k lba] show ?thesis by auto
  next
    case (Shifted s)
    with h block_device.read [OF off_block_device, of s buf k lba] show ?thesis by auto
  qed
  show "\<exists>d'. dWrite (vol_dev D) v lba buf = (Inr (), d') \<and> vol_inv dok img d' \<and>
      vol_img img d' = go_copy (vol_img img v) (unat lba * 512) buf"
  proof (cases v)
    case (Bare d)
    with h put [of d buf k lba] show ?thesis by auto
  next
    case (Shifted s)
    with h block_device.put [OF off_block_device, of s buf k lba] show ?thesis by auto
  qed
qed

end

interpretation vol_mem: block_device "vol_dev mem_dev" "vol_inv mem_inv mem_buf" "vol_img mem_buf"
  by (rule mem.vol_block_device)

section \<open>Volume discovery on a flat image\<close>

lemma SplitSectors_half:
  assumes "1024 \<le> b"
  shows "SplitSectors (int b) = Inr (int (b div 1024))"
proof -
  have eq: "int b div 2 - int b div 2 mod 512 = 512 * (int b div 2 div 512)"
    by (simp add: minus_mod_eq_mult_div)
  have d: "int b div 2 div 512 = int (b div 1024)"
    by (simp add: zdiv_int flip: zdiv_zmult2_eq)
  have "0 < b div 1024" using assms by (simp add: div_greater_zero_iff)
  then show ?thesis
    using assms unfolding SplitSectors_def Let_def eq d by simp
qed

context block_device
begin

lemma FindVolume_img:
  assumes ok: "dok d" and sz: "1024 \<le> length (img d)"
  defines "s \<equiv> length (img d) div 1024"
  obtains d' where "dok d'" "img d' = img d"
    "FindVolume D d =
      (if ParseSuperblock (window 0 512 (img d)) \<noteq> None then Inr (Bare d')
       else if ParseSuperblock (window (s * 512) 512 (img d)) \<noteq> None
            then Inr (Shifted (NewOffset d' (of_nat s)))
       else Inl (ErrBadSB, d'))"
proof -
  have "0 * 512 + 512 \<le> length (img d)" using sz by simp
  from readSector_img [OF ok this] obtain d1 where
    d1: "readSector D d 0 = (window 0 512 (img d), d1)" "dok d1" "img d1 = img d"
    by auto
  have "s * 512 + 512 \<le> length (img d1)" using sz unfolding d1(3) s_def by linarith
  from readSector_img [OF d1(2) this] obtain d2 where
    d2: "readSector D d1 (of_nat s) = (window (s * 512) 512 (img d1), d2)" "dok d2" "img d2 = img d1"
    by blast
  have "int (unat (of_nat (length (img d) div 512) :: u64) * 512) = int (length (img d))"
    by (simp only: unat_blocks [OF ok])
  then have "uint (of_nat (length (img d) div 512) :: u64) * 512 = int (length (img d))"
    by simp
  then have split: "SplitSectors (uint (of_nat (length (img d) div 512) :: u64) * 512) = Inr (int s)"
    using SplitSectors_half [OF sz] by (simp add: s_def)
  show ?thesis
  proof (cases "ParseSuperblock (window 0 512 (img d)) = None")
    case True
    then have "FindVolume D d = (if ParseSuperblock (window (s * 512) 512 (img d)) \<noteq> None
            then Inr (Shifted (NewOffset d2 (of_nat s))) else Inl (ErrBadSB, d2))"
      using split by (simp add: FindVolume_def d1 d2 geometry [OF d1(2)])
    with True that [of d2] d2 d1 show ?thesis by simp
  next
    case False
    with that [of d1] d1 show ?thesis by (auto simp: FindVolume_def)
  qed
qed

end

end
