(* ===== verification/Kfs_Formatter.thy ===== *)
theory Kfs_Formatter
  imports Kfs_Device
begin

text \<open>
  The host-side log writer and reference reader, \<^verbatim>\<open>kfs/formatter.go\<close>: the
  sector read-modify-write loop, record appending with checkpoint pacing, formatting and
  replay.  Inside \<^emph>\<open>block_device\<close> each is shown to be an operation on the flat image:
  a write is a copy at a byte offset, a read is a window, and replay is a scan of the log
  bytes.
\<close>

section \<open>Byte-accurate device access\<close>

text \<open>
  The loop of \<^verbatim>\<open>Formatter.writeAt\<close> (and, line for line, of the slow path of
  \<^verbatim>\<open>KFS.append\<close>): \<^term>\<open>sec\<close> is the one sector buffer the loop
  reuses.
\<close>

function writeAt_loop ::
  "'d Device \<Rightarrow> nat \<Rightarrow> bytes \<Rightarrow> bytes \<Rightarrow> nat \<Rightarrow> 'd \<Rightarrow> (ferr + unit) \<times> 'd" where
  "writeAt_loop D off buf sec done d =
     (if done < length buf
      then let si = off + done;
               within = si mod SectorSize;
               tk = min (SectorSize - within) (length buf - done)
           in sbind (dRead D d (of_nat (si div SectorSize)) sec)
                (\<lambda>sec d. let sec = go_copy sec within (window done tk buf)
                  in sbind (dWrite D d (of_nat (si div SectorSize)) sec)
                       (\<lambda>_ d. writeAt_loop D off buf sec (done + tk) d))
      else (Inr (), d))"
  by pat_completeness auto
termination
  by (relation "measure (\<lambda>(D, off, buf, sec, done, d). length buf - done)") (auto simp: min_def)

declare writeAt_loop.simps [simp del]

definition writeAt :: "'d Device \<Rightarrow> nat \<Rightarrow> bytes \<Rightarrow> 'd \<Rightarrow> (ferr + unit) \<times> 'd" where
  "writeAt D off buf d =
     (if off mod SectorSize = 0 \<and> length buf mod SectorSize = 0
      then dWrite D d (of_nat (off div SectorSize)) buf
      else writeAt_loop D off buf (replicate SectorSize 0) 0 d)"

text \<open>
  \<^verbatim>\<open>readBytes\<close>; a nil result is \<^term>\<open>None\<close>.  The device fills the
  caller's slice, whose length stays \<^verbatim>\<open>bs\<close>.  (A block size of 0 would panic on the
  division; the only caller has parsed a superblock out of a buffer of that size before.)
\<close>

function readBytes_loop ::
  "'d Device \<Rightarrow> nat \<Rightarrow> nat \<Rightarrow> nat \<Rightarrow> bytes \<Rightarrow> bytes \<Rightarrow> 'd \<Rightarrow> bytes option \<times> 'd" where
  "readBytes_loop D off n bs sec out d =
     (if length out < n
      then if bs = 0 \<or> length sec \<noteq> bs then (None, d)
           else let si = off + length out
                in case dRead D d (of_nat (si div bs)) sec of
                  (Inl e, d) \<Rightarrow> (None, d)
                | (Inr r, d) \<Rightarrow>
                    let sec = go_copy sec 0 r;
                        within = si mod bs;
                        tk = min (bs - within) (n - length out)
                    in readBytes_loop D off n bs sec (out @ window within tk sec) d
      else (Some out, d))"
  by pat_completeness auto
termination
proof (relation "measure (\<lambda>(D, off, n, bs, sec, out, d). n - length out)", goal_cases)
  case (2 D off n bs sec out d si r d' b sec' within tk)
  then have w: "within < bs" "length sec' = bs" "0 < tk" "tk \<le> bs - within" by auto
  then have "within + tk \<le> length sec'" by linarith
  then have "length (window within tk sec') = tk" by simp
  with w(3) 2(1) show ?case by simp
qed simp

declare readBytes_loop.simps [simp del]

definition readBytes :: "'d Device \<Rightarrow> nat \<Rightarrow> nat \<Rightarrow> nat \<Rightarrow> 'd \<Rightarrow> bytes option \<times> 'd" where
  "readBytes D off n bs d = readBytes_loop D off n bs (replicate bs 0) [] d"

section \<open>Formatter\<close>

record 'd Formatter =
  f_dev :: 'd
  f_logEnd :: nat
  f_wOff :: nat
  f_recs :: nat
  f_nextIno :: u32

definition NewFormatter :: "'d Device \<Rightarrow> 'd \<Rightarrow> ferr + 'd Formatter" where
  "NewFormatter D d =
     (let (bs, n) = dGeometry D d
      in if bs = 0 \<or> n = 0 then Inl ErrBadSB
         else Inr \<lparr>f_dev = d, f_logEnd = unat n * unat bs, f_wOff = LogStart, f_recs = 0,
                   f_nextIno = RootIno + 1\<rparr>)"

text \<open>
  \<^verbatim>\<open>Append\<close> and \<^verbatim>\<open>AppendCheckpoint\<close> call each other; a
  checkpoint never paces another, so the mutual recursion is one level deep.
\<close>

function Append :: "'d Device \<Rightarrow> byte \<Rightarrow> bytes \<Rightarrow> 'd Formatter \<Rightarrow> (ferr + unit) \<times> 'd Formatter" where
  "Append D typ payload f =
     (let raw = EncodeRecord typ payload
      in if f_wOff f + length raw > f_logEnd f then (Inl KfsErrNoSpace, f)
         else sbind (apsnd (\<lambda>d. f\<lparr>f_dev := d\<rparr>) (writeAt D (f_wOff f) raw (f_dev f)))
           (\<lambda>_ f. let f = f\<lparr>f_wOff := f_wOff f + length raw\<rparr>
             in if typ \<noteq> RecCheckpoint
                then let f = f\<lparr>f_recs := f_recs f + 1\<rparr>
                     in if f_recs f mod CPEvery = 0
                        then Append D RecCheckpoint (CheckpointPayload (f_nextIno f)) f
                        else (Inr (), f)
                else (Inr (), f)))"
  by pat_completeness auto
termination
  by (relation "measure (\<lambda>(D, typ, payload, f). if typ = RecCheckpoint then 0 else 1)") auto

declare Append.simps [simp del]

definition AppendCheckpoint :: "'d Device \<Rightarrow> 'd Formatter \<Rightarrow> (ferr + unit) \<times> 'd Formatter" where
  "AppendCheckpoint D f = Append D RecCheckpoint (CheckpointPayload (f_nextIno f)) f"

definition SetNextIno :: "u32 \<Rightarrow> 'd Formatter \<Rightarrow> 'd Formatter" where
  "SetNextIno v f = f\<lparr>f_nextIno := v\<rparr>"

definition AppendInode ::
  "'d Device \<Rightarrow> u32 \<Rightarrow> byte \<Rightarrow> u32 \<Rightarrow> 'd Formatter \<Rightarrow> (ferr + u32) \<times> 'd Formatter" where
  "AppendInode D uid kind sz f =
     (let ino = f_nextIno f
      in sbind (Append D RecInode (InodePayload ino uid kind sz) f)
           (\<lambda>_ f. (Inr ino, f\<lparr>f_nextIno := f_nextIno f + 1\<rparr>)))"

definition AppendDirent ::
  "'d Device \<Rightarrow> u32 \<Rightarrow> bytes \<Rightarrow> u32 \<Rightarrow> 'd Formatter \<Rightarrow> (ferr + unit) \<times> 'd Formatter" where
  "AppendDirent D parent name ino f =
     Append D RecDirent (DirentPayload parent DirentCreate name ino) f"

definition AppendData ::
  "'d Device \<Rightarrow> u32 \<Rightarrow> u64 \<Rightarrow> bytes \<Rightarrow> 'd Formatter \<Rightarrow> (ferr + unit) \<times> 'd Formatter" where
  "AppendData D ino off data f =
     (if off = TruncSentinel then Append D RecData (DataPayload ino off []) f
      else Append D RecData (DataPayload ino off data) f)"

text \<open>\<^verbatim>\<open>Format\<close>: superblock, root inode, checkpoint.\<close>

definition Format :: "'d Device \<Rightarrow> 'd \<Rightarrow> (ferr + unit) \<times> 'd" where
  "Format D d =
     (let (bs, n) = dGeometry D d
      in if n < 16 then (Inl ErrBadSB, d)
         else sbind (dWrite D d 0 (EncodeSuperblock
                 \<lparr>BlockSize = bs, NumBlocks = n, LogSector = LogStartSector, Version = FormatVersion\<rparr>))
           (\<lambda>_ d. case NewFormatter D d of
               Inl e \<Rightarrow> (Inl e, d)
             | Inr f \<Rightarrow> apsnd f_dev
                 (sbind (Append D RecInode (InodePayload RootIno 0 KindDir 0) f)
                   (\<lambda>_ f. AppendCheckpoint D f))))"

section \<open>Replay, the reference reader\<close>

text \<open>
  The loop body reads the header twice: once with a nine-byte read whose result is thrown
  away (only its error counts) and once byte-accurately.
\<close>

function Replay_loop ::
  "'d Device \<Rightarrow> nat \<Rightarrow> nat \<Rightarrow> bytes \<Rightarrow> Record list \<Rightarrow> nat \<Rightarrow> 'd \<Rightarrow> Record list \<times> 'd" where
  "Replay_loop D bs logEnd hdr recs pos d =
     (if pos + HdrLen \<le> logEnd
      then case dRead D d (of_nat (pos div bs)) hdr of
          (Inl e, d) \<Rightarrow> (recs, d)
        | (Inr _, d) \<Rightarrow> (case readBytes D pos HdrLen bs d of
            (None, d) \<Rightarrow> (recs, d)
          | (Some hdr, d) \<Rightarrow>
              let plen = unat (Get32 hdr)
              in if plen > MaxPayload \<or> pos + HdrLen + plen > logEnd then (recs, d)
                 else case readBytes D (pos + HdrLen) plen bs d of
                     (None, d) \<Rightarrow> (recs, d)
                   | (Some payload, d) \<Rightarrow>
                       (case DecodeRecord hdr payload of
                          None \<Rightarrow> (recs, d)
                        | Some r \<Rightarrow>
                            Replay_loop D bs logEnd hdr (recs @ [r]) (pos + (HdrLen + plen)) d))
      else (recs, d))"
  by pat_completeness auto
termination
  by (relation "measure (\<lambda>(D, bs, logEnd, hdr, recs, pos, d). logEnd - pos)") auto

declare Replay_loop.simps [simp del]

definition Replay :: "'d Device \<Rightarrow> 'd \<Rightarrow> Record list option \<times> 'd" where
  "Replay D d =
     (let (bs, n) = dGeometry D d
      in case dRead D d 0 (replicate (unat bs) 0) of
          (Inl e, d) \<Rightarrow> (None, d)
        | (Inr sec, d) \<Rightarrow>
            (case ParseSuperblock sec of
               None \<Rightarrow> (None, d)
             | Some sb \<Rightarrow>
                 apfst Some (Replay_loop D (unat bs) (unat n * unat bs) (replicate HdrLen 0) []
                   (unat (LogSector sb) * unat bs) d)))"

section \<open>The device operations on the flat image\<close>

lemma sector_in_range:
  assumes "512 dvd n" "si < n"
  shows "si div 512 * 512 + 512 \<le> (n :: nat)"
proof -
  from assms obtain k where k: "n = k * 512" by (auto elim!: dvdE)
  with assms(2) have "si div 512 < k" by (simp add: less_mult_imp_div_less)
  with k show ?thesis by linarith
qed

text \<open>Rewriting one sector with a patched copy of itself patches the image.\<close>

lemma patch_sector:
  assumes "s * 512 + 512 \<le> length I" "within + length xs \<le> 512"
  shows "go_copy I (s * 512) (go_copy (window (s * 512) 512 I) within xs) =
         go_copy I (s * 512 + within) xs"
proof (rule nth_equalityI)
  show "length (go_copy I (s * 512) (go_copy (window (s * 512) 512 I) within xs)) =
        length (go_copy I (s * 512 + within) xs)"
    using assms by simp
  fix i assume "i < length (go_copy I (s * 512) (go_copy (window (s * 512) 512 I) within xs))"
  then have i: "i < length I" using assms by simp
  show "go_copy I (s * 512) (go_copy (window (s * 512) 512 I) within xs) ! i =
        go_copy I (s * 512 + within) xs ! i"
  proof (cases "s * 512 \<le> i \<and> i < s * 512 + 512")
    case True
    then have "i - s * 512 < 512" by linarith
    with True i assms show ?thesis
      by (auto simp: go_copy_nth window_nth)
  next
    case False
    with i assms show ?thesis by (auto simp: go_copy_nth)
  qed
qed

context block_device
begin

lemma writeAt_loop_img:
  assumes "dok d" "length sec = 512" "off + length buf \<le> length (img d)" "done \<le> length buf"
  shows "\<exists>d'. writeAt_loop D off buf sec done d = (Inr (), d') \<and> dok d' \<and>
     img d' = go_copy (img d) (off + done) (drop done buf)"
  using assms
proof (induction "length buf - done" arbitrary: "done" d sec rule: less_induct)
  case less
  show ?case
  proof (cases "done < length buf")
    case False
    with less.prems show ?thesis by (subst writeAt_loop.simps) simp
  next
    case True
    define si where "si = off + done"
    define within where "within = si mod 512"
    define tk where "tk = min (512 - within) (length buf - done)"
    let ?xs = "window done tk buf"
    have tk: "0 < tk" "within + tk \<le> 512" "done + tk \<le> length buf"
      using True by (auto simp: tk_def within_def min_def)
    have s: "si div 512 * 512 + 512 \<le> length (img d)"
      using sector_in_range [OF whole [OF less.prems(1)], of si] less.prems(3) True
      by (simp add: si_def)
    obtain d1 where d1: "dRead D d (of_nat (si div 512)) sec =
        (Inr (window (si div 512 * 512) 512 (img d)), d1)" "dok d1" "img d1 = img d"
      using read_sector [OF less.prems(1,2) s] by blast
    define sec' where "sec' = go_copy (window (si div 512 * 512) 512 (img d)) within ?xs"
    have l': "length sec' = 512" using s tk by (simp add: sec'_def)
    obtain d2 where d2: "dWrite D d1 (of_nat (si div 512)) sec' = (Inr (), d2)" "dok d2"
        "img d2 = go_copy (img d1) (si div 512 * 512) sec'"
      using write_sectors [OF d1(2), of sec' 1 "si div 512"] s l' d1(3) by auto
    have img2: "img d2 = go_copy (img d) si ?xs"
      using patch_sector [OF s, of within ?xs] tk
      by (simp add: d2(3) d1(3) sec'_def within_def)
    have step: "writeAt_loop D off buf sec done d = writeAt_loop D off buf sec' (done + tk) d2"
      using True by (subst writeAt_loop.simps)
        (simp add: si_def [symmetric] within_def [symmetric] tk_def [symmetric] d1 d2
          sec'_def [symmetric])
    have "length buf - (done + tk) < length buf - done" using tk True by simp
    moreover have "off + length buf \<le> length (img d2)" using less.prems(3) tk by (simp add: img2 si_def)
    ultimately obtain d' where d': "writeAt_loop D off buf sec' (done + tk) d2 = (Inr (), d')"
        "dok d'" "img d' = go_copy (img d2) (off + (done + tk)) (drop (done + tk) buf)"
      using less.hyps [of "done + tk" d2 sec'] d2(2) l' tk(3) by blast
    have "drop done buf = ?xs @ drop (done + tk) buf"
      unfolding window_def by (metis append_take_drop_id drop_drop add.commute)
    then have "go_copy (img d2) (off + (done + tk)) (drop (done + tk) buf) =
        go_copy (img d) (off + done) (drop done buf)"
      using go_copy_append [of si ?xs "drop (done + tk) buf" "img d"] less.prems(3) tk
      by (simp add: img2 si_def add.assoc)
    with d' step show ?thesis by auto
  qed
qed

lemma writeAt_img:
  assumes "dok d" "buf \<noteq> []" "off + length buf \<le> length (img d)"
  obtains d' where "writeAt D off buf d = (Inr (), d')" "dok d'" "img d' = go_copy (img d) off buf"
proof (cases "off mod 512 = 0 \<and> length buf mod 512 = 0")
  case True
  then have "512 dvd length buf" "512 dvd off" by (simp_all add: dvd_eq_mod_eq_0)
  then obtain k s where ks: "length buf = 512 * k" "off = 512 * s" by (auto elim!: dvdE)
  with assms(2) have k: "0 < k" by (cases k) auto
  have "s * 512 + length buf \<le> length (img d)" using assms(3) ks by simp
  from write_sectors [OF assms(1) ks(1) k this] obtain d' where
    "dWrite D d (of_nat s) buf = (Inr (), d')" "dok d'" "img d' = go_copy (img d) (s * 512) buf" .
  with that True ks show ?thesis by (simp add: writeAt_def mult.commute)
next
  case False
  with writeAt_loop_img [OF assms(1) _ assms(3), of "replicate 512 0" 0] that show ?thesis
    by (auto simp: writeAt_def)
qed

lemma readBytes_loop_img:
  assumes "dok d" "length sec = 512" "off + n \<le> length (img d)" "length out \<le> n"
    "out = window off (length out) (img d)"
  shows "\<exists>d'. readBytes_loop D off n 512 sec out d = (Some (window off n (img d)), d') \<and>
     dok d' \<and> img d' = img d"
  using assms
proof (induction "n - length out" arbitrary: out d sec rule: less_induct)
  case less
  show ?case
  proof (cases "length out < n")
    case False
    with less.prems show ?thesis by (subst readBytes_loop.simps) auto
  next
    case True
    define si where "si = off + length out"
    define within where "within = si mod 512"
    define tk where "tk = min (512 - within) (n - length out)"
    have tk: "0 < tk" "within + tk \<le> 512" "length out + tk \<le> n"
      using True by (auto simp: tk_def within_def min_def)
    have s: "si div 512 * 512 + 512 \<le> length (img d)"
      using sector_in_range [OF whole [OF less.prems(1)], of si] less.prems(3) True
      by (simp add: si_def)
    define sec' where "sec' = window (si div 512 * 512) 512 (img d)"
    obtain d1 where d1: "dRead D d (of_nat (si div 512)) sec = (Inr sec', d1)" "dok d1" "img d1 = img d"
      using read_sector [OF less.prems(1,2) s] by (auto simp: sec'_def)
    have l': "length sec' = 512" using s by (simp add: sec'_def)
    have "window within tk sec' = window si tk (img d)"
      using tk(2) by (simp add: sec'_def window_def drop_take within_def min_def add.commute)
    then have out': "out @ window within tk sec' = window off (length out + tk) (img d)"
      using less.prems(5) by (simp add: window_append_split si_def)
    let ?out = "out @ window within tk sec'"
    have lo: "length ?out = length out + tk" using l' tk by simp
    have "readBytes_loop D off n 512 sec out d = readBytes_loop D off n 512 sec' ?out d1"
      using True less.prems(2) l' by (subst readBytes_loop.simps)
        (simp add: si_def [symmetric] within_def [symmetric] tk_def [symmetric] d1)
    moreover have "n - length ?out < n - length out" using lo tk True by simp
    ultimately show ?thesis
      using less.hyps [of ?out d1 sec'] less.prems(3) d1 l' lo tk(3) out' by simp
  qed
qed

lemma readBytes_img:
  assumes "dok d" "off + n \<le> length (img d)"
  obtains d' where "readBytes D off n 512 d = (Some (window off n (img d)), d')"
    "dok d'" "img d' = img d"
  using readBytes_loop_img [OF assms(1) _ assms(2), of "replicate 512 0" "[]"] that
  by (auto simp: readBytes_def)

end

section \<open>The log as a sequence of records\<close>

text \<open>
  The specification of a log reader on a flat image: the records that can be decoded one
  after the other from a byte position on, up to the first that does not decode or whose
  header does not end by \<^term>\<open>h\<close>.
\<close>

function log_scan :: "nat \<Rightarrow> bytes \<Rightarrow> nat \<Rightarrow> Record list" where
  "log_scan h I pos =
     (if pos + HdrLen \<le> h
      then let plen = unat (Get32 (drop pos I))
           in if plen > MaxPayload \<or> pos + HdrLen + plen > length I then []
              else case DecodeRecord (window pos HdrLen I) (window (pos + HdrLen) plen I) of
                None \<Rightarrow> []
              | Some r \<Rightarrow> r # log_scan h I (pos + (HdrLen + plen))
      else [])"
  by pat_completeness auto
termination
  by (relation "measure (\<lambda>(h, I, pos). h - pos)") auto

declare log_scan.simps [simp del]

definition frame :: "Record \<Rightarrow> bytes" where
  "frame r = EncodeRecord (Type r) (Payload r)"

definition frames :: "Record list \<Rightarrow> bytes" where
  "frames rs = concat (map frame rs)"

definition rec_ok :: "Record \<Rightarrow> bool" where
  "rec_ok r \<longleftrightarrow> length (Payload r) \<le> MaxPayload"

text \<open>\<^term>\<open>holds_log I rs w\<close>: the image carries exactly the records \<^term>\<open>rs\<close> up to the cursor.\<close>

definition holds_log :: "bytes \<Rightarrow> Record list \<Rightarrow> nat \<Rightarrow> bool" where
  "holds_log I rs w \<longleftrightarrow> w = LogStart + length (frames rs) \<and> w \<le> length I \<and>
     window LogStart (length (frames rs)) I = frames rs \<and> list_all rec_ok rs"

lemma frames_simps [simp]:
  "frames [] = []" "frames (r # rs) = frame r @ frames rs" "frames (rs @ ts) = frames rs @ frames ts"
  by (simp_all add: frames_def)

lemma length_frame [simp]: "length (frame r) = HdrLen + length (Payload r)"
  by (simp add: frame_def)

lemma frame_layout:
  "frame r = (le32 (of_nat (length (Payload r))) @ le32 (ChecksumIEEE (Payload r)) @ [Type r]) @ Payload r"
  by (simp add: frame_def EncodeRecord_layout)

lemma unat_u32_of_nat: "n \<le> MaxPayload \<Longrightarrow> unat (of_nat n :: u32) = n"
  by (simp add: unat_of_nat take_bit_eq_mod)

lemma DecodeRecord_frame:
  assumes "rec_ok r"
  shows "DecodeRecord (le32 (of_nat (length (Payload r))) @ le32 (ChecksumIEEE (Payload r)) @ [Type r])
           (Payload r) = Some r"
  using assms by (simp add: DecodeRecord_def rec_ok_def unat_u32_of_nat nth_append)

text \<open>One framed record at a position is read back and the scan goes on behind it.\<close>

lemma log_scan_frame:
  assumes "rec_ok r" "drop pos I = frame r @ rest" "pos + HdrLen \<le> h"
  shows "log_scan h I pos = r # log_scan h I (pos + length (frame r))"
proof -
  have "length I - pos = length (frame r @ rest)" by (simp flip: assms(2))
  then have len: "pos + length (frame r) \<le> length I" by simp
  let ?h = "le32 (of_nat (length (Payload r))) @ le32 (ChecksumIEEE (Payload r)) @ [Type r]"
  have d: "drop pos I = ?h @ Payload r @ rest" by (simp add: assms(2) frame_layout)
  then have "drop (HdrLen + pos) I = Payload r @ rest" by (simp flip: drop_drop)
  then have w: "window pos HdrLen I = ?h"
    "window (pos + HdrLen) (length (Payload r)) I = Payload r"
    using d by (simp_all add: window_def add.commute)
  have "unat (Get32 (drop pos I)) = length (Payload r)"
    using assms(1) by (simp add: d unat_u32_of_nat rec_ok_def)
  then show ?thesis
    using len assms(1,3) by (subst log_scan.simps) (simp add: w DecodeRecord_frame rec_ok_def)
qed

text \<open>
  A reader that stops one byte before the end of the image (the guest's, whose
  \<^verbatim>\<open>readAt\<close> refuses an offset at the end) sees every record that has a payload.
\<close>

lemma log_scan_frames:
  assumes "list_all rec_ok rs" "drop pos I = frames rs @ rest"
    "h = length I \<or> length I \<le> h + 1 \<and> list_all (\<lambda>r. Payload r \<noteq> []) rs"
  shows "log_scan h I pos = rs @ log_scan h I (pos + length (frames rs))"
  using assms
proof (induction rs arbitrary: pos)
  case (Cons r rs)
  have "length I - pos = length (frame r @ frames rs @ rest)" using Cons.prems(2) by (simp flip: length_drop)
  then have "pos + HdrLen \<le> h" using Cons.prems(3) by (cases "Payload r") auto
  then have "log_scan h I pos = r # log_scan h I (pos + length (frame r))"
    using Cons.prems by (intro log_scan_frame) auto
  moreover have "drop (length (frame r)) (drop pos I) = frames rs @ rest"
    by (simp add: Cons.prems(2))
  then have "drop (pos + length (frame r)) I = frames rs @ rest"
    by (simp add: add.commute)
  then have "log_scan h I (pos + length (frame r)) =
      rs @ log_scan h I (pos + length (frame r) + length (frames rs))"
    using Cons.prems by (intro Cons.IH) auto
  ultimately show ?case by (simp add: add.assoc)
qed simp

lemma holds_log_drop:
  assumes "holds_log I rs w"
  shows "drop LogStart I = frames rs @ drop w I"
proof -
  have "drop LogStart I = take (length (frames rs)) (drop LogStart I) @ drop (length (frames rs)) (drop LogStart I)"
    by (simp only: append_take_drop_id)
  then show ?thesis using assms by (simp add: holds_log_def window_def add.commute)
qed

lemma holds_log_scan:
  assumes "holds_log I rs w" "h = length I \<or> length I \<le> h + 1 \<and> list_all (\<lambda>r. Payload r \<noteq> []) rs"
  shows "log_scan h I LogStart = rs @ log_scan h I w"
  using log_scan_frames [OF _ holds_log_drop [OF assms(1)] assms(2)] assms(1)
  by (auto simp: holds_log_def)

text \<open>Writing frames at the cursor extends the log and nothing else.\<close>

lemma holds_log_extend:
  assumes "holds_log I rs w" "w + length (frames ts) \<le> length I" "list_all rec_ok ts"
  shows "holds_log (go_copy I w (frames ts)) (rs @ ts) (w + length (frames ts))"
proof -
  let ?n = "length (frames rs)"
  have w: "w = LogStart + ?n" using assms(1) by (simp add: holds_log_def)
  have "window LogStart ?n (go_copy I w (frames ts)) = window LogStart ?n I"
    using assms(2) w by (simp add: window_def go_copy_exact drop_take)
  moreover have "window w (length (frames ts)) (go_copy I w (frames ts)) = frames ts"
    using assms(2) by (simp add: window_def window_go_copy)
  ultimately show ?thesis
    using assms w by (simp add: holds_log_def window_append_split)
qed

text \<open>
  Nine zero bytes decode as a record of type 0 with an empty payload (the CRC-32 of the
  empty string is 0), so a reader that does not look at the type never stops in zeroed space.
\<close>

definition zero_rec :: Record where
  "zero_rec = \<lparr>Type = 0, Payload = []\<rparr>"

lemma frame_zero_rec: "frame zero_rec = replicate 9 0"
  by (simp add: frame_layout zero_rec_def le32_def eval_nat_numeral)

lemma log_scan_zeros:
  assumes "drop w I = replicate n 0"
  shows "log_scan (length I) I w = replicate (n div 9) zero_rec"
  using assms
proof (induction n arbitrary: w rule: less_induct)
  case (less n)
  have len: "length I - w = n" using arg_cong [OF less.prems, of length] by simp
  show ?case
  proof (cases "9 \<le> n")
    case True
    then have z: "drop w I = frame zero_rec @ replicate (n - 9) 0"
      using less.prems by (simp add: frame_zero_rec flip: replicate_add)
    have "log_scan (length I) I w = zero_rec # log_scan (length I) I (w + 9)"
      using log_scan_frame [OF _ z] True len by (simp add: rec_ok_def zero_rec_def)
    moreover have "drop (w + 9) I = replicate (n - 9) 0"
      using less.prems by (metis add.commute drop_drop drop_replicate)
    moreover have "n div 9 = Suc ((n - 9) div 9)" using True by (simp add: le_div_geq)
    ultimately show ?thesis using less.IH [of "n - 9" "w + 9"] True by simp
  next
    case False
    with len show ?thesis by (subst log_scan.simps) auto
  qed
qed

section \<open>The formatter on the flat image\<close>

text \<open>What one successful \<^verbatim>\<open>Append\<close> adds: the record, and every 64th time a checkpoint.\<close>

definition appended :: "byte \<Rightarrow> bytes \<Rightarrow> nat \<Rightarrow> u32 \<Rightarrow> Record list" where
  "appended typ payload recs nextIno =
     \<lparr>Type = typ, Payload = payload\<rparr> #
     (if typ \<noteq> RecCheckpoint \<and> (recs + 1) mod CPEvery = 0
      then [\<lparr>Type = RecCheckpoint, Payload = CheckpointPayload nextIno\<rparr>] else [])"

context block_device
begin

definition fok :: "'d Formatter \<Rightarrow> bool" where
  "fok f \<longleftrightarrow> dok (f_dev f) \<and> f_logEnd f = length (img (f_dev f))"

lemma Append_once:
  assumes "fok f" "f_wOff f + length (EncodeRecord typ payload) \<le> f_logEnd f"
  obtains d' where
    "Append D typ payload f =
      (let f = f\<lparr>f_dev := d', f_wOff := f_wOff f + length (EncodeRecord typ payload)\<rparr>
       in if typ \<noteq> RecCheckpoint
          then let f = f\<lparr>f_recs := f_recs f + 1\<rparr>
               in if f_recs f mod CPEvery = 0
                  then Append D RecCheckpoint (CheckpointPayload (f_nextIno f)) f
                  else (Inr (), f)
          else (Inr (), f))"
    "dok d'" "img d' = go_copy (img (f_dev f)) (f_wOff f) (EncodeRecord typ payload)"
proof -
  have "EncodeRecord typ payload \<noteq> []" by (simp add: EncodeRecord_layout le32_def)
  then obtain d' where d': "writeAt D (f_wOff f) (EncodeRecord typ payload) (f_dev f) = (Inr (), d')"
    "dok d'" "img d' = go_copy (img (f_dev f)) (f_wOff f) (EncodeRecord typ payload)"
    using writeAt_img [of "f_dev f" "EncodeRecord typ payload" "f_wOff f"] assms
    by (auto simp: fok_def)
  show ?thesis
    by (rule that [OF _ d'(2,3)]) (use assms(2) d'(1) in \<open>subst Append.simps, simp add: Let_def\<close>)
qed

lemma Append_full:
  "f_wOff f + length (EncodeRecord typ payload) > f_logEnd f \<Longrightarrow>
   Append D typ payload f = (Inl KfsErrNoSpace, f)"
  by (subst Append.simps) simp

lemma Append_checkpoint:
  assumes "fok f" "f_wOff f + length (EncodeRecord RecCheckpoint payload) \<le> f_logEnd f"
  obtains d' where
    "Append D RecCheckpoint payload f =
       (Inr (), f\<lparr>f_dev := d', f_wOff := f_wOff f + length (EncodeRecord RecCheckpoint payload)\<rparr>)"
    "dok d'" "img d' = go_copy (img (f_dev f)) (f_wOff f) (EncodeRecord RecCheckpoint payload)"
  using Append_once [OF assms] by (auto simp: Let_def)

lemma Append_img:
  assumes "fok f"
    and fits: "f_wOff f + length (frames (appended typ payload (f_recs f) (f_nextIno f))) \<le> f_logEnd f"
  obtains d' where
    "Append D typ payload f = (Inr (),
       f\<lparr>f_dev := d', f_wOff := f_wOff f + length (frames (appended typ payload (f_recs f) (f_nextIno f))),
         f_recs := f_recs f + (if typ = RecCheckpoint then 0 else 1)\<rparr>)"
    "dok d'"
    "img d' = go_copy (img (f_dev f)) (f_wOff f) (frames (appended typ payload (f_recs f) (f_nextIno f)))"
proof -
  let ?e = "EncodeRecord typ payload"
  let ?c = "EncodeRecord RecCheckpoint (CheckpointPayload (f_nextIno f))"
  have "f_wOff f + length ?e \<le> f_logEnd f"
    using fits by (auto simp: appended_def split: if_splits)
  from Append_once [OF assms(1) this] obtain d1 where d1:
    "Append D typ payload f =
      (let f = f\<lparr>f_dev := d1, f_wOff := f_wOff f + length ?e\<rparr>
       in if typ \<noteq> RecCheckpoint
          then let f = f\<lparr>f_recs := f_recs f + 1\<rparr>
               in if f_recs f mod CPEvery = 0
                  then Append D RecCheckpoint (CheckpointPayload (f_nextIno f)) f
                  else (Inr (), f)
          else (Inr (), f))"
    "dok d1" "img d1 = go_copy (img (f_dev f)) (f_wOff f) ?e" .
  show ?thesis
  proof (cases "typ \<noteq> RecCheckpoint \<and> (f_recs f + 1) mod CPEvery = 0")
    case False
    with that [of d1] d1 show ?thesis
      by (auto simp: appended_def Let_def frame_def split: if_splits)
  next
    case True
    let ?f = "f\<lparr>f_dev := d1, f_wOff := f_wOff f + length ?e, f_recs := f_recs f + 1\<rparr>"
    have ap: "frames (appended typ payload (f_recs f) (f_nextIno f)) = ?e @ ?c"
      using True by (simp add: appended_def frame_def)
    have fits': "f_wOff f + length ?e + length ?c \<le> length (img (f_dev f))"
      using fits assms(1) by (simp add: ap fok_def)
    have "fok ?f" "f_wOff ?f + length ?c \<le> f_logEnd ?f"
      using assms(1) d1 fits' by (simp_all add: fok_def)
    from Append_checkpoint [OF this] obtain d2 where d2:
      "Append D RecCheckpoint (CheckpointPayload (f_nextIno f)) ?f =
         (Inr (), ?f\<lparr>f_dev := d2, f_wOff := f_wOff ?f + length ?c\<rparr>)"
      "dok d2" "img d2 = go_copy (img d1) (f_wOff f + length ?e) ?c"
      by (auto simp del: length_EncodeRecord)
    have "Append D typ payload f = Append D RecCheckpoint (CheckpointPayload (f_nextIno f)) ?f"
      using True d1(1) by (simp add: Let_def)
    moreover have "img d2 = go_copy (img (f_dev f)) (f_wOff f) (?e @ ?c)"
      using go_copy_append [OF fits'] by (simp add: d2(3) d1(3))
    ultimately show ?thesis
      using that [of d2] True d2(1,2) by (simp add: ap add.assoc)
  qed
qed

lemma Append_fits:
  assumes "fok f" "Append D t p f = (Inr (), f')"
  shows "f_wOff f + length (frames (appended t p (f_recs f) (f_nextIno f))) \<le> f_logEnd f"
proof -
  have 1: "f_wOff f + length (EncodeRecord t p) \<le> f_logEnd f"
    using Append_full [of f t p] assms(2) by fastforce
  show ?thesis
  proof (cases "t \<noteq> RecCheckpoint \<and> (f_recs f + 1) mod CPEvery = 0")
    case False
    with 1 show ?thesis by (auto simp: appended_def)
  next
    case True
    from Append_once [OF assms(1) 1] obtain d where
      "Append D t p f = Append D RecCheckpoint (CheckpointPayload (f_nextIno f))
         (f\<lparr>f_dev := d, f_wOff := f_wOff f + length (EncodeRecord t p), f_recs := f_recs f + 1\<rparr>)"
      using True by (auto simp: Let_def)
    with assms(2) Append_full [of
        "f\<lparr>f_dev := d, f_wOff := f_wOff f + length (EncodeRecord t p), f_recs := f_recs f + 1\<rparr>"
        RecCheckpoint "CheckpointPayload (f_nextIno f)"]
    show ?thesis using True by (fastforce simp: appended_def)
  qed
qed

text \<open>The log invariant is kept, and extended by exactly what was appended.\<close>

lemma Append_holds_log:
  assumes "fok f" "holds_log (img (f_dev f)) rs (f_wOff f)" "length payload \<le> MaxPayload"
    and "f_wOff f + length (frames (appended typ payload (f_recs f) (f_nextIno f))) \<le> f_logEnd f"
  obtains f' where "Append D typ payload f = (Inr (), f')" "fok f'"
    "holds_log (img (f_dev f')) (rs @ appended typ payload (f_recs f) (f_nextIno f)) (f_wOff f')"
    "f_nextIno f' = f_nextIno f" "f_logEnd f' = f_logEnd f"
proof -
  let ?a = "appended typ payload (f_recs f) (f_nextIno f)"
  have ok: "list_all rec_ok ?a"
    using assms(3) by (simp add: appended_def rec_ok_def CheckpointPayload_layout)
  from Append_img [OF assms(1,4)] obtain d' where d':
    "Append D typ payload f = (Inr (),
       f\<lparr>f_dev := d', f_wOff := f_wOff f + length (frames ?a),
         f_recs := f_recs f + (if typ = RecCheckpoint then 0 else 1)\<rparr>)" (is "_ = (_, ?f')")
    "dok d'" "img d' = go_copy (img (f_dev f)) (f_wOff f) (frames ?a)" .
  have "fok ?f'" using assms(1,2) d' by (simp add: fok_def holds_log_def)
  moreover have "holds_log (img (f_dev ?f')) (rs @ ?a) (f_wOff ?f')"
    using holds_log_extend [OF assms(2) _ ok] assms(1,4) d'(3) by (simp add: fok_def)
  ultimately show ?thesis using that [of ?f'] d'(1) by simp
qed

end

section \<open>Replay is the log scan\<close>

text \<open>
  \<^verbatim>\<open>Replay\<close> also issues reads shorter than a sector, which not every transport
  accepts (the guest's block import refuses them): its contract asks for one law more.
\<close>

locale ragged_device = block_device +
  assumes read_short: "dok d \<Longrightarrow> length buf \<le> 512 \<Longrightarrow> unat lba * 512 + 512 \<le> length (img d) \<Longrightarrow>
      \<exists>d'. dRead D d lba buf = (Inr (window (unat lba * 512) (length buf) (img d)), d') \<and>
           dok d' \<and> img d' = img d"
begin

lemma Replay_loop_img:
  assumes "dok d" "length hdr = HdrLen"
  shows "\<exists>d'. Replay_loop D 512 (length (img d)) hdr recs pos d = (recs @ log_scan (length (img d)) (img d) pos, d') \<and>
     dok d' \<and> img d' = img d"
  using assms
proof (induction "length (img d) - pos" arbitrary: pos d hdr recs rule: less_induct)
  case less
  let ?I = "img d"
  show ?case
  proof (cases "pos + HdrLen \<le> length ?I")
    case False
    with less.prems show ?thesis by (subst Replay_loop.simps, subst log_scan.simps) simp
  next
    case True
    have s: "pos div 512 * 512 + 512 \<le> length ?I"
      using sector_in_range [OF whole [OF less.prems(1)], of pos] True by simp
    then have "unat (of_nat (pos div 512) :: u64) * 512 + 512 \<le> length ?I"
      using sector_of_nat [OF less.prems(1), of "pos div 512"] by simp
    then obtain r d1 where d1: "dRead D d (of_nat (pos div 512)) hdr = (Inr r, d1)"
        "dok d1" "img d1 = ?I"
      using read_short [OF less.prems(1), of hdr "of_nat (pos div 512)"] less.prems(2) by auto
    obtain d2 where d2: "readBytes D pos HdrLen 512 d1 = (Some (window pos HdrLen ?I), d2)"
        "dok d2" "img d2 = ?I"
      using readBytes_img [OF d1(2), of pos HdrLen] True d1(3) by auto
    define plen where "plen = unat (Get32 (drop pos ?I))"
    have h: "unat (Get32 (window pos HdrLen ?I)) = plen"
      by (simp add: plen_def window_def Get32_take)
    show ?thesis
    proof (cases "plen > MaxPayload \<or> pos + HdrLen + plen > length ?I")
      case bad: True
      with True less.prems h d1 d2 show ?thesis
        by (subst Replay_loop.simps, subst log_scan.simps) (auto simp: plen_def)
    next
      case False
      then obtain d3 where d3: "readBytes D (pos + HdrLen) plen 512 d2 =
          (Some (window (pos + HdrLen) plen ?I), d3)" "dok d3" "img d3 = ?I"
        using readBytes_img [OF d2(2), of "pos + HdrLen" plen] d2(3) by auto
      let ?dec = "DecodeRecord (window pos HdrLen ?I) (window (pos + HdrLen) plen ?I)"
      have step: "Replay_loop D 512 (length ?I) hdr recs pos d = (case ?dec of
          None \<Rightarrow> (recs, d3)
        | Some r \<Rightarrow> Replay_loop D 512 (length ?I) (window pos HdrLen ?I) (recs @ [r])
                     (pos + (HdrLen + plen)) d3)"
        using True False by (subst Replay_loop.simps) (simp add: d1 d2 d3 h)
      have scan: "log_scan (length ?I) ?I pos = (case ?dec of None \<Rightarrow> []
          | Some r \<Rightarrow> r # log_scan (length ?I) ?I (pos + (HdrLen + plen)))"
        using True False by (subst log_scan.simps) (simp add: Let_def plen_def [symmetric])
      show ?thesis
      proof (cases ?dec)
        case None
        with step scan d3 show ?thesis by auto
      next
        case (Some r)
        have "length ?I - (pos + (HdrLen + plen)) < length ?I - pos" using True by simp
        then have "\<exists>d'. Replay_loop D 512 (length ?I) (window pos HdrLen ?I) (recs @ [r])
             (pos + (HdrLen + plen)) d3 = ((recs @ [r]) @ log_scan (length ?I) ?I (pos + (HdrLen + plen)), d') \<and>
           dok d' \<and> img d' = ?I"
          using less.hyps [of d3 "pos + (HdrLen + plen)" "window pos HdrLen ?I" "recs @ [r]"] True d3
          by simp
        with Some step scan show ?thesis by simp
      qed
    qed
  qed
qed

lemma Replay_img:
  assumes "dok d" "512 \<le> length (img d)"
  obtains d' where "Replay D d =
      (if ParseSuperblock (window 0 512 (img d)) = None then None
       else Some (log_scan (length (img d)) (img d) LogStart), d')" "dok d'" "img d' = img d"
proof -
  have l: "length (replicate (unat (512 :: u32)) (0 :: byte)) = 512" by simp
  from read_sector [OF assms(1) l, of 0] assms(2) obtain d1 where
    d1: "dRead D d 0 (replicate (unat (512 :: u32)) 0) = (Inr (window 0 512 (img d)), d1)"
    "dok d1" "img d1 = img d" by auto
  show ?thesis
  proof (cases "ParseSuperblock (window 0 512 (img d))")
    case None
    with that [of d1] d1 show ?thesis by (simp add: Replay_def geometry [OF assms(1)])
  next
    case (Some sb)
    then have ls: "LogSector sb = LogStartSector"
      by (auto simp: ParseSuperblock_def Let_def split: if_splits)
    from Replay_loop_img [OF d1(2), of "replicate HdrLen 0" "[]" LogStart] obtain d2 where
      d2: "Replay_loop D 512 (length (img d1)) (replicate HdrLen 0) [] LogStart d1 =
        (log_scan (length (img d1)) (img d1) LogStart, d2)" "dok d2" "img d2 = img d1"
      by auto
    have "Replay D d = (Some (log_scan (length (img d)) (img d) LogStart), d2)"
      using d1 d2 Some ls unat_blocks [OF assms(1)] by (simp add: Replay_def geometry [OF assms(1)])
    with Some that [of d2] d1 d2 show ?thesis by simp
  qed
qed

end

interpretation mem: ragged_device mem_dev mem_inv mem_buf
proof
  fix d :: memDevice and buf :: bytes and lba :: u64
  assume h: "mem_inv d" "length buf \<le> 512" "unat lba * 512 + 512 \<le> length (mem_buf d)"
  have lt: "\<not> mem_n d \<le> lba" using mem_lba_less [of d lba "replicate 512 0"] h by simp
  have "go_copy buf 0 (drop (unat lba * 512) (mem_buf d)) = window (unat lba * 512) (length buf) (mem_buf d)"
    using h by (simp add: go_copy_def window_def)
  with h lt show "\<exists>d'. dRead mem_dev d lba buf =
      (Inr (window (unat lba * 512) (length buf) (mem_buf d)), d') \<and> mem_inv d' \<and> mem_buf d' = mem_buf d"
    by (simp add: mem_dev_def mem_Read_def mem_inv_def)
qed

section \<open>Formatting\<close>

definition fresh_log :: "Record list" where
  "fresh_log = [\<lparr>Type = RecInode, Payload = InodePayload RootIno 0 KindDir 0\<rparr>,
                \<lparr>Type = RecCheckpoint, Payload = CheckpointPayload (RootIno + 1)\<rparr>]"

lemma length_fresh_log [simp]: "length (frames fresh_log) = 35"
  by (simp add: fresh_log_def InodePayload_layout CheckpointPayload_layout)

context block_device
begin

lemma NewFormatter_img:
  assumes "dok d" "0 < length (img d)"
  shows "NewFormatter D d = Inr \<lparr>f_dev = d, f_logEnd = length (img d), f_wOff = LogStart,
     f_recs = 0, f_nextIno = 2\<rparr>"
proof -
  have "of_nat (length (img d) div 512) \<noteq> (0 :: u64)"
    using unat_blocks [OF assms(1)] assms(2) by (metis mult_zero_left nat_neq_iff unsigned_0)
  then show ?thesis
    using unat_blocks [OF assms(1)] by (simp add: NewFormatter_def geometry [OF assms(1)])
qed

lemma Format_img:
  assumes "dok d" "16 * 512 \<le> length (img d)"
  defines "sb \<equiv> \<lparr>BlockSize = 512, NumBlocks = of_nat (length (img d) div 512),
     LogSector = LogStartSector, Version = FormatVersion\<rparr>"
  obtains d' where "Format D d = (Inr (), d')" "dok d'"
    "img d' = EncodeSuperblock sb @ frames fresh_log @ drop (512 + 35) (img d)"
proof -
  let ?n = "of_nat (length (img d) div 512) :: u64"
  have "16 * 512 \<le> unat ?n * 512" using unat_blocks [OF assms(1)] assms(2) by simp
  then have n: "\<not> ?n < 16" by (simp add: word_less_nat_alt)
  obtain d1 where d1: "dWrite D d 0 (EncodeSuperblock sb) = (Inr (), d1)" "dok d1"
      "img d1 = go_copy (img d) 0 (EncodeSuperblock sb)"
    using write_sectors [OF assms(1), of "EncodeSuperblock sb" 1 0] assms(2) by auto
  then have i1: "img d1 = EncodeSuperblock sb @ drop 512 (img d)"
    using assms(2) by (simp add: go_copy_def)
  have l1: "length (img d1) = length (img d)" by (simp add: d1(3))
  let ?f = "\<lparr>f_dev = d1, f_logEnd = length (img d1), f_wOff = LogStart, f_recs = 0, f_nextIno = 2 :: u32\<rparr>"
  let ?ip = "InodePayload RootIno 0 KindDir 0"
  have ap: "frames (appended RecInode ?ip 0 2) = EncodeRecord RecInode ?ip"
    by (simp add: appended_def frame_def)
  have fk: "fok ?f" using d1 by (simp add: fok_def)
  have lip: "length ?ip = 13" by (simp add: InodePayload_layout)
  obtain d2 where d2: "Append D RecInode ?ip ?f =
      (Inr (), ?f\<lparr>f_dev := d2, f_wOff := LogStart + 22, f_recs := 1\<rparr>)" "dok d2"
      "img d2 = go_copy (img d1) LogStart (EncodeRecord RecInode ?ip)"
    using Append_img [OF fk, of RecInode ?ip] assms(2) d1 by (auto simp: ap lip)
  let ?g = "?f\<lparr>f_dev := d2, f_wOff := LogStart + 22, f_recs := 1\<rparr>"
  have gk: "fok ?g" using d1 d2 assms(2) by (simp add: fok_def lip)
  obtain d3 where d3: "AppendCheckpoint D ?g = (Inr (), ?g\<lparr>f_dev := d3, f_wOff := LogStart + 35\<rparr>)"
      "dok d3" "img d3 = go_copy (img d2) (LogStart + 22) (EncodeRecord RecCheckpoint (CheckpointPayload 2))"
    using Append_checkpoint [OF gk, of "CheckpointPayload 2"] assms(2) d1
    by (auto simp: AppendCheckpoint_def CheckpointPayload_layout)
  have fl: "frames fresh_log = EncodeRecord RecInode ?ip @ EncodeRecord RecCheckpoint (CheckpointPayload 2)"
    by (simp add: fresh_log_def frame_def)
  have "img d3 = go_copy (img d1) LogStart (frames fresh_log)"
    unfolding d3(3) d2(3) fl
    using go_copy_append [of LogStart "EncodeRecord RecInode ?ip"
        "EncodeRecord RecCheckpoint (CheckpointPayload 2)" "img d1"] assms(2) d1
    by (simp add: lip CheckpointPayload_layout)
  also have "\<dots> = EncodeSuperblock sb @ frames fresh_log @ drop (512 + 35) (img d)"
    using assms(2) by (simp add: i1 go_copy_def)
  finally have img3: "img d3 = EncodeSuperblock sb @ frames fresh_log @ drop (512 + 35) (img d)" .
  have "0 < length (img d1)" using l1 assms(2) by linarith
  then have "NewFormatter D d1 = Inr ?f" by (rule NewFormatter_img [OF d1(2)])
  then have "Format D d = (Inr (), d3)"
    using n d1(1) d2(1) d3(1) by (simp add: Format_def geometry [OF assms(1)] sb_def [symmetric])
  then show ?thesis using that d3(2) img3 by simp
qed

end

end
