(* ===== verification/Kfs_Properties.thy ===== *)
theory Kfs_Properties
  imports Kfs_Formatter
begin

text \<open>
  What the volume format, its host-side writer and reader, and volume discovery promise
  (\<^verbatim>\<open>kfs/format.go\<close>, \<^verbatim>\<open>kfs/formatter.go\<close>): round trips of every
  encoder, what a corrupted frame cannot pass as, the byte-accurate writer on a sector device,
  and that the log reader returns what the log writer appended.
\<close>

section \<open>The format\<close>

lemma EncodeRecord_split:
  "take HdrLen (EncodeRecord t p) = le32 (of_nat (length p)) @ le32 (ChecksumIEEE p) @ [t]"
  "drop HdrLen (EncodeRecord t p) = p"
  by (simp_all add: EncodeRecord_layout)

text \<open>
  Record frames round-trip.  The nine header bytes and the payload that
  \<^verbatim>\<open>EncodeRecord\<close> produces decode to the same type and payload when the payload
  has at most 64 KiB; a longer one (below 4 GiB) is refused.
\<close>

theorem DecodeRecord_EncodeRecord:
  assumes "length p < 2 ^ 32"
  shows "DecodeRecord (take HdrLen (EncodeRecord t p)) (drop HdrLen (EncodeRecord t p)) =
     (if length p \<le> MaxPayload then Some \<lparr>Type = t, Payload = p\<rparr> else None)"
proof (cases "length p \<le> MaxPayload")
  case True
  then show ?thesis
    using DecodeRecord_frame [of "\<lparr>Type = t, Payload = p\<rparr>"]
    by (simp add: EncodeRecord_split rec_ok_def)
next
  case False
  have "unat (of_nat (length p) :: u32) = length p"
    using assms by (simp add: unat_of_nat take_bit_nat_eq_self)
  with False show ?thesis by (simp add: EncodeRecord_split DecodeRecord_def)
qed

theorem DecodeRecord_EncodeRecord_witness:
  "DecodeRecord (take HdrLen (EncodeRecord RecData [1, 2, 3])) (drop HdrLen (EncodeRecord RecData [1, 2, 3])) =
     Some \<lparr>Type = RecData, Payload = [1, 2, 3]\<rparr>"
  using DecodeRecord_EncodeRecord [of "[1, 2, 3]" RecData] by simp

lemma DecodeRecord_crc:
  assumes "ChecksumIEEE q' \<noteq> ChecksumIEEE q" "length q' = length q" "length q \<le> MaxPayload"
  shows "DecodeRecord (take HdrLen (EncodeRecord t q)) q' = None"
  using assms by (simp add: EncodeRecord_split DecodeRecord_def unat_u32_of_nat)

text \<open>
  Short burst corruption is always caught.  If at most four consecutive payload bytes of a
  stored record are changed, decoding the frame fails.
\<close>

theorem DecodeRecord_burst:
  assumes "length x = length y" "length x \<le> 4" "x \<noteq> y" "length (pre @ x @ post) \<le> MaxPayload"
  shows "DecodeRecord (take HdrLen (EncodeRecord t (pre @ x @ post))) (pre @ y @ post) = None"
  by (rule DecodeRecord_crc) (use ChecksumIEEE_burst [of y x pre post] assms in auto)

theorem DecodeRecord_burst_witness:
  "DecodeRecord (take HdrLen (EncodeRecord RecData ([1] @ [2, 3] @ [4]))) ([1] @ [9, 9] @ [4]) = None"
  using DecodeRecord_burst [of "[2, 3]" "[9, 9]" "[1]" "[4]" RecData] by simp

text \<open>
  Every record payload round-trips: inode, directory entry (creation with its inode
  number, deletion without), file data and checkpoint, for names below 64 KiB and data below
  4 GiB.
\<close>

theorem payload_roundtrips:
  assumes "length name < 2 ^ 16" "length data < 2 ^ 32"
  shows "DecodeInode (InodePayload ino uid kind sz) = Some (ino, uid, kind, sz) \<and>
    DecodeDirent (DirentPayload parent op name ino) =
      Some (parent, op, name, if op = DirentCreate then ino else 0) \<and>
    DecodeData (DataPayload ino off data) = Some (ino, off, data) \<and>
    DecodeCheckpoint (CheckpointPayload nextIno) = Some nextIno"
proof -
  have n: "unat (of_nat (length name) :: u16) = length name" "unat (of_nat (length data) :: u32) = length data"
    using assms by (simp_all add: unat_of_nat take_bit_nat_eq_self)
  have i: "DecodeInode (InodePayload ino uid kind sz) = Some (ino, uid, kind, sz)"
    by (simp add: DecodeInode_def InodePayload_layout nth_append)
  let ?d = "DirentPayload parent op name ino"
  have l: "LStr ?d 5 = Some (name, 7 + length name)"
    using n(1) by (simp add: LStr_def DirentPayload_layout window_def)
  have d: "drop (3 + length name) (c # le16 (of_nat (length name)) @ name @ x) = x" for x c
  proof -
    have "3 + length name = Suc (2 + length name)" by simp
    then show ?thesis by (simp only: drop_Suc_Cons) simp
  qed
  have "DecodeDirent ?d = Some (parent, op, name, if op = DirentCreate then ino else 0)"
    using l d by (simp add: DecodeDirent_def DirentPayload_layout nth_append)
  moreover have "DecodeData (DataPayload ino off data) = Some (ino, off, data)"
    using n(2) by (simp add: DecodeData_def DataPayload_layout window_def)
  ultimately show ?thesis using i by (simp add: DecodeCheckpoint_def CheckpointPayload_layout)
qed

theorem payload_roundtrips_witness:
  "DecodeDirent (DirentPayload 1 DirentDelete [0x61] 7) = Some (1, DirentDelete, [0x61], 0) \<and>
   DecodeData (DataPayload 2 512 [5, 6]) = Some (2, 512, [5, 6])"
  using payload_roundtrips [of "[0x61]" "[5, 6]" 7 0 KindFile 0 1 DirentDelete]
    payload_roundtrips [of "[0x61]" "[5, 6]" 2 0 KindFile 0 1 DirentDelete 512] by simp

text \<open>
  The superblock round-trips, and one whose log does not start at sector 1 is refused.
\<close>

theorem ParseSuperblock_EncodeSuperblock:
  "ParseSuperblock (EncodeSuperblock sb) = (if LogSector sb = LogStartSector then Some sb else None)"
  by (cases sb) (simp add: ParseSuperblock_def EncodeSuperblock_layout str_KFS1 window_def)

text \<open>
  The split between the boot and the data volume is a whole sector number that leaves at
  least half of the image, and at least one sector, on either side; images below two sectors
  are refused.
\<close>

theorem SplitSectors_bounds:
  "case SplitSectors b of
     Inl e \<Rightarrow> b < 1024
   | Inr s \<Rightarrow> 1 \<le> s \<and> s * 512 \<le> b div 2 \<and> b div 2 < (s + 1) * 512"
proof (cases "b < 1024")
  case False
  have "SplitSectors b = Inr (b div 2 div 512)"
    using False by (auto simp: SplitSectors_def Let_def minus_mod_eq_mult_div)
  moreover have "1 \<le> b div 2 div 512" using False by linarith
  ultimately show ?thesis by simp linarith
qed (simp add: SplitSectors_def)

section \<open>The log writer and reader\<close>

text \<open>
  Byte-accurate writes on a sector device.  On every block device, writing a byte string
  anywhere inside it succeeds and changes exactly those bytes of the image: the neighbours in a
  partly covered sector are kept.
\<close>

theorem writeAt_exact:
  assumes "block_device D dok img" "dok d" "off + length p \<le> length (img d)" "p \<noteq> []"
  shows "\<exists>d'. writeAt D off p d = (Inr (), d') \<and> dok d' \<and> img d' = go_copy (img d) off p"
  by (rule block_device.writeAt_img [OF assms(1,2), of p off]) (use assms(3,4) in auto)

theorem writeAt_exact_witness:
  "\<exists>d'. writeAt mem_dev 510 [1, 2, 3, 4] (newMem 512 4) = (Inr (), d') \<and>
     mem_buf d' = go_copy (replicate 2048 0) 510 [1, 2, 3, 4]"
proof -
  have "mem_inv (newMem 512 4)" by (rule mem_inv_newMem) simp
  moreover have "mem_buf (newMem 512 4) = replicate 2048 0" by (simp add: newMem_def)
  ultimately show ?thesis
    using writeAt_exact [OF mem.block_device_axioms, of "newMem 512 4" 510 "[1, 2, 3, 4]"] by auto
qed

text \<open>Appending a list of records, stopping at the first error; what the log then gains.\<close>

fun append_seq :: "'d Device \<Rightarrow> (byte \<times> bytes) list \<Rightarrow> 'd Formatter \<Rightarrow> (ferr + unit) \<times> 'd Formatter" where
  "append_seq D [] f = (Inr (), f)"
| "append_seq D ((t, p) # rs) f = sbind (Append D t p f) (\<lambda>_ f. append_seq D rs f)"

fun paced :: "(byte \<times> bytes) list \<Rightarrow> nat \<Rightarrow> u32 \<Rightarrow> Record list" where
  "paced [] recs nextIno = []"
| "paced ((t, p) # rs) recs nextIno =
     appended t p recs nextIno @ paced rs (recs + (if t = RecCheckpoint then 0 else 1)) nextIno"

context ragged_device
begin

lemma append_seq_log:
  assumes "append_seq D ops f = (Inr (), f')" "fok f" "holds_log (img (f_dev f)) rs (f_wOff f)"
    "\<forall>(t, p) \<in> set ops. length p \<le> MaxPayload"
  shows "fok f' \<and> holds_log (img (f_dev f')) (rs @ paced ops (f_recs f) (f_nextIno f)) (f_wOff f') \<and>
     take 512 (img (f_dev f')) = take 512 (img (f_dev f)) \<and> length (img (f_dev f')) = length (img (f_dev f))"
  using assms
proof (induction ops arbitrary: f rs)
  case (Cons x ops)
  obtain t p where x: "x = (t, p)" by (cases x)
  obtain f1 where f1: "Append D t p f = (Inr (), f1)" "append_seq D ops f1 = (Inr (), f')"
    using Cons.prems(1) x by (auto simp: sbind_eq_Inr)
  let ?a = "appended t p (f_recs f) (f_nextIno f)"
  have lp: "length p \<le> MaxPayload" "\<forall>(t, p) \<in> set ops. length p \<le> MaxPayload"
    using Cons.prems(4) x by auto
  note fits = Append_fits [OF Cons.prems(2) f1(1)]
  from Append_img [OF Cons.prems(2) fits] f1(1) obtain d1 where
    d1: "f1 = f\<lparr>f_dev := d1, f_wOff := f_wOff f + length (frames ?a),
         f_recs := f_recs f + (if t = RecCheckpoint then 0 else 1)\<rparr>" "dok d1"
      "img d1 = go_copy (img (f_dev f)) (f_wOff f) (frames ?a)" by auto
  have ok: "list_all rec_ok ?a" using lp(1) by (simp add: appended_def rec_ok_def CheckpointPayload_layout)
  have w: "512 \<le> f_wOff f" "f_wOff f + length (frames ?a) \<le> length (img (f_dev f))"
    using Cons.prems(2,3) fits by (auto simp: holds_log_def fok_def)
  have "fok f1" using Cons.prems(2) d1 w by (simp add: fok_def)
  moreover have "holds_log (img (f_dev f1)) (rs @ ?a) (f_wOff f1)"
    using holds_log_extend [OF Cons.prems(3) w(2) ok] d1 by simp
  moreover have "take 512 (img (f_dev f1)) = take 512 (img (f_dev f))"
      "length (img (f_dev f1)) = length (img (f_dev f))"
    using d1 w by (simp_all add: go_copy_def)
  ultimately show ?case using Cons.IH [OF f1(2) _ _ lp(2), of "rs @ ?a"] d1 x by simp
qed simp

lemma append_seq_Replay:
  assumes "dok d" "ParseSuperblock (window 0 512 (img d)) \<noteq> None" "512 \<le> length (img d)"
    "NewFormatter D d = Inr f" "append_seq D ops f = (Inr (), f')"
    "\<forall>(t, p) \<in> set ops. length p \<le> MaxPayload"
  shows "\<exists>rest d'. Replay D (f_dev f') = (Some (paced ops 0 (RootIno + 1) @ rest), d')"
proof -
  have l: "0 < length (img d)" using assms(3) by linarith
  have f: "f = \<lparr>f_dev = d, f_logEnd = length (img d), f_wOff = LogStart, f_recs = 0, f_nextIno = 2\<rparr>"
    using assms(4) NewFormatter_img [OF assms(1) l] by simp
  have "fok f" "holds_log (img (f_dev f)) [] (f_wOff f)"
    using assms(1,3) by (simp_all add: f fok_def holds_log_def window_def)
  from append_seq_log [OF assms(5) this assms(6)] have g:
    "fok f'" "holds_log (img (f_dev f')) (paced ops 0 2) (f_wOff f')"
    "take 512 (img (f_dev f')) = take 512 (img d)" "length (img (f_dev f')) = length (img d)"
    by (simp_all add: f)
  have p: "ParseSuperblock (window 0 512 (img (f_dev f'))) \<noteq> None"
    using assms(2) g(3) by (simp add: window_def)
  have k: "dok (f_dev f')" "512 \<le> length (img (f_dev f'))"
    using g(1,4) assms(3) by (simp_all add: fok_def)
  obtain d' where "Replay D (f_dev f') =
      (if ParseSuperblock (window 0 512 (img (f_dev f'))) = None then None
       else Some (log_scan (length (img (f_dev f'))) (img (f_dev f')) LogStart), d')"
    by (rule Replay_img [OF k])
  then show ?thesis using p holds_log_scan [OF g(2), of "length (img (f_dev f'))"] by simp
qed

end

text \<open>
  The log reader returns what the log writer appended.  On every device, when a list of
  records is appended to a volume by a new formatter, reading the log back gives exactly those
  records in order, with the paced checkpoints after every 64th, before anything else that the
  rest of the device holds.
\<close>

theorem Replay_append_seq:
  assumes "ragged_device D dok img" "dok d" "ParseSuperblock (window 0 512 (img d)) \<noteq> None"
    and "512 \<le> length (img d)" "NewFormatter D d = Inr f" "append_seq D ops f = (Inr (), f')"
    and "\<forall>(t, p) \<in> set ops. length p \<le> MaxPayload"
  shows "\<exists>rest d'. Replay D (f_dev f') = (Some (paced ops 0 (RootIno + 1) @ rest), d')"
  by (rule ragged_device.append_seq_Replay [OF assms])

lemma Format_mem:
  obtains d where "Format mem_dev (newMem 512 16) = (Inr (), d)" "mem_inv d"
    "mem_buf d = EncodeSuperblock \<lparr>BlockSize = 512, NumBlocks = 16, LogSector = LogStartSector, Version = FormatVersion\<rparr> @
       frames fresh_log @ replicate 7645 0"
proof -
  have l: "mem_buf (newMem 512 16) = replicate 8192 0" by (simp add: newMem_def)
  have i: "mem_inv (newMem 512 16)" by (rule mem_inv_newMem) simp
  obtain d where "Format mem_dev (newMem 512 16) = (Inr (), d)" "mem_inv d"
    "mem_buf d = EncodeSuperblock \<lparr>BlockSize = 512, NumBlocks = of_nat (length (mem_buf (newMem 512 16)) div 512),
         LogSector = LogStartSector, Version = FormatVersion\<rparr> @ frames fresh_log @ drop (512 + 35) (mem_buf (newMem 512 16))"
    by (rule mem.Format_img [OF i]) (simp_all add: l)
  then show ?thesis by (intro that) (simp_all add: l)
qed

theorem Replay_append_seq_witness:
  "\<exists>d f f' rest d'. NewFormatter mem_dev d = Inr f \<and>
     append_seq mem_dev [(RecData, [1, 2]), (RecInode, [3])] f = (Inr (), f') \<and>
     Replay mem_dev (f_dev f') = (Some ([\<lparr>Type = RecData, Payload = [1, 2]\<rparr>, \<lparr>Type = RecInode, Payload = [3]\<rparr>] @ rest), d')"
proof -
  let ?ops = "[(RecData, [1, 2]), (RecInode, [3])] :: (byte \<times> bytes) list"
  obtain d where d: "mem_inv d"
    "mem_buf d = EncodeSuperblock \<lparr>BlockSize = 512, NumBlocks = 16, LogSector = LogStartSector, Version = FormatVersion\<rparr> @
       frames fresh_log @ replicate 7645 0" by (rule Format_mem)
  have l: "length (mem_buf d) = 8192" using length_fresh_log by (simp add: d(2))
  let ?f = "\<lparr>f_dev = d, f_logEnd = length (mem_buf d), f_wOff = LogStart, f_recs = 0, f_nextIno = 2 :: u32\<rparr>"
  have nf: "NewFormatter mem_dev d = Inr ?f" by (rule mem.NewFormatter_img [OF d(1)]) (simp add: l)
  have "ParseSuperblock (window 0 512 (mem_buf d)) \<noteq> None"
    by (simp add: d(2) window_def ParseSuperblock_def EncodeSuperblock_layout str_KFS1)
  moreover obtain f' where f': "append_seq mem_dev ?ops ?f = (Inr (), f')"
  proof -
    have g: "mem.fok ?f" "holds_log (mem_buf (f_dev ?f)) [] (f_wOff ?f)"
      using d(1) by (simp_all add: mem.fok_def holds_log_def window_def l)
    obtain f1 where f1: "Append mem_dev RecData [1, 2] ?f = (Inr (), f1)" "mem.fok f1"
        "holds_log (mem_buf (f_dev f1)) ([] @ appended RecData [1, 2] (f_recs ?f) (f_nextIno ?f)) (f_wOff f1)"
        "f_logEnd f1 = f_logEnd ?f"
      by (rule mem.Append_holds_log [OF g, of "[1, 2]" RecData]) (simp_all add: appended_def l)
    have "f_wOff f1 = 523" using f1(3) by (simp add: holds_log_def appended_def)
    then obtain f2 where "Append mem_dev RecInode [3] f1 = (Inr (), f2)"
      by (rule_tac mem.Append_holds_log [OF f1(2,3), of "[3]" RecInode])
         (simp_all add: appended_def f1(4) l CheckpointPayload_layout)
    with f1(1) that show ?thesis by simp
  qed
  ultimately obtain rest d' where "Replay mem_dev (f_dev f') = (Some (paced ?ops 0 (RootIno + 1) @ rest), d')"
    using Replay_append_seq [OF mem.ragged_device_axioms d(1) _ _ nf, of ?ops f'] by (auto simp: l)
  then have "Replay mem_dev (f_dev f') =
      (Some ([\<lparr>Type = RecData, Payload = [1, 2]\<rparr>, \<lparr>Type = RecInode, Payload = [3]\<rparr>] @ rest), d')"
    by (simp add: appended_def)
  with nf f' show ?thesis by blast
qed

text \<open>
  A reader that ignores record types does not stop at zeroed space.  Formatting a device
  that is zero behind the fresh log and reading the log back gives the root inode, the
  checkpoint, and then one phantom record of type 0 for every nine zero bytes up to the end.
\<close>

theorem Format_Replay:
  assumes "ragged_device D dok img" "dok d" "16 * 512 \<le> length (img d)"
    and "drop (512 + 35) (img d) = replicate n 0"
  shows "\<exists>d1 d2. Format D d = (Inr (), d1) \<and> Replay D d1 = (Some (fresh_log @ replicate (n div 9) zero_rec), d2)"
proof -
  have bd: "block_device D dok img" using assms(1) by (simp add: ragged_device_def)
  obtain d1 where d1: "Format D d = (Inr (), d1)" "dok d1"
    "img d1 = EncodeSuperblock \<lparr>BlockSize = 512, NumBlocks = of_nat (length (img d) div 512),
       LogSector = LogStartSector, Version = FormatVersion\<rparr> @ frames fresh_log @ drop (512 + 35) (img d)"
    (is "_ = ?sb @ _")
    by (rule block_device.Format_img [OF bd assms(2,3)])
  have l: "length ?sb = 512" by simp
  have dr: "drop 512 (img d1) = frames fresh_log @ replicate n 0" "drop 547 (img d1) = replicate n 0"
    using length_fresh_log assms(4) by (simp_all add: d1(3))
  have "length (img d1) = 547 + n" using length_fresh_log assms(4) by (simp add: d1(3))
  then have h: "holds_log (img d1) fresh_log 547"
    using dr(1) length_fresh_log
    by (simp add: holds_log_def window_def fresh_log_def rec_ok_def InodePayload_layout CheckpointPayload_layout)
  have "ParseSuperblock (window 0 512 (img d1)) \<noteq> None"
    by (simp add: d1(3) window_def ParseSuperblock_def EncodeSuperblock_layout str_KFS1)
  moreover obtain d2 where "Replay D d1 =
      (if ParseSuperblock (window 0 512 (img d1)) = None then None
       else Some (log_scan (length (img d1)) (img d1) LogStart), d2)"
    by (rule ragged_device.Replay_img [OF assms(1) d1(2)]) (use l d1(3) in simp)
  ultimately show ?thesis
    using d1(1) holds_log_scan [OF h, of "length (img d1)"] log_scan_zeros [OF dr(2)] by simp
qed

theorem Format_Replay_witness:
  "\<exists>d1 d2. Format mem_dev (newMem 512 16) = (Inr (), d1) \<and>
     Replay mem_dev d1 = (Some (fresh_log @ replicate 849 zero_rec), d2)"
proof -
  have "mem_inv (newMem 512 16)" by (rule mem_inv_newMem) simp
  moreover have "mem_buf (newMem 512 16) = replicate 8192 0" by (simp add: newMem_def)
  ultimately show ?thesis
    using Format_Replay [OF mem.ragged_device_axioms, of "newMem 512 16" 7645] by simp
qed

section \<open>Two volumes on one disk\<close>

text \<open>An offset device with its base fixed and everything below the base unchanged.\<close>

definition off_above :: "('d \<Rightarrow> bool) \<Rightarrow> ('d \<Rightarrow> bytes) \<Rightarrow> u64 \<Rightarrow> bytes \<Rightarrow> 'd Offset \<Rightarrow> bool" where
  "off_above dok img b pre ofs \<longleftrightarrow>
     off_inv dok img ofs \<and> Base ofs = b \<and> take (unat b * 512) (img (Inner ofs)) = pre"

context block_device
begin

lemma off_above_device: "block_device (off_dev D) (off_above dok img b pre) (off_img img)"
proof
  fix ofs :: "'d Offset" assume "off_above dok img b pre ofs"
  then have o: "off_inv dok img ofs" by (simp add: off_above_def)
  show "dGeometry (off_dev D) ofs = (512, of_nat (length (off_img img ofs) div 512))"
    "512 dvd length (off_img img ofs)" "length (off_img img ofs) < 2 ^ 63"
    using block_device.geometry [OF off_block_device o] block_device.whole [OF off_block_device o]
      block_device.bounded [OF off_block_device o] by simp_all
next
  fix ofs :: "'d Offset" and buf :: bytes and k :: nat and lba :: u64
  assume a: "off_above dok img b pre ofs" and k: "length buf = 512 * k" "0 < k"
    and fits: "unat lba * 512 + length buf \<le> length (off_img img ofs)"
  then have o: "off_inv dok img ofs" "Base ofs = b" "take (unat b * 512) (img (Inner ofs)) = pre"
    by (simp_all add: off_above_def)
  have i: "dok (Inner ofs)" using o by (simp add: off_inv_def)
  have l0: "0 < length buf" using k by simp
  note lba = off_lba [OF o(1) fits l0]
  have fits': "unat (Base ofs + lba) * 512 + length buf \<le> length (img (Inner ofs))"
    using lba by (simp add: add_mult_distrib)
  from read [OF i k fits'] obtain d where
    d: "dRead D (Inner ofs) (Base ofs + lba) buf =
        (Inr (window (unat (Base ofs + lba) * 512) (length buf) (img (Inner ofs))), d)"
    "dok d" "img d = img (Inner ofs)" by blast
  then show "\<exists>d'. dRead (off_dev D) ofs lba buf =
      (Inr (window (unat lba * 512) (length buf) (off_img img ofs)), d') \<and>
      off_above dok img b pre d' \<and> off_img img d' = off_img img ofs"
    using o by (simp add: off_dev_def off_Read_def off_above_def off_inv_def off_img_def window_drop
        lba(1) [unfolded o(2)] add_mult_distrib)
  from put [OF i k fits'] obtain d where
    d: "dWrite D (Inner ofs) (Base ofs + lba) buf = (Inr (), d)"
    "dok d" "img d = go_copy (img (Inner ofs)) (unat (Base ofs + lba) * 512) buf" by blast
  moreover have "take (unat b * 512) (img d) = pre"
    using o lba fits' d(3) by (simp add: go_copy_def add_mult_distrib)
  ultimately show "\<exists>d'. dWrite (off_dev D) ofs lba buf = (Inr (), d') \<and> off_above dok img b pre d' \<and>
      off_img img d' = go_copy (off_img img ofs) (unat lba * 512) buf"
    using o lba fits'
    by (simp add: off_dev_def off_Write_def off_above_def off_inv_def off_img_def add_mult_distrib
        drop_go_copy_suffix)
qed

end

interpretation off_above_mem: block_device "off_dev mem_dev" "off_above mem_inv mem_buf b pre" "off_img mem_buf"
  by (rule mem.off_above_device)

text \<open>
  Seeding a data volume behind a boot volume.  On a disk whose first sector is no KFS
  superblock, formatting the upper half through an offset device succeeds, leaves every byte
  of the lower half as it was, and volume discovery then finds the new volume at that offset.
\<close>

theorem FindVolume_seeded:
  assumes "block_device D dok img" "dok d" "32 * 512 \<le> length (img d)"
    and "ParseSuperblock (window 0 512 (img d)) = None"
  defines "s \<equiv> length (img d) div 1024"
  shows "\<exists>ofs d'. Format (off_dev D) (NewOffset d (of_nat s)) = (Inr (), ofs) \<and>
    take (s * 512) (img (Inner ofs)) = take (s * 512) (img d) \<and>
    FindVolume D (Inner ofs) = Inr (Shifted (NewOffset d' (of_nat s))) \<and> img d' = img (Inner ofs)"
proof -
  let ?b = "of_nat s :: u64" and ?pre = "take (s * 512) (img d)"
  let ?o = "NewOffset d ?b"
  have le: "s * 512 + 16 * 512 \<le> length (img d)" using assms(3) unfolding s_def by linarith
  have b: "unat ?b = s" using block_device.sector_of_nat [OF assms(1,2), of s] le by simp
  have a: "off_above dok img ?b ?pre ?o"
    using assms(2) le b by (simp add: off_above_def off_inv_def NewOffset_def)
  have l: "16 * 512 \<le> length (off_img img ?o)" using le b by (simp add: off_img_def NewOffset_def)
  obtain ofs where f: "Format (off_dev D) ?o = (Inr (), ofs)" "off_above dok img ?b ?pre ofs"
    "off_img img ofs = EncodeSuperblock \<lparr>BlockSize = 512, NumBlocks = of_nat (length (off_img img ?o) div 512),
       LogSector = LogStartSector, Version = FormatVersion\<rparr> @ frames fresh_log @ drop (512 + 35) (off_img img ?o)"
    by (rule block_device.Format_img [OF block_device.off_above_device [OF assms(1)] a l])
  have i: "dok (Inner ofs)" "take (s * 512) (img (Inner ofs)) = ?pre"
    "drop (s * 512) (img (Inner ofs)) = off_img img ofs"
    using f(2) b by (auto simp: off_above_def off_inv_def off_img_def)
  have l1: "length (drop (s * 512) (img (Inner ofs))) = length (off_img img ?o)"
    using l length_fresh_log unfolding i(3) by (simp add: f(3))
  have l2: "length (off_img img ?o) = length (img d) - s * 512" by (simp add: off_img_def NewOffset_def b)
  have l3: "length (take (s * 512) (img (Inner ofs))) = s * 512" using le unfolding i(2) by simp
  have "length (img (Inner ofs)) = length (take (s * 512) (img (Inner ofs))) + length (drop (s * 512) (img (Inner ofs)))"
    by (simp only: length_append [symmetric] append_take_drop_id)
  then have len: "length (img (Inner ofs)) = length (img d)" using l1 l2 l3 le by linarith
  have "512 \<le> s * 512" using assms(3) unfolding s_def by linarith
  then have "window 0 512 (img (Inner ofs)) = window 0 512 (img d)"
    using arg_cong [OF i(2), of "take 512"] by (simp add: window_def min_def)
  then have p0: "ParseSuperblock (window 0 512 (img (Inner ofs))) = None" using assms(4) by simp
  have "window (s * 512) 512 (img (Inner ofs)) = take 512 (off_img img ofs)" using i(3) by (simp add: window_def)
  then have p1: "ParseSuperblock (window (s * 512) 512 (img (Inner ofs))) \<noteq> None"
    by (simp add: f(3) ParseSuperblock_def EncodeSuperblock_layout str_KFS1 window_def)
  obtain d' where "dok d'" "img d' = img (Inner ofs)"
    "FindVolume D (Inner ofs) =
      (if ParseSuperblock (window 0 512 (img (Inner ofs))) \<noteq> None then Inr (Bare d')
       else if ParseSuperblock (window (length (img (Inner ofs)) div 1024 * 512) 512 (img (Inner ofs))) \<noteq> None
            then Inr (Shifted (NewOffset d' (of_nat (length (img (Inner ofs)) div 1024))))
       else Inl (ErrBadSB, d'))"
    by (rule block_device.FindVolume_img [OF assms(1) i(1)]) (use len assms(3) in simp)
  then have "FindVolume D (Inner ofs) = Inr (Shifted (NewOffset d' ?b))" using p0 p1 len by (simp add: s_def)
  with f(1) i(2) \<open>img d' = img (Inner ofs)\<close> show ?thesis by blast
qed

theorem FindVolume_seeded_witness:
  "\<exists>ofs d'. Format (off_dev mem_dev) (NewOffset (newMem 512 64) 32) = (Inr (), ofs) \<and>
     FindVolume mem_dev (Inner ofs) = Inr (Shifted (NewOffset d' 32))"
proof -
  have i: "mem_inv (newMem 512 64)" by (rule mem_inv_newMem) simp
  have b: "mem_buf (newMem 512 64) = replicate 32768 0" by (simp add: newMem_def)
  have "hd (replicate 4 (0 :: byte)) \<noteq> hd (str ''KFS1'')" by (simp add: str_KFS1)
  then have "replicate 4 (0 :: byte) \<noteq> str ''KFS1''" by metis
  then have "ParseSuperblock (window 0 512 (mem_buf (newMem 512 64))) = None"
    by (simp add: ParseSuperblock_def window_def b)
  from FindVolume_seeded [OF mem.block_device_axioms i _ this] obtain ofs d' where
    "Format (off_dev mem_dev) (NewOffset (newMem 512 64) (of_nat (32768 div 1024))) = (Inr (), ofs)"
    "FindVolume mem_dev (Inner ofs) = Inr (Shifted (NewOffset d' (of_nat (32768 div 1024))))"
    unfolding b length_replicate by auto
  then show ?thesis by auto
qed

end
