(* ===== verification/Fs_Kfs.thy ===== *)
theory Fs_Kfs
  imports Kfs_Formatter
begin

text \<open>
  The guest's log-structured filesystem, \<^verbatim>\<open>services/fs/kfs.go\<close>, with the path
  splitting of \<^verbatim>\<open>services/fs/fat16.go\<close> it uses: the in-memory tables, the
  append and replay mechanics of the log, and the public file operations.  Every operation
  is the whole method: its guards in order, its log records, and its updates of the tables.
\<close>

section \<open>Paths\<close>

text \<open>\<^verbatim>\<open>strings.Split(s, sep)\<close> for a one-byte separator.\<close>

fun split_on :: "byte \<Rightarrow> bytes \<Rightarrow> bytes list" where
  "split_on sep [] = [[]]"
| "split_on sep (x # xs) =
     (if x = sep then [] # split_on sep xs
      else case split_on sep xs of [] \<Rightarrow> [[x]] | y # ys \<Rightarrow> (x # y) # ys)"

abbreviation (input) slash :: byte where "slash \<equiv> 0x2F"
abbreviation (input) dot :: byte where "dot \<equiv> 0x2E"

text \<open>The loop of \<^verbatim>\<open>splitPath\<close> over the components.\<close>

fun splitPath_loop :: "bytes list \<Rightarrow> bytes list \<Rightarrow> ferr + bytes list" where
  "splitPath_loop out [] = Inr out"
| "splitPath_loop out (p # ps) =
     (if p = [] \<or> p = [dot] then splitPath_loop out ps
      else if p = [dot, dot] then Inl ErrBadName
      else splitPath_loop (out @ [p]) ps)"

definition splitPath :: "bytes \<Rightarrow> ferr + bytes list" where
  "splitPath path =
     (if path = [] \<or> hd path \<noteq> slash then Inl ErrBadName
      else splitPath_loop [] (split_on slash (tl path)))"

section \<open>State\<close>

record StatInfo =
  si_Name :: bytes
  si_Attr :: byte
  si_Size :: u32
  si_Cluster :: u32

abbreviation (input) attrDir :: byte where "attrDir \<equiv> 0x10"

record kfsInode =
  i_ino :: u32
  i_uid :: u32
  i_kind :: byte
  i_size :: u32

record kfsDirent =
  d_parent :: u32
  d_name :: bytes
  d_ino :: u32
  d_dead :: bool

record 'd KFS =
  k_dev :: 'd
  k_numBlocks :: u64
  k_inodes :: "u32 \<Rightarrow> kfsInode option"
  k_children :: "u32 \<Rightarrow> nat list option"
  k_dirents :: "kfsDirent list"
  k_data :: "u32 \<Rightarrow> bytes option"
  k_logData :: bytes
  k_nextIno :: u32
  k_wOff :: nat
  k_recs :: nat
  k_logEnd :: nat

text \<open>A missing key of a Go map of slices reads as the empty slice.\<close>

definition children_of :: "'d KFS \<Rightarrow> u32 \<Rightarrow> nat list" where
  "children_of k p = (case k_children k p of None \<Rightarrow> [] | Some is \<Rightarrow> is)"

definition data_of :: "'d KFS \<Rightarrow> u32 \<Rightarrow> bytes" where
  "data_of k ino = (case k_data k ino of None \<Rightarrow> [] | Some b \<Rightarrow> b)"

definition emptyKFS :: "'d \<Rightarrow> u64 \<Rightarrow> bytes \<Rightarrow> u32 \<Rightarrow> 'd KFS" where
  "emptyKFS d n logData nextIno =
     \<lparr>k_dev = d, k_numBlocks = n, k_inodes = Map.empty, k_children = Map.empty, k_dirents = [],
      k_data = Map.empty, k_logData = logData, k_nextIno = nextIno, k_wOff = 512, k_recs = 0,
      k_logEnd = unat n * 512\<rparr>"

section \<open>Log mechanics\<close>

text \<open>
  \<^verbatim>\<open>append\<close> frames the record as \<^const>\<open>EncodeRecord\<close> does (the code
  repeats its body) and writes it with the aligned fast path or the read-modify-write loop
  of \<^const>\<open>writeAt\<close>; \<^verbatim>\<open>appendCheckpoint\<close> is its one-level recursion.
\<close>

function kfs_append :: "'d Device \<Rightarrow> byte \<Rightarrow> bytes \<Rightarrow> 'd KFS \<Rightarrow> (ferr + unit) \<times> 'd KFS" where
  "kfs_append D recType payload k =
     (let n = HdrLen + length payload
      in if k_wOff k + n > k_logEnd k then (Inl ErrNoSpace, k)
         else sbind (apsnd (\<lambda>d. k\<lparr>k_dev := d\<rparr>)
                (writeAt D (k_wOff k) (EncodeRecord recType payload) (k_dev k)))
           (\<lambda>_ k. let k = k\<lparr>k_wOff := k_wOff k + n\<rparr>
             in if recType \<noteq> RecCheckpoint
                then let k = k\<lparr>k_recs := k_recs k + 1\<rparr>
                     in if k_recs k mod CPEvery = 0
                        then kfs_append D RecCheckpoint (le32 (k_nextIno k)) k
                        else (Inr (), k)
                else (Inr (), k)))"
  by pat_completeness auto
termination
  by (relation "measure (\<lambda>(D, typ, payload, k). if typ = RecCheckpoint then 0 else 1)") auto

declare kfs_append.simps [simp del]

definition appendCheckpoint :: "'d Device \<Rightarrow> 'd KFS \<Rightarrow> (ferr + unit) \<times> 'd KFS" where
  "appendCheckpoint D k = kfs_append D RecCheckpoint (Put32 (replicate 4 0) 0 (k_nextIno k)) k"

definition padToSectorBoundary :: "'d KFS \<Rightarrow> 'd KFS" where
  "padToSectorBoundary k =
     (let rem = k_wOff k mod 512
      in if rem \<noteq> 0 then k\<lparr>k_wOff := k_wOff k + (512 - rem)\<rparr> else k)"

text \<open>\<^verbatim>\<open>readAt\<close>: from the preloaded log when in range, else sector by sector.\<close>

function readAt_loop :: "'d Device \<Rightarrow> nat \<Rightarrow> bytes \<Rightarrow> nat \<Rightarrow> bytes \<Rightarrow> 'd \<Rightarrow> (ferr + bytes) \<times> 'd" where
  "readAt_loop D off sec done dst d =
     (if done < length dst
      then let si = off + done
           in sbind (dRead D d (of_nat (si div 512)) sec)
                (\<lambda>sec d. let tk = min (512 - si mod 512) (length dst - done)
                  in readAt_loop D off sec (done + tk)
                       (go_copy dst done (window (si mod 512) tk sec)) d)
      else (Inr dst, d))"
  by pat_completeness auto
termination
  by (relation "measure (\<lambda>(D, off, sec, done, dst, d). length dst - done)") (auto simp: min_def)

declare readAt_loop.simps [simp del]

definition readAt :: "'d Device \<Rightarrow> nat \<Rightarrow> bytes \<Rightarrow> 'd KFS \<Rightarrow> (ferr + bytes) \<times> 'd KFS" where
  "readAt D off dst k =
     (if off div 512 \<ge> unat (k_numBlocks k) then (Inl ErrBeyondDevice, k)
      else if off + length dst \<le> length (k_logData k)
      then (Inr (window off (length dst) (k_logData k)), k)
      else apsnd (\<lambda>d. k\<lparr>k_dev := d\<rparr>) (readAt_loop D off (replicate 512 0) 0 dst (k_dev k)))"

section \<open>Applying one record\<close>

definition findDirent :: "'d KFS \<Rightarrow> u32 \<Rightarrow> bytes \<Rightarrow> nat option" where
  "findDirent k parent name =
     find (\<lambda>i. \<not> d_dead (k_dirents k ! i) \<and> d_name (k_dirents k ! i) = name) (children_of k parent)"

definition kill_dirent :: "nat \<Rightarrow> 'd KFS \<Rightarrow> 'd KFS" where
  "kill_dirent i k = k\<lparr>k_dirents := (k_dirents k)[i := (k_dirents k ! i)\<lparr>d_dead := True\<rparr>]\<rparr>"

definition removeDirent :: "u32 \<Rightarrow> bytes \<Rightarrow> 'd KFS \<Rightarrow> 'd KFS" where
  "removeDirent parent name k =
     (case findDirent k parent name of None \<Rightarrow> k | Some idx \<Rightarrow> kill_dirent idx k)"

text \<open>Adding an entry to both tables, as replay and \<^verbatim>\<open>appendDirent\<close> do.\<close>

definition link_dirent :: "u32 \<Rightarrow> bytes \<Rightarrow> u32 \<Rightarrow> 'd KFS \<Rightarrow> 'd KFS" where
  "link_dirent parent name ino k =
     k\<lparr>k_dirents := k_dirents k @ [\<lparr>d_parent = parent, d_name = name, d_ino = ino, d_dead = False\<rparr>],
       k_children := (k_children k)(parent \<mapsto> children_of k parent @ [length (k_dirents k)])\<rparr>"

definition apply_inode :: "bytes \<Rightarrow> 'd KFS \<Rightarrow> ferr + bool \<times> 'd KFS" where
  "apply_inode p k =
     (if length p < 13 then Inr (False, k)
      else let ino = Get32 p;
               k = k\<lparr>k_inodes := (k_inodes k)(ino \<mapsto>
                      \<lparr>i_ino = ino, i_uid = Get32 (drop 4 p), i_kind = p ! 8,
                       i_size = Get32 (drop 9 p)\<rparr>)\<rparr>;
               k = (if ino \<ge> k_nextIno k then k\<lparr>k_nextIno := ino + 1\<rparr> else k);
               k = (if p ! 8 = KindDir \<and> k_children k ino = None
                    then k\<lparr>k_children := (k_children k)(ino \<mapsto> [])\<rparr> else k)
           in Inr (True, k))"

definition apply_dirent :: "bytes \<Rightarrow> 'd KFS \<Rightarrow> ferr + bool \<times> 'd KFS" where
  "apply_dirent p k =
     (if length p < 7 then Inr (False, k)
      else case LStr p 5 of
        None \<Rightarrow> Inr (False, k)
      | Some (name, next) \<Rightarrow>
          if next + 4 > length p then Inr (False, k)
          else let parent = Get32 p; op = p ! 4; ino = Get32 (drop next p)
               in if op = 1 then Inr (True, removeDirent parent name k)
                  else Inr (True, link_dirent parent name ino k))"

text \<open>
  \<^verbatim>\<open>end := int(off) + dlen\<close> is two's-complement arithmetic on 64 bits; indexing
  \<^verbatim>\<open>buf[off:]\<close> past the slice panics.
\<close>

definition apply_data :: "bytes \<Rightarrow> 'd KFS \<Rightarrow> ferr + bool \<times> 'd KFS" where
  "apply_data p k =
     (if length p < 16 then Inr (False, k)
      else let ino = Get32 p; off = Get64 (drop 4 p); dlen = unat (Get32 (drop 12 p))
           in if length p < 16 + dlen then Inr (False, k)
              else let buf = data_of k ino
                   in if off = TruncSentinel then Inr (True, k\<lparr>k_data := (k_data k)(ino \<mapsto> [])\<rparr>)
                      else let end' = sint (off + of_nat dlen);
                               buf = buf @ replicate (nat end' - length buf) 0
                           in if unat off > length buf then Inl GoPanic
                              else Inr (True, k\<lparr>k_data := (k_data k)(ino \<mapsto>
                                     go_copy buf (unat off) (drop 16 p))\<rparr>))"

definition apply_checkpoint :: "bytes \<Rightarrow> 'd KFS \<Rightarrow> ferr + bool \<times> 'd KFS" where
  "apply_checkpoint p k =
     (if length p \<ge> 4 \<and> Get32 p > k_nextIno k then Inr (True, k\<lparr>k_nextIno := Get32 p\<rparr>)
      else Inr (True, k))"

definition kfs_apply :: "byte \<Rightarrow> bytes \<Rightarrow> 'd KFS \<Rightarrow> ferr + bool \<times> 'd KFS" where
  "kfs_apply typ p k =
     (if typ = RecInode then apply_inode p k
      else if typ = RecDirent then apply_dirent p k
      else if typ = RecData then apply_data p k
      else if typ = RecCheckpoint then apply_checkpoint p k
      else Inr (False, k))"

section \<open>Replay, format, mount\<close>

text \<open>A read error, a framing violation, a CRC mismatch or a refused record ends the scan.\<close>

function replay_loop ::
  "'d Device \<Rightarrow> nat \<Rightarrow> bytes \<Rightarrow> nat \<Rightarrow> 'd KFS \<Rightarrow> (ferr + nat) \<times> 'd KFS" where
  "replay_loop D logEnd hdr pos k =
     (if pos + HdrLen \<le> logEnd
      then case readAt D pos hdr k of
          (Inl e, k) \<Rightarrow> (Inr pos, k)
        | (Inr hdr, k) \<Rightarrow>
            let plen = unat (Get32 hdr); crc = Get32 (drop 4 hdr); typ = hdr ! 8
            in if plen > MaxPayload \<or> pos + HdrLen + plen > logEnd then (Inr pos, k)
               else case readAt D (pos + HdrLen) (replicate plen 0) k of
                   (Inl e, k) \<Rightarrow> (Inr pos, k)
                 | (Inr payload, k) \<Rightarrow>
                     if ChecksumIEEE payload \<noteq> crc then (Inr pos, k)
                     else (case kfs_apply typ payload k of
                         Inl e \<Rightarrow> (Inl e, k)
                       | Inr (ok, k) \<Rightarrow>
                           if \<not> ok then (Inr pos, k)
                           else replay_loop D logEnd hdr (pos + (HdrLen + plen)) k)
      else (Inr pos, k))"
  by pat_completeness auto
termination
  by (relation "measure (\<lambda>(D, logEnd, hdr, pos, k). logEnd - pos)") auto

declare replay_loop.simps [simp del]

definition replay :: "'d Device \<Rightarrow> 'd KFS \<Rightarrow> (ferr + unit) \<times> 'd KFS" where
  "replay D k = sbind (replay_loop D (k_logEnd k) (replicate HdrLen 0) (k_wOff k) k)
     (\<lambda>pos k. (Inr (), k\<lparr>k_wOff := pos\<rparr>))"

definition kfsInodePayload :: "kfsInode \<Rightarrow> bytes" where
  "kfsInodePayload n =
     (let p = replicate 13 0;
          p = Put32 p 0 (i_ino n);
          p = Put32 p 4 (i_uid n);
          p = p[8 := i_kind n];
          p = Put32 p 9 (i_size n)
      in p)"

definition FormatKFS :: "'d Device \<Rightarrow> 'd \<Rightarrow> (ferr + unit) \<times> 'd" where
  "FormatKFS D d =
     (let (bs, n) = dGeometry D d
      in if bs \<noteq> 512 \<or> n < 16 then (Inl ErrKFSBadSB, d)
         else let sb = replicate 512 0;
                  sb = go_copy sb 0 (str ''KFS1'');
                  sb = Put32 sb 4 bs;
                  sb = Put64 sb 8 n;
                  sb = Put32 sb 16 1;
                  sb = Put32 sb 20 1
              in sbind (dWrite D d 0 sb)
                (\<lambda>_ d. apsnd k_dev
                  (sbind (kfs_append D RecInode
                      (kfsInodePayload \<lparr>i_ino = RootIno, i_uid = 0, i_kind = KindDir, i_size = 0\<rparr>)
                      (emptyKFS d n [] (RootIno + 1)))
                    (\<lambda>_ k. appendCheckpoint D k))))"

text \<open>The mounted filesystem, or the error and the device.\<close>

definition MountKFS :: "'d Device \<Rightarrow> 'd \<Rightarrow> (ferr \<times> 'd) + 'd KFS" where
  "MountKFS D d =
     (let (bs, n) = dGeometry D d
      in case dRead D d 0 (replicate 512 0) of
          (Inl e, d) \<Rightarrow> Inl (e, d)
        | (Inr sb, d) \<Rightarrow>
            if take 4 sb \<noteq> str ''KFS1'' \<or> Get32 (drop 4 sb) \<noteq> bs then Inl (ErrKFSBadSB, d)
            else if Get32 (drop 16 sb) \<noteq> 1 then Inl (ErrKFSBadSB, d)
            else case replay D (emptyKFS d n sb 0) of
                (Inl e, k) \<Rightarrow> Inl (e, k_dev k)
              | (Inr _, k) \<Rightarrow> Inr k)"

text \<open>\<^verbatim>\<open>mountAuto\<close> of \<^verbatim>\<open>services/fs/mount.go\<close>.\<close>

definition mountAuto :: "'d Device \<Rightarrow> 'd \<Rightarrow> (ferr \<times> 'd Volume) + 'd Volume KFS" where
  "mountAuto D d =
     (case FindVolume D d of
        Inl (e, d) \<Rightarrow> Inl (e, Bare d)
      | Inr vol \<Rightarrow> MountKFS (vol_dev D) vol)"

text \<open>\<^verbatim>\<open>finalizeLogData\<close>: preload the log, whole sectors only.\<close>

function finalize_loop :: "'d Device \<Rightarrow> nat \<Rightarrow> nat \<Rightarrow> 'd KFS \<Rightarrow> (ferr + unit) \<times> 'd KFS" where
  "finalize_loop D lim lba k =
     (if lba < lim
      then if lba \<ge> unat (k_numBlocks k) then (Inr (), k)
           else let off = lba * 512
                in if off + 512 > length (k_logData k) then (Inr (), k)
                   else sbind (apsnd (\<lambda>d. k\<lparr>k_dev := d\<rparr>) (dRead D (k_dev k) (of_nat lba) (replicate 512 0)))
                     (\<lambda>buf k. finalize_loop D lim (lba + 1)
                        (k\<lparr>k_logData := go_copy (k_logData k) off buf\<rparr>))
      else (Inr (), k))"
  by pat_completeness auto
termination
  by (relation "measure (\<lambda>(D, lim, lba, k). lim - lba)") auto

declare finalize_loop.simps [simp del]

definition finalizeLogData :: "'d Device \<Rightarrow> 'd KFS \<Rightarrow> (ferr + unit) \<times> 'd KFS" where
  "finalizeLogData D k =
     (if k_wOff k \<le> 512 then (Inr (), k)
      else finalize_loop D (k_wOff k div 512 + 1) 0 (k\<lparr>k_logData := replicate (k_wOff k) 0\<rparr>))"

section \<open>Path resolution\<close>

fun walk_loop :: "'d KFS \<Rightarrow> u32 \<Rightarrow> bytes list \<Rightarrow> u32 option" where
  "walk_loop k cur [] = Some cur"
| "walk_loop k cur (part # parts) =
     (case findDirent k cur part of
        None \<Rightarrow> None
      | Some di \<Rightarrow> walk_loop k (d_ino (k_dirents k ! di)) parts)"

definition walk :: "'d KFS \<Rightarrow> bytes \<Rightarrow> ferr + u32 option" where
  "walk k path =
     (case splitPath path of Inl e \<Rightarrow> Inl e | Inr parts \<Rightarrow> Inr (walk_loop k RootIno parts))"

fun walkParent_loop :: "'d KFS \<Rightarrow> u32 \<Rightarrow> bytes list \<Rightarrow> ferr + u32" where
  "walkParent_loop k cur [] = Inr cur"
| "walkParent_loop k cur (part # parts) =
     (case findDirent k cur part of
        None \<Rightarrow> Inl ErrNoEntry
      | Some di \<Rightarrow>
          let cur = d_ino (k_dirents k ! di)
          in case k_inodes k cur of
               None \<Rightarrow> Inl ErrNotDir
             | Some nd \<Rightarrow> if i_kind nd \<noteq> KindDir then Inl ErrNotDir
                          else walkParent_loop k cur parts)"

definition walkParent :: "'d KFS \<Rightarrow> bytes \<Rightarrow> ferr + u32 \<times> bytes" where
  "walkParent k path =
     (case splitPath path of
        Inl e \<Rightarrow> Inl ErrBadName
      | Inr parts \<Rightarrow>
          if parts = [] then Inl ErrBadName
          else case walkParent_loop k RootIno (butlast parts) of
                 Inl e \<Rightarrow> Inl e
               | Inr cur \<Rightarrow> Inr (cur, last parts))"

section \<open>File operations\<close>

definition allocIno :: "'d KFS \<Rightarrow> u32 \<times> 'd KFS" where
  "allocIno k = (k_nextIno k, k\<lparr>k_nextIno := k_nextIno k + 1\<rparr>)"

definition appendDirent :: "'d Device \<Rightarrow> u32 \<Rightarrow> bytes \<Rightarrow> u32 \<Rightarrow> 'd KFS \<Rightarrow> (ferr + unit) \<times> 'd KFS" where
  "appendDirent D parent name ino k =
     sbind (kfs_append D RecDirent (AppendLStr (le32 parent @ [0]) name @ le32 ino) k)
       (\<lambda>_ k. (Inr (), link_dirent parent name ino k))"

definition appendDirentDelete :: "'d Device \<Rightarrow> u32 \<Rightarrow> bytes \<Rightarrow> 'd KFS \<Rightarrow> (ferr + unit) \<times> 'd KFS" where
  "appendDirentDelete D parent name k =
     sbind (kfs_append D RecDirent (AppendLStr (le32 parent @ [1]) name) k)
       (\<lambda>_ k. (Inr (), case findDirent k parent name of None \<Rightarrow> k | Some di \<Rightarrow> kill_dirent di k))"

definition appendData :: "'d Device \<Rightarrow> u32 \<Rightarrow> u64 \<Rightarrow> bytes \<Rightarrow> 'd KFS \<Rightarrow> (ferr + unit) \<times> 'd KFS" where
  "appendData D ino off data k =
     (let pl = replicate (16 + length data) 0;
          pl = Put32 pl 0 ino;
          pl = Put64 pl 4 off;
          pl = Put32 pl 12 (of_nat (length data));
          pl = go_copy pl 16 data
      in kfs_append D RecData pl k)"

definition set_inode :: "kfsInode \<Rightarrow> 'd KFS \<Rightarrow> 'd KFS" where
  "set_inode nd k = k\<lparr>k_inodes := (k_inodes k)(i_ino nd \<mapsto> nd)\<rparr>"

text \<open>
  \<^verbatim>\<open>nd := k.inodes[ino]; nd.size = n\<close> writes through the pointer stored in the map.
\<close>

definition set_size :: "u32 \<Rightarrow> kfsInode \<Rightarrow> u32 \<Rightarrow> 'd KFS \<Rightarrow> 'd KFS" where
  "set_size ino nd n k = k\<lparr>k_inodes := (k_inodes k)(ino \<mapsto> nd\<lparr>i_size := n\<rparr>)\<rparr>"

definition truncate :: "'d Device \<Rightarrow> u32 \<Rightarrow> 'd KFS \<Rightarrow> (ferr + unit) \<times> 'd KFS" where
  "truncate D ino k =
     sbind (kfs_append D RecData (le32 ino @ le64 TruncSentinel @ le32 0) k)
       (\<lambda>_ k. sbind (case k_inodes k ino of
             None \<Rightarrow> (Inr (), k)
           | Some nd \<Rightarrow>
               if i_size nd \<noteq> 0
               then sbind (kfs_append D RecInode (kfsInodePayload
                        \<lparr>i_ino = ino, i_uid = i_uid nd, i_kind = i_kind nd, i_size = 0\<rparr>) k)
                      (\<lambda>_ k. (Inr (), set_size ino nd 0 k))
               else (Inr (), k))
         (\<lambda>_ k. (Inr (), k\<lparr>k_data := (k_data k)(ino \<mapsto> [])\<rparr>)))"

definition Create :: "'d Device \<Rightarrow> bytes \<Rightarrow> 'd KFS \<Rightarrow> (ferr + unit) \<times> 'd KFS" where
  "Create D path k =
     (case walkParent k path of
        Inl e \<Rightarrow> (Inl e, k)
      | Inr (pino, leaf) \<Rightarrow>
          (case findDirent k pino leaf of
             Some di \<Rightarrow>
               let ino = d_ino (k_dirents k ! di)
               in if (case k_inodes k ino of None \<Rightarrow> False | Some nd \<Rightarrow> i_kind nd = KindDir)
                  then (Inl ErrIsDir, k)
                  else truncate D ino k
           | None \<Rightarrow>
               let (ino, k) = allocIno k;
                   nd = \<lparr>i_ino = ino, i_uid = 0, i_kind = KindFile, i_size = 0\<rparr>
               in sbind (kfs_append D RecInode (kfsInodePayload nd) k)
                    (\<lambda>_ k. sbind (appendDirent D pino leaf ino k)
                      (\<lambda>_ k. let k = set_inode nd k
                        in (Inr (), k\<lparr>k_data := (k_data k)(ino \<mapsto> [])\<rparr>)))))"

definition Mkdir :: "'d Device \<Rightarrow> bytes \<Rightarrow> 'd KFS \<Rightarrow> (ferr + unit) \<times> 'd KFS" where
  "Mkdir D path k =
     (case walkParent k path of
        Inl e \<Rightarrow> (Inl e, k)
      | Inr (pino, leaf) \<Rightarrow>
          if findDirent k pino leaf \<noteq> None then (Inl ErrExists, k)
          else let (ino, k) = allocIno k;
                   nd = \<lparr>i_ino = ino, i_uid = 0, i_kind = KindDir, i_size = 0\<rparr>
               in sbind (kfs_append D RecInode (kfsInodePayload nd) k)
                    (\<lambda>_ k. sbind (appendDirent D pino leaf ino k)
                      (\<lambda>_ k. let k = set_inode nd k
                        in (Inr (), k\<lparr>k_children := (k_children k)(ino \<mapsto> [])\<rparr>))))"

definition liveChildren :: "'d KFS \<Rightarrow> u32 \<Rightarrow> nat list" where
  "liveChildren k parent = filter (\<lambda>i. \<not> d_dead (k_dirents k ! i)) (children_of k parent)"

definition Delete :: "'d Device \<Rightarrow> bytes \<Rightarrow> 'd KFS \<Rightarrow> (ferr + unit) \<times> 'd KFS" where
  "Delete D path k =
     (case splitPath path of
        Inl e \<Rightarrow> (Inl ErrBadName, k)
      | Inr parts \<Rightarrow>
          if parts = [] then (Inl ErrBadName, k)
          else case walkParent k path of
              Inl e \<Rightarrow> (Inl e, k)
            | Inr (pino, leaf) \<Rightarrow>
                (case findDirent k pino leaf of
                   None \<Rightarrow> (Inl ErrNoEntry, k)
                 | Some di \<Rightarrow>
                     let ino = d_ino (k_dirents k ! di)
                     in if (case k_inodes k ino of None \<Rightarrow> False | Some nd \<Rightarrow> i_kind nd = KindDir)
                           \<and> liveChildren k ino \<noteq> []
                        then (Inl ErrNotEmpt, k)
                        else sbind (appendDirentDelete D pino leaf k)
                               (\<lambda>_ k. (Inr (), k\<lparr>k_data := (k_data k)(ino := None)\<rparr>))))"

definition Stat :: "bytes \<Rightarrow> 'd KFS \<Rightarrow> ferr + StatInfo" where
  "Stat path k =
     (if path = [slash] then Inr \<lparr>si_Name = [], si_Attr = attrDir, si_Size = 0, si_Cluster = 0\<rparr>
      else case splitPath path of
          Inl e \<Rightarrow> Inl e
        | Inr parts \<Rightarrow>
            (case walkParent k path of
               Inl e \<Rightarrow> Inl e
             | Inr (pino, leaf) \<Rightarrow>
                 (case findDirent k pino leaf of
                    None \<Rightarrow> Inl ErrNoEntry
                  | Some di \<Rightarrow>
                      let ino = d_ino (k_dirents k ! di)
                      in case k_inodes k ino of
                           Some nd \<Rightarrow> Inr \<lparr>si_Name = leaf,
                              si_Attr = (if i_kind nd = KindDir then attrDir else 0),
                              si_Size = i_size nd, si_Cluster = ino\<rparr>
                         | None \<Rightarrow> if 0 < length parts then Inl ErrNoEntry
                                   else Inr \<lparr>si_Name = leaf, si_Attr = 0, si_Size = 0, si_Cluster = ino\<rparr>)))"

definition list_entry :: "'d KFS \<Rightarrow> nat \<Rightarrow> StatInfo" where
  "list_entry k i =
     (let d = k_dirents k ! i
      in case k_inodes k (d_ino d) of
           Some nd \<Rightarrow> \<lparr>si_Name = d_name d, si_Attr = (if i_kind nd = KindDir then attrDir else 0),
                        si_Size = i_size nd, si_Cluster = d_ino d\<rparr>
         | None \<Rightarrow> \<lparr>si_Name = d_name d, si_Attr = 0, si_Size = 0, si_Cluster = d_ino d\<rparr>)"

definition List :: "bytes \<Rightarrow> 'd KFS \<Rightarrow> ferr + StatInfo list" where
  "List path k =
     (let entries = (\<lambda>pino. map (list_entry k) (liveChildren k pino))
      in if path = [slash] then Inr (entries RootIno)
         else case walk k path of
             Inl e \<Rightarrow> Inl e
           | Inr None \<Rightarrow> Inl ErrNoEntry
           | Inr (Some ino) \<Rightarrow>
               (case k_inodes k ino of
                  None \<Rightarrow> Inl ErrNotDir
                | Some nd \<Rightarrow> if i_kind nd \<noteq> KindDir then Inl ErrNotDir else Inr (entries ino)))"

section \<open>File contents\<close>

text \<open>
  The effect of one logged record on the output buffer of \<^verbatim>\<open>replayData\<close>: the
  body of its loop after the frame has been checked.  Offsets are signed 64-bit values.
\<close>

definition overlay :: "u32 \<Rightarrow> int \<Rightarrow> byte \<Rightarrow> bytes \<Rightarrow> bytes \<Rightarrow> bytes" where
  "overlay ino off typ payload out =
     (if typ \<noteq> RecData then out
      else if length payload < 16 then out
      else if Get32 payload \<noteq> ino then out
      else let doff = Get64 (drop 4 payload)
           in if doff = TruncSentinel then replicate (length out) 0
              else let dlen = unat (Get32 (drop 12 payload))
                   in if length payload < 16 + dlen then out
                      else let segStart = sint doff;
                               segEnd = sint (doff + of_nat dlen);
                               reqEnd = off + int (length out)
                           in if segStart \<ge> reqEnd \<or> segEnd \<le> off then out
                              else let ovStart = max segStart off;
                                       ovEnd = min segEnd reqEnd
                                   in go_copy out (nat (ovStart - off))
                                        (window (16 + nat (ovStart - segStart)) (nat (ovEnd - ovStart)) payload))"

function replayData_loop ::
  "'d Device \<Rightarrow> u32 \<Rightarrow> int \<Rightarrow> nat \<Rightarrow> bytes \<Rightarrow> nat \<Rightarrow> bytes \<Rightarrow> 'd KFS \<Rightarrow> (ferr + bytes) \<times> 'd KFS" where
  "replayData_loop D ino off wOff hdr pos out k =
     (if pos + HdrLen \<le> wOff
      then sbind (readAt D pos hdr k)
        (\<lambda>hdr k. let plen = unat (Get32 hdr); crc = Get32 (drop 4 hdr); typ = hdr ! 8;
                     recEnd = pos + (HdrLen + plen)
          in if plen > MaxPayload \<or> recEnd > wOff then (Inr out, k)
             else sbind (readAt D (pos + HdrLen) (replicate plen 0) k)
               (\<lambda>payload k. if ChecksumIEEE payload \<noteq> crc then (Inr out, k)
                  else replayData_loop D ino off wOff hdr recEnd (overlay ino off typ payload out) k))
      else (Inr out, k))"
  by pat_completeness auto
termination
  by (relation "measure (\<lambda>(D, ino, off, wOff, hdr, pos, out, k). wOff - pos)") auto

declare replayData_loop.simps [simp del]

definition replayData :: "'d Device \<Rightarrow> u32 \<Rightarrow> int \<Rightarrow> nat \<Rightarrow> 'd KFS \<Rightarrow> (ferr + bytes) \<times> 'd KFS" where
  "replayData D ino off want k =
     replayData_loop D ino off (k_wOff k) (replicate HdrLen 0) 512 (replicate want 0) k"

text \<open>\<^verbatim>\<open>ReadFile\<close> returns the count and the caller's buffer.\<close>

definition ReadFile :: "'d Device \<Rightarrow> bytes \<Rightarrow> u64 \<Rightarrow> bytes \<Rightarrow> 'd KFS \<Rightarrow> (ferr + nat \<times> bytes) \<times> 'd KFS" where
  "ReadFile D path off buf k =
     (if length buf = 0 then (Inr (0, buf), k)
      else case walkParent k path of
          Inl e \<Rightarrow> (Inl e, k)
        | Inr (pino, leaf) \<Rightarrow>
            (case findDirent k pino leaf of
               None \<Rightarrow> (Inl ErrNoEntry, k)
             | Some di \<Rightarrow>
                 let ino = d_ino (k_dirents k ! di); nd = k_inodes k ino
                 in if (case nd of None \<Rightarrow> False | Some nd \<Rightarrow> i_kind nd = KindDir)
                    then (Inl ErrIsDir, k)
                    else let size = (case nd of None \<Rightarrow> 0 | Some nd \<Rightarrow> unat (i_size nd))
                         in if unat off \<ge> size then (Inr (0, buf), k)
                            else let want = min (size - unat off) (length buf);
                                     data = data_of k ino
                                 in if length data \<ge> size
                                    then (Inr (want, go_copy buf 0 (window (unat off) want data)), k)
                                    else sbind (replayData D ino 0 size k)
                                      (\<lambda>replayed k. (Inr (want, go_copy buf 0 (take want (drop (unat off) replayed))),
                                         k\<lparr>k_data := (k_data k)(ino \<mapsto> replayed)\<rparr>))))"

definition cacheFileData :: "bytes \<Rightarrow> bytes \<Rightarrow> 'd KFS \<Rightarrow> 'd KFS" where
  "cacheFileData path data k =
     (case walkParent k path of
        Inl e \<Rightarrow> k
      | Inr (pino, leaf) \<Rightarrow>
          (case findDirent k pino leaf of
             None \<Rightarrow> k
           | Some di \<Rightarrow> k\<lparr>k_data := (k_data k)(d_ino (k_dirents k ! di) \<mapsto> data)\<rparr>))"

definition WriteFile :: "'d Device \<Rightarrow> bytes \<Rightarrow> u64 \<Rightarrow> bytes \<Rightarrow> 'd KFS \<Rightarrow> (ferr + unit) \<times> 'd KFS" where
  "WriteFile D path off data k =
     (case walkParent k path of
        Inl e \<Rightarrow> (Inl e, k)
      | Inr (pino, leaf) \<Rightarrow>
          (case findDirent k pino leaf of
             None \<Rightarrow> (Inl ErrNoEntry, k)
           | Some di \<Rightarrow>
               let ino = d_ino (k_dirents k ! di)
               in case k_inodes k ino of
                    None \<Rightarrow> (Inl ErrIsDir, k)
                  | Some nd \<Rightarrow>
                      if i_kind nd = KindDir then (Inl ErrIsDir, k)
                      else sbind (appendData D ino off data k)
                        (\<lambda>_ k. let end64 = off + of_nat (length data);
                                   newSize = (if end64 > ucast (i_size nd) then ucast end64 else i_size nd)
                          in sbind (if newSize \<noteq> i_size nd
                                    then sbind (kfs_append D RecInode (kfsInodePayload
                                           \<lparr>i_ino = ino, i_uid = i_uid nd, i_kind = i_kind nd,
                                            i_size = newSize\<rparr>) k)
                                         (\<lambda>_ k. (Inr (), set_size ino nd newSize k))
                                    else (Inr (), k))
                             (\<lambda>_ k. (Inr (), k\<lparr>k_data := (k_data k)(ino \<mapsto> [])\<rparr>)))))"

definition SetUID :: "'d Device \<Rightarrow> bytes \<Rightarrow> u32 \<Rightarrow> 'd KFS \<Rightarrow> (ferr + unit) \<times> 'd KFS" where
  "SetUID D path uid k =
     (case walkParent k path of
        Inl e \<Rightarrow> (Inl e, k)
      | Inr (pino, leaf) \<Rightarrow>
          (case findDirent k pino leaf of
             None \<Rightarrow> (Inl ErrNoEntry, k)
           | Some di \<Rightarrow>
               let ino = d_ino (k_dirents k ! di)
               in case k_inodes k ino of
                    None \<Rightarrow> (Inl ErrNoEntry, k)
                  | Some nd \<Rightarrow>
                      sbind (kfs_append D RecInode (kfsInodePayload
                          \<lparr>i_ino = i_ino nd, i_uid = uid, i_kind = i_kind nd, i_size = i_size nd\<rparr>) k)
                        (\<lambda>_ k. (Inr (), k\<lparr>k_inodes := (k_inodes k)(ino \<mapsto> nd\<lparr>i_uid := uid\<rparr>)\<rparr>))))"

definition UID :: "bytes \<Rightarrow> 'd KFS \<Rightarrow> ferr + u32" where
  "UID path k =
     (case walkParent k path of
        Inl e \<Rightarrow> Inl e
      | Inr (pino, leaf) \<Rightarrow>
          (case findDirent k pino leaf of
             None \<Rightarrow> Inl ErrNoEntry
           | Some di \<Rightarrow>
               (case k_inodes k (d_ino (k_dirents k ! di)) of
                  None \<Rightarrow> Inl ErrNoEntry
                | Some nd \<Rightarrow> Inr (i_uid nd))))"

end
