(* ===== verification/Fs_Kfs_Log.thy ===== *)
theory Fs_Kfs_Log
  imports Fs_Kfs
begin

text \<open>
  Mounting as a function of the log.  The guest's \<^const>\<open>readAt\<close> is a window of the flat
  image, \<^const>\<open>replay\<close> applies the scanned records in order and stops at the first it
  refuses, and \<^const>\<open>MountKFS\<close> is that from the empty tables.
\<close>

section \<open>Applying a sequence of records\<close>

fun apply_all :: "Record list \<Rightarrow> nat \<Rightarrow> 'd KFS \<Rightarrow> (ferr + nat) \<times> 'd KFS" where
  "apply_all [] pos k = (Inr pos, k)"
| "apply_all (r # rs) pos k =
     (case kfs_apply (Type r) (Payload r) k of
        Inl e \<Rightarrow> (Inl e, k)
      | Inr (ok, k') \<Rightarrow>
          if ok then apply_all rs (pos + length (frame r)) k' else (Inr pos, k'))"

lemma apply_all_append:
  "apply_all (rs @ ts) pos k =
     (case apply_all rs pos k of
        (Inl e, k') \<Rightarrow> (Inl e, k')
      | (Inr p, k') \<Rightarrow>
          if p = pos + length (frames rs) then apply_all ts p k' else (Inr p, k'))"
proof (induction rs arbitrary: pos k)
  case (Cons r rs)
  show ?case
  proof (cases "kfs_apply (Type r) (Payload r) k")
    case (Inr x)
    then show ?thesis
      using Cons.IH by (cases x) (auto simp: add.assoc split: sum.split prod.split)
  qed simp
qed simp

text \<open>Applying a record neither looks at nor touches the device side of the state.\<close>

lemmas apply_defs = apply_inode_def apply_dirent_def apply_data_def apply_checkpoint_def kfs_apply_def

definition geom :: "'d \<Rightarrow> u64 \<Rightarrow> bytes \<Rightarrow> nat \<Rightarrow> 'd KFS \<Rightarrow> 'd KFS" where
  "geom d n b l k = k\<lparr>k_dev := d, k_numBlocks := n, k_logData := b, k_logEnd := l\<rparr>"

lemma geom_select:
  "k_inodes (geom d n b l k) = k_inodes k" "k_children (geom d n b l k) = k_children k"
  "k_dirents (geom d n b l k) = k_dirents k" "k_data (geom d n b l k) = k_data k"
  "k_nextIno (geom d n b l k) = k_nextIno k"
  by (simp_all add: geom_def)

lemma geom_update:
  "(geom d n b l k)\<lparr>k_inodes := x\<rparr> = geom d n b l (k\<lparr>k_inodes := x\<rparr>)"
  "(geom d n b l k)\<lparr>k_children := y\<rparr> = geom d n b l (k\<lparr>k_children := y\<rparr>)"
  "(geom d n b l k)\<lparr>k_dirents := z\<rparr> = geom d n b l (k\<lparr>k_dirents := z\<rparr>)"
  "(geom d n b l k)\<lparr>k_data := u\<rparr> = geom d n b l (k\<lparr>k_data := u\<rparr>)"
  "(geom d n b l k)\<lparr>k_nextIno := v\<rparr> = geom d n b l (k\<lparr>k_nextIno := v\<rparr>)"
  by (simp_all add: geom_def)

lemma geom_frame:
  "children_of (geom d n b l k) = children_of k" "data_of (geom d n b l k) = data_of k"
  "findDirent (geom d n b l k) = findDirent k"
  "removeDirent q nm (geom d n b l k) = geom d n b l (removeDirent q nm k)"
  "link_dirent q nm ino (geom d n b l k) = geom d n b l (link_dirent q nm ino k)"
  by (simp_all add: children_of_def data_of_def findDirent_def kill_dirent_def removeDirent_def
      link_dirent_def fun_eq_iff geom_select geom_update split: option.splits)

lemma kfs_apply_geom:
  "kfs_apply t p (geom d n b l k) = map_sum id (apsnd (geom d n b l)) (kfs_apply t p k)"
proof -
  have "apply_inode p (geom d n b l k) = map_sum id (apsnd (geom d n b l)) (apply_inode p k)"
    by (simp add: apply_inode_def Let_def geom_select geom_update)
  moreover have "apply_dirent p (geom d n b l k) = map_sum id (apsnd (geom d n b l)) (apply_dirent p k)"
    by (simp add: apply_dirent_def Let_def geom_frame split: option.split)
  moreover have "apply_data p (geom d n b l k) = map_sum id (apsnd (geom d n b l)) (apply_data p k)"
    by (simp add: apply_data_def Let_def geom_select geom_update geom_frame)
  moreover have "apply_checkpoint p (geom d n b l k) = map_sum id (apsnd (geom d n b l)) (apply_checkpoint p k)"
    by (simp add: apply_checkpoint_def geom_select geom_update)
  ultimately show ?thesis by (simp add: kfs_apply_def)
qed

lemma apply_all_geom:
  "apply_all rs pos (geom d n b l k) = apsnd (geom d n b l) (apply_all rs pos k)"
  by (induction rs arbitrary: pos k) (auto simp: kfs_apply_geom split: sum.splits)

lemma kfs_apply_frame:
  assumes "kfs_apply typ p k = Inr (ok, k')"
  shows "k_dev k' = k_dev k" "k_numBlocks k' = k_numBlocks k" "k_logData k' = k_logData k"
    "k_wOff k' = k_wOff k" "k_recs k' = k_recs k" "k_logEnd k' = k_logEnd k"
  using assms
  by (auto simp: apply_defs Let_def removeDirent_def kill_dirent_def link_dirent_def
      split: if_splits option.splits prod.splits)

lemma kfs_apply_refused: "kfs_apply typ p k = Inr (False, k') \<Longrightarrow> k' = k"
  by (auto simp: apply_defs Let_def split: if_splits option.splits prod.splits)

lemma apply_all_frame:
  assumes "apply_all rs pos k = (r, k')"
  shows "k_dev k' = k_dev k" "k_numBlocks k' = k_numBlocks k" "k_logData k' = k_logData k"
    "k_wOff k' = k_wOff k" "k_recs k' = k_recs k" "k_logEnd k' = k_logEnd k"
  using assms
  by (induction rs arbitrary: pos k)
     (auto split: sum.splits if_splits dest: kfs_apply_frame)

lemma geom_dev: "k\<lparr>k_dev := d\<rparr> = geom d (k_numBlocks k) (k_logData k) (k_logEnd k) k"
  by (simp add: geom_def)

lemma kfs_apply_dev:
  "kfs_apply t p (k\<lparr>k_dev := d\<rparr>) = map_sum id (apsnd (\<lambda>k. k\<lparr>k_dev := d\<rparr>)) (kfs_apply t p k)"
  unfolding geom_dev kfs_apply_geom
  by (cases "kfs_apply t p k") (auto simp: kfs_apply_frame)

lemma apply_all_dev:
  "apply_all rs pos (k\<lparr>k_dev := d\<rparr>) = apsnd (\<lambda>k. k\<lparr>k_dev := d\<rparr>) (apply_all rs pos k)"
  unfolding geom_dev apply_all_geom
  by (cases "apply_all rs pos k") (auto simp: apply_all_frame)

lemma apply_all_le: "apply_all rs pos k = (Inr p, k') \<Longrightarrow> p \<le> pos + length (frames rs)"
  by (induction rs arbitrary: pos k) (fastforce split: sum.splits if_splits)+

section \<open>Reading the log through the device\<close>

lemma DecodeRecord_window:
  assumes "pos + HdrLen + plen \<le> length I" "plen = unat (Get32 (drop pos I))" "plen \<le> MaxPayload"
  shows "DecodeRecord (window pos HdrLen I) (window (pos + HdrLen) plen I) =
     (if ChecksumIEEE (window (pos + HdrLen) plen I) = Get32 (drop 4 (window pos HdrLen I))
      then Some \<lparr>Type = window pos HdrLen I ! 8, Payload = window (pos + HdrLen) plen I\<rparr> else None)"
  using assms by (simp add: DecodeRecord_def Let_def) (simp add: window_def Get32_take)

text \<open>The superblock checks of the mount, and the tables it rebuilds from an image.\<close>

definition sb_ok :: "bytes \<Rightarrow> bool" where
  "sb_ok I \<longleftrightarrow> take 4 I = str ''KFS1'' \<and> Get32 (drop 4 I) = 512 \<and> Get32 (drop 16 I) = 1"

definition mount_view :: "bytes \<Rightarrow> 'd \<Rightarrow> (ferr + nat) \<times> 'd KFS" where
  "mount_view I d = apply_all (log_scan (length I - 1) I LogStart) LogStart
     (emptyKFS d (of_nat (length I div 512)) (take 512 I) 0)"

lemma mount_view_dev: "mount_view I d = (r, k) \<Longrightarrow> k_dev k = d"
  by (auto simp: mount_view_def emptyKFS_def dest: apply_all_frame)

context block_device
begin

lemma readAt_loop_img:
  assumes "dok d" "length sec = 512" "off + length dst \<le> length (img d)" "dn \<le> length dst"
  shows "\<exists>d'. readAt_loop D off sec dn dst d =
      (Inr (take dn dst @ window (off + dn) (length dst - dn) (img d)), d') \<and>
     dok d' \<and> img d' = img d"
  using assms
proof (induction "length dst - dn" arbitrary: dn dst sec d rule: less_induct)
  case less
  show ?case
  proof (cases "dn < length dst")
    case False
    with less.prems show ?thesis by (subst readAt_loop.simps) (simp add: window_def)
  next
    case True
    define si where "si = off + dn"
    define tk where "tk = min (512 - si mod 512) (length dst - dn)"
    have tk: "0 < tk" "dn + tk \<le> length dst" "si mod 512 + tk \<le> 512"
      using True by (auto simp: tk_def)
    have s: "si div 512 * 512 + 512 \<le> length (img d)"
      using sector_in_range [OF whole [OF less.prems(1)], of si] less.prems True by (simp add: si_def)
    then obtain d1 where d1: "dRead D d (of_nat (si div 512)) sec =
        (Inr (window (si div 512 * 512) 512 (img d)), d1)" "dok d1" "img d1 = img d"
      using read_sector [OF less.prems(1,2), of "of_nat (si div 512)"]
        sector_of_nat [OF less.prems(1), of "si div 512"] by auto
    let ?part = "window (si mod 512) tk (window (si div 512 * 512) 512 (img d))"
    have part: "?part = window si tk (img d)"
      using tk(3) by (simp add: window_def drop_take min_def add.commute [of "si mod 512"])
    have lp: "length (window si tk (img d)) = tk"
      using less.prems(3) tk(2) by (simp add: si_def)
    let ?dst = "go_copy dst dn (window si tk (img d))"
    have dst: "take (dn + tk) ?dst = take dn dst @ window si tk (img d)"
      using tk(2) lp by (simp add: go_copy_exact)
    have "length dst - (dn + tk) < length dst - dn" using tk True by simp
    moreover have "length (window (si div 512 * 512) 512 (img d)) = 512" using s by simp
    ultimately obtain d2 where d2:
      "readAt_loop D off (window (si div 512 * 512) 512 (img d)) (dn + tk) ?dst d1 =
        (Inr (take (dn + tk) ?dst @ window (off + (dn + tk)) (length dst - (dn + tk)) (img d)), d2)"
      "dok d2" "img d2 = img d"
      using less.hyps [of ?dst "dn + tk" d1 "window (si div 512 * 512) 512 (img d)"]
        d1 less.prems tk by auto
    have "window si tk (img d) @ window (off + (dn + tk)) (length dst - (dn + tk)) (img d) =
        window (off + dn) (length dst - dn) (img d)"
      using window_append_split [of si tk "length dst - (dn + tk)" "img d"] tk(2)
      by (simp add: si_def add.assoc)
    moreover have "readAt_loop D off sec dn dst d =
        readAt_loop D off (window (si div 512 * 512) 512 (img d)) (dn + tk) ?dst d1"
      using True d1 part by (subst readAt_loop.simps) (simp add: Let_def si_def [symmetric] tk_def [symmetric])
    ultimately show ?thesis using d2 dst by simp
  qed
qed

text \<open>The device side of a mounted filesystem.\<close>

definition kok :: "'d KFS \<Rightarrow> bool" where
  "kok k \<longleftrightarrow> dok (k_dev k) \<and> k_logEnd k = length (img (k_dev k)) \<and>
     unat (k_numBlocks k) * 512 = length (img (k_dev k)) \<and>
     length (k_logData k) \<le> LogStart \<and> k_logData k = take (length (k_logData k)) (img (k_dev k))"

lemma kok_dev:
  "kok k \<Longrightarrow> dok d' \<Longrightarrow> img d' = img (k_dev k) \<Longrightarrow> kok (k\<lparr>k_dev := d'\<rparr>)"
  by (simp add: kok_def)

lemma readAt_img:
  assumes "kok k" "off < length (img (k_dev k))" "off + length dst \<le> length (img (k_dev k))"
  obtains d' where "readAt D off dst k = (Inr (window off (length dst) (img (k_dev k))), k\<lparr>k_dev := d'\<rparr>)"
    "dok d'" "img d' = img (k_dev k)"
proof -
  have k: "dok (k_dev k)" "unat (k_numBlocks k) * 512 = length (img (k_dev k))"
    "k_logData k = take (length (k_logData k)) (img (k_dev k))"
    using assms(1) by (simp_all add: kok_def)
  have "\<not> off div 512 \<ge> unat (k_numBlocks k)" using assms(2) k(2) by linarith
  moreover have "window off (length dst) (k_logData k) = window off (length dst) (img (k_dev k))"
    if "off + length dst \<le> length (k_logData k)"
    using that by (subst k(3)) (simp add: window_def drop_take min_def)
  moreover obtain d' where "readAt_loop D off (replicate 512 0) 0 dst (k_dev k) =
      (Inr (window off (length dst) (img (k_dev k))), d')" "dok d'" "img d' = img (k_dev k)"
    using readAt_loop_img [OF k(1), of "replicate 512 0" off dst 0] assms(3) by auto
  ultimately show ?thesis
    using that [of d'] that [of "k_dev k"] k(1)
    by (cases "off + length dst \<le> length (k_logData k)") (simp_all add: readAt_def)
qed

lemma readAt_end:
  "kok k \<Longrightarrow> length (img (k_dev k)) \<le> off \<Longrightarrow> readAt D off dst k = (Inl ErrBeyondDevice, k)"
  by (auto simp: readAt_def kok_def)

text \<open>\<^const>\<open>replay_loop\<close> applies what the log scan finds.\<close>

lemma kok_apply:
  "kok k \<Longrightarrow> kfs_apply typ p k = Inr (ok, k') \<Longrightarrow> kok k'"
  by (simp add: kok_def kfs_apply_frame)

lemma replay_loop_img:
  assumes "kok k" "length hdr = HdrLen"
  shows "\<exists>d'. replay_loop D (length (img (k_dev k))) hdr pos k =
      apsnd (\<lambda>k. k\<lparr>k_dev := d'\<rparr>)
        (apply_all (log_scan (length (img (k_dev k)) - 1) (img (k_dev k)) pos) pos k) \<and>
     dok d' \<and> img d' = img (k_dev k)"
  using assms
proof (induction "length (img (k_dev k)) - pos" arbitrary: pos k hdr rule: less_induct)
  case less
  let ?I = "img (k_dev k)"
  have dk: "dok (k_dev k)" using less.prems by (simp add: kok_def)
  define plen where "plen = unat (Get32 (drop pos ?I))"
  show ?case
  proof (cases "pos + HdrLen \<le> length ?I \<and> plen \<le> MaxPayload \<and> pos + HdrLen + plen \<le> length ?I \<and>
      pos + HdrLen < length ?I")
    case False
    have stop: "log_scan (length ?I - 1) ?I pos = []"
      using False by (subst log_scan.simps) (auto simp: Let_def plen_def [symmetric])
    show ?thesis
    proof (cases "pos + HdrLen \<le> length ?I")
      case no: False
      then have "replay_loop D (length ?I) hdr pos k = (Inr pos, k)" by (subst replay_loop.simps) simp
      then show ?thesis using dk stop by (intro exI [of _ "k_dev k"]) simp
    next
      case True
      from readAt_img [OF less.prems(1), of pos hdr] True less.prems(2) obtain d1 where
        d1: "readAt D pos hdr k = (Inr (window pos HdrLen ?I), k\<lparr>k_dev := d1\<rparr>)" "dok d1" "img d1 = ?I"
        by auto
      have h: "unat (Get32 (window pos HdrLen ?I)) = plen" by (simp add: plen_def window_def Get32_take)
      show ?thesis
      proof (cases "plen > MaxPayload \<or> pos + HdrLen + plen > length ?I")
        case bad: True
        with True d1 h stop show ?thesis by (subst replay_loop.simps) auto
      next
        case fits: False
        have "kok (k\<lparr>k_dev := d1\<rparr>)" using kok_dev less.prems(1) d1 by blast
        then have "readAt D (pos + HdrLen) (replicate plen 0) (k\<lparr>k_dev := d1\<rparr>) =
            (Inl ErrBeyondDevice, k\<lparr>k_dev := d1\<rparr>)"
          using readAt_end False True fits d1 by auto
        with True d1 h stop fits show ?thesis by (subst replay_loop.simps) auto
      qed
    qed
  next
    case ok: True
    from readAt_img [OF less.prems(1), of pos hdr] ok less.prems(2) obtain d1 where
      d1: "readAt D pos hdr k = (Inr (window pos HdrLen ?I), k\<lparr>k_dev := d1\<rparr>)" "dok d1" "img d1 = ?I"
      by auto
    have k1: "kok (k\<lparr>k_dev := d1\<rparr>)" using kok_dev less.prems(1) d1 by blast
    from readAt_img [OF k1, of "pos + HdrLen" "replicate plen 0"] ok d1 obtain d2 where
      d2: "readAt D (pos + HdrLen) (replicate plen 0) (k\<lparr>k_dev := d1\<rparr>) =
        (Inr (window (pos + HdrLen) plen ?I), k\<lparr>k_dev := d2\<rparr>)" "dok d2" "img d2 = ?I"
      by auto
    have k2: "kok (k\<lparr>k_dev := d2\<rparr>)" using kok_dev less.prems(1) d2 by blast
    have h: "unat (Get32 (window pos HdrLen ?I)) = plen" by (simp add: plen_def window_def Get32_take)
    let ?p = "window (pos + HdrLen) plen ?I"
    let ?t = "window pos HdrLen ?I ! 8"
    let ?good = "ChecksumIEEE ?p = Get32 (drop 4 (window pos HdrLen ?I))"
    have lf: "length (frame \<lparr>Type = ?t, Payload = ?p\<rparr>) = HdrLen + plen"
      using ok by simp
    have scan: "log_scan (length ?I - 1) ?I pos =
        (if ?good then \<lparr>Type = ?t, Payload = ?p\<rparr> # log_scan (length ?I - 1) ?I (pos + (HdrLen + plen)) else [])"
      using ok by (subst log_scan.simps)
        (auto simp: Let_def plen_def [symmetric] DecodeRecord_window [OF _ plen_def])
    have step: "replay_loop D (length ?I) hdr pos k =
        (if ?good then
           (case kfs_apply ?t ?p (k\<lparr>k_dev := d2\<rparr>) of
              Inl e \<Rightarrow> (Inl e, k\<lparr>k_dev := d2\<rparr>)
            | Inr (b, k) \<Rightarrow> if \<not> b then (Inr pos, k)
                else replay_loop D (length ?I) (window pos HdrLen ?I) (pos + (HdrLen + plen)) k)
         else (Inr pos, k\<lparr>k_dev := d2\<rparr>))"
      using ok d1(1) d2(1) h by (subst replay_loop.simps) simp
    show ?thesis
    proof (cases ?good)
      case False
      with step scan d2 show ?thesis by auto
    next
      case good: True
      show ?thesis
      proof (cases "kfs_apply ?t ?p k")
        case (Inl e)
        with good step scan d2 show ?thesis by (auto simp: kfs_apply_dev)
      next
        case (Inr x)
        obtain b k' where x: "x = (b, k')" by (cases x)
        have ap: "kfs_apply ?t ?p (k\<lparr>k_dev := d2\<rparr>) = Inr (b, k'\<lparr>k_dev := d2\<rparr>)"
          using Inr x by (simp add: kfs_apply_dev)
        have k3: "kok (k'\<lparr>k_dev := d2\<rparr>)" by (rule kok_apply [OF k2 ap])
        have "\<exists>d'. replay_loop D (length ?I) (window pos HdrLen ?I) (pos + (HdrLen + plen)) (k'\<lparr>k_dev := d2\<rparr>) =
            apsnd (\<lambda>k. k\<lparr>k_dev := d'\<rparr>)
             (apply_all (log_scan (length ?I - 1) ?I (pos + (HdrLen + plen))) (pos + (HdrLen + plen))
                (k'\<lparr>k_dev := d2\<rparr>)) \<and> dok d' \<and> img d' = ?I"
          using less.hyps [of "k'\<lparr>k_dev := d2\<rparr>" "pos + (HdrLen + plen)" "window pos HdrLen ?I"] ok d2 k3
          by auto
        then show ?thesis
          using good step scan d2 ap Inr x lf
          by (cases b) (auto simp: apply_all_dev apsnd_def map_prod_def split: prod.splits)
      qed
    qed
  qed
qed

text \<open>Mounting: the superblock decides, then the log rebuilds the tables from nothing.\<close>

lemma MountKFS_img:
  assumes "dok d" "512 \<le> length (img d)"
  obtains d' where "dok d'" "img d' = img d"
    "MountKFS D d =
      (if sb_ok (img d)
       then case mount_view (img d) d' of
           (Inl e, k) \<Rightarrow> Inl (e, d')
         | (Inr pos, k) \<Rightarrow> Inr (k\<lparr>k_wOff := pos\<rparr>)
       else Inl (ErrKFSBadSB, d'))"
proof -
  let ?I = "img d"
  have l: "length (replicate 512 (0 :: byte)) = 512" by simp
  from read_sector [OF assms(1) l, of 0] assms(2) obtain d1 where
    d1: "dRead D d 0 (replicate 512 0) = (Inr (window 0 512 ?I), d1)" "dok d1" "img d1 = ?I" by auto
  have w: "window 0 512 ?I = take 512 ?I" by (simp add: window_def)
  show ?thesis
  proof (cases "sb_ok ?I")
    case False
    with that [of d1] d1 show ?thesis
      by (auto simp: MountKFS_def geometry [OF assms(1)] w sb_ok_def Get32_take drop_take)
  next
    case True
    let ?k = "emptyKFS d1 (of_nat (length ?I div 512)) (take 512 ?I) 0"
    have "unat (of_nat (length ?I div 512) :: u64) * 512 = length ?I" by (rule unat_blocks [OF assms(1)])
    then have kk: "kok ?k" "k_dev ?k = d1" "k_logEnd ?k = length (img d1)" "k_wOff ?k = 512"
      using d1 assms(2) by (simp_all add: kok_def emptyKFS_def)
    from replay_loop_img [OF kk(1), of "replicate HdrLen 0" LogStart] obtain d2 where
      d2: "replay_loop D (length ?I) (replicate HdrLen 0) LogStart ?k =
        apsnd (\<lambda>k. k\<lparr>k_dev := d2\<rparr>) (apply_all (log_scan (length ?I - 1) ?I LogStart) LogStart ?k)"
      "dok d2" "img d2 = ?I" using kk d1 by auto
    have "?k\<lparr>k_dev := d2\<rparr> = emptyKFS d2 (of_nat (length ?I div 512)) (take 512 ?I) 0"
      by (simp add: emptyKFS_def)
    then have v: "apsnd (\<lambda>k. k\<lparr>k_dev := d2\<rparr>) (apply_all (log_scan (length ?I - 1) ?I LogStart) LogStart ?k) =
        mount_view ?I d2"
      by (simp add: mount_view_def flip: apply_all_dev)
    have m: "MountKFS D d = (case replay D ?k of (Inl e, k) \<Rightarrow> Inl (e, k_dev k) | (Inr _, k) \<Rightarrow> Inr k)"
      using True d1 by (simp add: MountKFS_def geometry [OF assms(1)] w sb_ok_def Get32_take drop_take)
    have r: "replay D ?k = sbind (mount_view ?I d2) (\<lambda>pos k. (Inr (), k\<lparr>k_wOff := pos\<rparr>))"
      using d2(1) kk d1 v by (simp add: replay_def)
    show ?thesis
      using that [of d2] True d2(2,3) m r mount_view_dev [of ?I d2]
      by (auto split: prod.splits sum.splits)
  qed
qed

end

end
