(* ===== verification/Fs_Kfs_Sync.thy ===== *)
theory Fs_Kfs_Sync
  imports Fs_Kfs_Log
begin

text \<open>
  Memory and log stay in step.  The guest's \<^verbatim>\<open>append\<close> is the host formatter's
  \<^verbatim>\<open>Append\<close>; \<^verbatim>\<open>committed k k0\<close> says that mounting the device of
  \<^term>\<open>k\<close> rebuilds the tables of \<^term>\<open>k0\<close>, and every successful operation that changes
  the tree keeps the two sets of tables equal.
\<close>

section \<open>The guest's append is the formatter's\<close>

definition fmt_of :: "'d KFS \<Rightarrow> 'd Formatter" where
  "fmt_of k = \<lparr>f_dev = k_dev k, f_logEnd = k_logEnd k, f_wOff = k_wOff k, f_recs = k_recs k,
     f_nextIno = k_nextIno k\<rparr>"

definition with_fmt :: "'d Formatter \<Rightarrow> 'd KFS \<Rightarrow> 'd KFS" where
  "with_fmt f k = k\<lparr>k_dev := f_dev f, k_wOff := f_wOff f, k_recs := f_recs f\<rparr>"

lemma with_fmt_of [simp]: "with_fmt (fmt_of k) k = k"
  by (simp add: fmt_of_def with_fmt_def)

lemma kfs_append_checkpoint:
  "isl (fst (kfs_append D RecCheckpoint p k)) = isl (fst (Append D RecCheckpoint p (fmt_of k))) \<and>
   snd (kfs_append D RecCheckpoint p k) = with_fmt (snd (Append D RecCheckpoint p (fmt_of k))) k"
proof -
  obtain r d where w: "writeAt D (k_wOff k) (EncodeRecord RecCheckpoint p) (k_dev k) = (r, d)" by fastforce
  show ?thesis
    using w by (subst (1 2) kfs_append.simps, subst (1 2) Append.simps, cases r)
      (simp_all add: fmt_of_def with_fmt_def Let_def)
qed

lemma kfs_append_Append:
  "isl (fst (kfs_append D t p k)) = isl (fst (Append D t p (fmt_of k))) \<and>
   snd (kfs_append D t p k) = with_fmt (snd (Append D t p (fmt_of k))) k"
proof (cases "t = RecCheckpoint")
  case False
  obtain r d where w: "writeAt D (k_wOff k) (EncodeRecord t p) (k_dev k) = (r, d)" by fastforce
  let ?k = "k\<lparr>k_dev := d, k_wOff := k_wOff k + (HdrLen + length p), k_recs := k_recs k + 1\<rparr>"
  have f: "fmt_of ?k = (fmt_of k)\<lparr>f_dev := d, f_wOff := k_wOff k + (HdrLen + length p), f_recs := k_recs k + 1\<rparr>"
    by (simp add: fmt_of_def)
  have c: "le32 n = CheckpointPayload n" for n by (simp add: CheckpointPayload_layout)
  show ?thesis
    using kfs_append_checkpoint [of D "CheckpointPayload (k_nextIno k)" ?k] False w
    by (subst (1 2) kfs_append.simps, subst (1 2) Append.simps, cases r)
       (simp_all add: f c Let_def, simp_all add: fmt_of_def with_fmt_def)
qed (simp add: kfs_append_checkpoint)

section \<open>The committed log\<close>

text \<open>\<^term>\<open>replays rs k0\<close>: the records rebuild \<^term>\<open>k0\<close> from empty tables, none refused.\<close>

definition replays :: "Record list \<Rightarrow> 'd KFS \<Rightarrow> bool" where
  "replays rs k0 \<longleftrightarrow>
     apply_all rs LogStart (emptyKFS (k_dev k0) (k_numBlocks k0) (k_logData k0) 0) =
       (Inr (LogStart + length (frames rs)), k0)"

lemma replays_append:
  assumes "replays rs k0" "apply_all ts (LogStart + length (frames rs)) k0 =
      (Inr (LogStart + length (frames rs) + length (frames ts)), k1)"
  shows "replays (rs @ ts) k1"
  using assms apply_all_frame [OF assms(2)] by (simp add: replays_def apply_all_append add.assoc)

text \<open>
  A data record in the shape \<^const>\<open>appendData\<close> gives it: exactly the announced bytes, ending
  in the lower half of the 64-bit range, or a truncation.
\<close>

definition data_fit :: "byte \<Rightarrow> bytes \<Rightarrow> bool" where
  "data_fit t p \<longleftrightarrow> (t = RecData \<longrightarrow>
     Get64 (drop 4 p) = TruncSentinel \<or>
     length p = 16 + unat (Get32 (drop 12 p)) \<and>
     unat (Get64 (drop 4 p)) + unat (Get32 (drop 12 p)) < 2 ^ 63)"

lemma data_fit_other: "t \<noteq> RecData \<Longrightarrow> data_fit t p"
  by (simp add: data_fit_def)

text \<open>A checkpoint that does not raise the next inode number is a no-op.\<close>

lemma apply_appended:
  assumes "kfs_apply t p k0 = Inr (True, k1)" "n \<le> k_nextIno k1"
  shows "apply_all (appended t p recs n) w k0 = (Inr (w + length (frames (appended t p recs n))), k1)"
proof -
  have "kfs_apply RecCheckpoint (CheckpointPayload n) k1 = Inr (True, k1)"
    using assms(2) by (simp add: kfs_apply_def apply_checkpoint_def CheckpointPayload_layout)
  then show ?thesis using assms(1) by (simp add: appended_def)
qed

lemma scan_zero_tail:
  assumes "drop w I = replicate n 0"
  shows "log_scan h I w = [] \<or> (\<exists>rs. log_scan h I w = zero_rec # rs)"
proof (cases "9 \<le> n \<and> w + HdrLen \<le> h")
  case True
  then have z: "drop w I = frame zero_rec @ replicate (n - 9) 0"
    using assms by (simp add: frame_zero_rec flip: replicate_add)
  show ?thesis using log_scan_frame [OF _ z, of h] True by (simp add: rec_ok_def zero_rec_def)
next
  case False
  have "length I - w = n" using arg_cong [OF assms, of length] by simp
  with False show ?thesis by (subst log_scan.simps) (auto simp: Let_def)
qed

text \<open>A tail in which a mount finds nothing to apply.\<close>

definition dead_tail :: "bytes \<Rightarrow> nat \<Rightarrow> bool" where
  "dead_tail I w \<longleftrightarrow> (case log_scan (length I - 1) I w of
      [] \<Rightarrow> True
    | r # _ \<Rightarrow> Type r \<notin> {RecInode, RecDirent, RecData, RecCheckpoint})"

lemma zero_dead_tail: "drop w I = replicate n 0 \<Longrightarrow> dead_tail I w"
  using scan_zero_tail [of w I n "length I - 1"] by (auto simp: dead_tail_def zero_rec_def)

lemma apply_dead_tail:
  "dead_tail I w \<Longrightarrow> apply_all (log_scan (length I - 1) I w) pos k = (Inr pos, k)"
  by (auto simp: dead_tail_def kfs_apply_def split: list.splits)

context block_device
begin

text \<open>The device of \<^term>\<open>k\<close> carries the log \<^term>\<open>rs\<close> up to the cursor, and zeros behind it.\<close>

definition logged :: "'d KFS \<Rightarrow> Record list \<Rightarrow> bool" where
  "logged k rs \<longleftrightarrow> kok k \<and> sb_ok (img (k_dev k)) \<and> holds_log (img (k_dev k)) rs (k_wOff k) \<and>
     list_all (\<lambda>r. Payload r \<noteq> []) rs \<and>
     (\<exists>n. drop (k_wOff k) (img (k_dev k)) = replicate n 0)"

definition committed :: "'d KFS \<Rightarrow> 'd KFS \<Rightarrow> bool" where
  "committed k k0 \<longleftrightarrow>
     (\<exists>rs. logged k rs \<and> replays rs k0 \<and> list_all (\<lambda>r. data_fit (Type r) (Payload r)) rs)"

lemma sb_ok_go_copy: "512 \<le> w \<Longrightarrow> w \<le> length I \<Longrightarrow> sb_ok (go_copy I w x) = sb_ok I"
proof -
  assume w: "512 \<le> w" "w \<le> length I"
  have t: "take 20 (go_copy I w x) = take 20 I" using w by (simp add: go_copy_def)
  have "take 4 xs = take 4 (take 20 xs)" "Get32 (drop 4 xs) = Get32 (drop 4 (take 20 xs))"
    "Get32 (drop 16 xs) = Get32 (drop 16 (take 20 xs))" for xs :: bytes
    by (simp_all add: drop_take Get32_take)
  then show ?thesis unfolding sb_ok_def by (metis t)
qed

lemma kfs_append_logged:
  assumes "logged k rs" "kfs_append D t p k = (Inr (), k')" "p \<noteq> []" "length p \<le> MaxPayload"
  shows "logged k' (rs @ appended t p (k_recs k) (k_nextIno k)) \<and> (\<exists>f. k' = with_fmt f k)"
proof -
  let ?f = "fmt_of k"
  let ?a = "appended t p (k_recs k) (k_nextIno k)"
  have k: "kok k" "sb_ok (img (k_dev k))" "holds_log (img (k_dev k)) rs (k_wOff k)"
    using assms(1) by (auto simp: logged_def)
  obtain n where z: "drop (k_wOff k) (img (k_dev k)) = replicate n 0"
    using assms(1) by (auto simp: logged_def)
  have f: "fok ?f" using k(1) by (simp add: fok_def kok_def fmt_of_def)
  have "isl (fst (Append D t p ?f)) = False" "k' = with_fmt (snd (Append D t p ?f)) k"
    using kfs_append_Append [of D t p k] assms(2) by simp_all
  then obtain f' where f': "Append D t p ?f = (Inr (), f')" "k' = with_fmt f' k"
    by (cases "Append D t p ?f"; cases "fst (Append D t p ?f)") auto
  have fits: "f_wOff ?f + length (frames (appended t p (f_recs ?f) (f_nextIno ?f))) \<le> f_logEnd ?f"
    by (rule Append_fits [OF f f'(1)])
  from Append_img [OF f fits] obtain d' where d':
    "f' = ?f\<lparr>f_dev := d', f_wOff := k_wOff k + length (frames ?a),
         f_recs := k_recs k + (if t = RecCheckpoint then 0 else 1)\<rparr>"
    "dok d'" "img d' = go_copy (img (k_dev k)) (k_wOff k) (frames ?a)"
    using f'(1) by (auto simp: fmt_of_def)
  have w: "512 \<le> k_wOff k" "k_wOff k + length (frames ?a) \<le> length (img (k_dev k))"
    using k fits by (auto simp: holds_log_def fmt_of_def kok_def)
  have "list_all rec_ok ?a" "list_all (\<lambda>r. Payload r \<noteq> []) ?a"
    using assms(3,4) by (simp_all add: appended_def rec_ok_def CheckpointPayload_layout le32_def)
  moreover have "drop (k_wOff k + length (frames ?a)) (img d') = replicate (n - length (frames ?a)) 0"
  proof -
    have "drop (k_wOff k + length (frames ?a)) (img d') = drop (length (frames ?a)) (drop (k_wOff k) (img (k_dev k)))"
      using w by (simp add: d'(3) go_copy_exact add.commute)
    then show ?thesis by (simp add: z)
  qed
  moreover have "kok k'"
  proof -
    have "length (k_logData k) \<le> 512" "k_logData k = take (length (k_logData k)) (img (k_dev k))"
      using k(1) by (simp_all add: kok_def)
    moreover have "take m (img d') = take m (img (k_dev k))" if "m \<le> 512" for m
      using that w by (simp add: d'(3) go_copy_def)
    ultimately show ?thesis
      using k(1) d' f'(2) w by (simp add: kok_def with_fmt_def)
  qed
  moreover have "sb_ok (img d')" using k(2) w sb_ok_go_copy [OF w(1)] by (simp add: d'(3))
  moreover have "k_dev k' = d'" "k_wOff k' = k_wOff k + length (frames ?a)"
    using d'(1) f'(2) by (simp_all add: with_fmt_def)
  ultimately show ?thesis
    using assms(1) holds_log_extend [OF k(3) w(2)] d'(3) f'(2)
    by (auto simp: logged_def)
qed

text \<open>One append commits one step of replay.\<close>

lemma commit:
  assumes "committed k k0" "kfs_append D t p k = (Inr (), k')" "p \<noteq> []" "length p \<le> MaxPayload"
    and "kfs_apply t p k0 = Inr (True, k1)" "k_nextIno k \<le> k_nextIno k1" "data_fit t p"
  shows "committed k' k1 \<and> (\<exists>f. k' = with_fmt f k)"
proof -
  obtain rs where rs: "logged k rs" "replays rs k0" "list_all (\<lambda>r. data_fit (Type r) (Payload r)) rs"
    using assms(1) by (auto simp: committed_def)
  have "replays (rs @ appended t p (k_recs k) (k_nextIno k)) k1"
    by (rule replays_append [OF rs(2) apply_appended [OF assms(5,6)]])
  moreover have "list_all (\<lambda>r. data_fit (Type r) (Payload r)) (rs @ appended t p (k_recs k) (k_nextIno k))"
    using rs(3) assms(7) by (simp add: appended_def data_fit_other)
  ultimately show ?thesis using kfs_append_logged [OF rs(1) assms(2-4)] by (auto simp: committed_def)
qed

text \<open>Mounting a device that holds a log replays its records, whatever they do.\<close>

lemma holds_mount:
  assumes "dok d" "sb_ok (img d)" "holds_log (img d) rs w" "list_all (\<lambda>r. Payload r \<noteq> []) rs"
    "dead_tail (img d) w"
  obtains d' nb b where "dok d'" "img d' = img d" "unat nb * 512 = length (img d)"
    "b = take 512 (img d)"
    "MountKFS D d = (case apply_all rs LogStart (emptyKFS d' nb b 0) of
        (Inl e, k) \<Rightarrow> Inl (e, d') | (Inr pos, k) \<Rightarrow> Inr (k\<lparr>k_wOff := pos\<rparr>))"
proof -
  let ?I = "img d"
  have w: "w = LogStart + length (frames rs)" "w \<le> length ?I"
    using assms(3) by (simp_all add: holds_log_def)
  from MountKFS_img [of d] assms(1,2) w obtain d' where d': "dok d'" "img d' = ?I"
    "MountKFS D d = (case mount_view ?I d' of
        (Inl e, k) \<Rightarrow> Inl (e, d') | (Inr pos, k) \<Rightarrow> Inr (k\<lparr>k_wOff := pos\<rparr>))"
    by auto
  define nb where "nb = (of_nat (length ?I div 512) :: u64)"
  have nb: "unat nb * 512 = length ?I" using unat_blocks [OF assms(1)] by (simp add: nb_def)
  have "log_scan (length ?I - 1) ?I LogStart = rs @ log_scan (length ?I - 1) ?I w"
    using assms(4) by (intro holds_log_scan [OF assms(3)]) linarith
  then have "mount_view ?I d' = apply_all rs LogStart (emptyKFS d' nb (take 512 ?I) 0)"
    using w(1) apply_dead_tail [OF assms(5)]
    by (auto simp: mount_view_def apply_all_append nb_def [symmetric] split: prod.split sum.split)
  then show ?thesis using that [of d' nb "take 512 ?I"] d' nb by simp
qed

lemma logged_mount:
  assumes "logged k rs"
  obtains d' nb b where "dok d'" "img d' = img (k_dev k)" "unat nb * 512 = length (img (k_dev k))"
    "b = take 512 (img (k_dev k))"
    "MountKFS D (k_dev k) = (case apply_all rs LogStart (emptyKFS d' nb b 0) of
        (Inl e, k) \<Rightarrow> Inl (e, d') | (Inr pos, k) \<Rightarrow> Inr (k\<lparr>k_wOff := pos\<rparr>))"
proof -
  obtain n where "drop (k_wOff k) (img (k_dev k)) = replicate n 0" using assms by (auto simp: logged_def)
  then have "dead_tail (img (k_dev k)) (k_wOff k)" by (rule zero_dead_tail)
  moreover have "dok (k_dev k)" "sb_ok (img (k_dev k))" "holds_log (img (k_dev k)) rs (k_wOff k)"
    "list_all (\<lambda>r. Payload r \<noteq> []) rs" using assms by (simp_all add: logged_def kok_def)
  ultimately show ?thesis by (rule_tac holds_mount [OF _ _ _ _ _ that])
qed

text \<open>Mounting the device of a committed state gives the replayed tables and the same cursor.\<close>

lemma replays_geom:
  assumes "replays rs k0"
  shows "apply_all rs LogStart (emptyKFS d nb b 0) =
    (Inr (LogStart + length (frames rs)), geom d nb b (unat nb * 512) k0)"
  using apply_all_geom [of rs LogStart d nb b "unat nb * 512"
      "emptyKFS (k_dev k0) (k_numBlocks k0) (k_logData k0) 0"] assms
  by (simp add: replays_def) (simp add: emptyKFS_def geom_def)

lemma committed_mount:
  assumes "committed k k0"
  obtains k1 where "MountKFS D (k_dev k) = Inr k1" "kok k1" "img (k_dev k1) = img (k_dev k)"
    "k_wOff k1 = k_wOff k" "k_inodes k1 = k_inodes k0" "k_children k1 = k_children k0"
    "k_dirents k1 = k_dirents k0" "k_nextIno k1 = k_nextIno k0" "k_data k1 = k_data k0"
proof -
  obtain rs where rs: "logged k rs" "replays rs k0" using assms by (auto simp: committed_def)
  from logged_mount [OF rs(1)] obtain d' nb b where d': "dok d'" "img d' = img (k_dev k)"
    "unat nb * 512 = length (img (k_dev k))" "b = take 512 (img (k_dev k))"
    "MountKFS D (k_dev k) = (case apply_all rs LogStart (emptyKFS d' nb b 0) of
        (Inl e, k) \<Rightarrow> Inl (e, d') | (Inr pos, k) \<Rightarrow> Inr (k\<lparr>k_wOff := pos\<rparr>))" .
  let ?k1 = "(geom d' nb b (unat nb * 512) k0)\<lparr>k_wOff := LogStart + length (frames rs)\<rparr>"
  have "MountKFS D (k_dev k) = Inr ?k1" using d'(5) replays_geom [OF rs(2), of d' nb b] by simp
  then show ?thesis
    by (rule that) (use d'(1-4) rs(1) in \<open>simp_all add: kok_def geom_def logged_def holds_log_def\<close>)
qed

text \<open>A record the replay refuses hides itself and everything behind it; one it panics on stops the mount.\<close>

lemma refused_mount:
  fixes k0 :: "'d KFS"
  assumes "logged k (rs @ r # ts)" "replays rs k0" "kfs_apply (Type r) (Payload r) k0 = Inr (False, k0)"
  obtains k1 where "MountKFS D (k_dev k) = Inr k1" "k_wOff k1 = LogStart + length (frames rs)"
    "k_inodes k1 = k_inodes k0" "k_children k1 = k_children k0"
    "k_dirents k1 = k_dirents k0" "k_nextIno k1 = k_nextIno k0" "k_data k1 = k_data k0"
proof -
  from logged_mount [OF assms(1)] obtain d' nb b where
    d': "MountKFS D (k_dev k) = (case apply_all (rs @ r # ts) LogStart (emptyKFS d' nb b 0) of
        (Inl e, k) \<Rightarrow> Inl (e, d') | (Inr pos, k) \<Rightarrow> Inr (k\<lparr>k_wOff := pos\<rparr>))" by metis
  have "kfs_apply (Type r) (Payload r) (geom d' nb b (unat nb * 512) k0) =
      Inr (False, geom d' nb b (unat nb * 512) k0)"
    by (simp add: kfs_apply_geom assms(3))
  then show ?thesis
    using that [of "(geom d' nb b (unat nb * 512) k0)\<lparr>k_wOff := LogStart + length (frames rs)\<rparr>"]
      d' replays_geom [OF assms(2), of d' nb b] by (simp add: apply_all_append geom_select)
qed

lemma panicking_mount:
  fixes k0 :: "'d KFS"
  assumes "logged k (rs @ r # ts)" "replays rs k0" "kfs_apply (Type r) (Payload r) k0 = Inl e"
  shows "\<exists>d'. MountKFS D (k_dev k) = Inl (e, d')"
proof -
  from logged_mount [OF assms(1)] obtain d' nb b where
    d': "MountKFS D (k_dev k) = (case apply_all (rs @ r # ts) LogStart (emptyKFS d' nb b 0) of
        (Inl e, k) \<Rightarrow> Inl (e, d') | (Inr pos, k) \<Rightarrow> Inr (k\<lparr>k_wOff := pos\<rparr>))" by metis
  have "kfs_apply (Type r) (Payload r) (geom d' nb b (unat nb * 512) k0) = Inl e"
    by (simp add: kfs_apply_geom assms(3))
  then show ?thesis
    using d' replays_geom [OF assms(2), of d' nb b] by (simp add: apply_all_append)
qed

end

end
