(* ===== verification/Fs_Kfs_Ops.thy ===== *)
theory Fs_Kfs_Ops
  imports Fs_Kfs_Sync
begin

text \<open>
  Every tree-changing operation of the guest filesystem against the log: what each record it
  writes does at the next mount, the well-formedness of the tables, and that memory and log
  agree after every operation that succeeds.
\<close>

section \<open>What the logged payloads do at mount\<close>

lemma kfsInodePayload_layout:
  "kfsInodePayload nd = le32 (i_ino nd) @ le32 (i_uid nd) @ [i_kind nd] @ le32 (i_size nd)"
  by (simp add: kfsInodePayload_def Put32_def go_copy_def le32_def eval_nat_numeral)

definition put_inode :: "kfsInode \<Rightarrow> 'd KFS \<Rightarrow> 'd KFS" where
  "put_inode nd k =
     (let k = k\<lparr>k_inodes := (k_inodes k)(i_ino nd \<mapsto> nd),
               k_nextIno := (if k_nextIno k \<le> i_ino nd then i_ino nd + 1 else k_nextIno k)\<rparr>
      in if i_kind nd = KindDir \<and> k_children k (i_ino nd) = None
         then k\<lparr>k_children := (k_children k)(i_ino nd \<mapsto> [])\<rparr> else k)"

lemma apply_inode_payload:
  "kfs_apply RecInode (kfsInodePayload nd) k = Inr (True, put_inode nd k)"
  by (cases nd)
     (simp add: kfs_apply_def apply_inode_def kfsInodePayload_layout nth_append put_inode_def Let_def)

lemma LStr_AppendLStr:
  "length s < 65536 \<Longrightarrow> LStr (AppendLStr dst s @ rest) (length dst) = Some (s, length dst + 2 + length s)"
  by (simp add: LStr_def AppendLStr_def window_def unat_of_nat take_bit_eq_mod)

lemma apply_dirent_payload:
  assumes "length name < 65536"
  shows "kfs_apply RecDirent (AppendLStr (le32 parent @ [0]) name @ le32 ino) k =
    Inr (True, link_dirent parent name ino k)"
proof -
  let ?p = "AppendLStr (le32 parent @ [0]) name @ le32 ino"
  have "LStr ?p 5 = Some (name, 7 + length name)"
    using LStr_AppendLStr [OF assms, of "le32 parent @ [0]" "le32 ino"] by simp
  moreover have "length (AppendLStr (le32 parent @ [0]) name) = 7 + length name"
    by (simp add: AppendLStr_def)
  then have "drop (7 + length name) ?p = le32 ino" by (metis append_eq_conv_conj)
  moreover have "length ?p = 11 + length name" "Get32 ?p = parent" "?p ! 4 = 0"
    by (simp_all add: AppendLStr_def nth_append)
  ultimately show ?thesis by (simp add: kfs_apply_def apply_dirent_def)
qed

text \<open>A delete record, as \<^const>\<open>appendDirentDelete\<close> writes it, is refused.\<close>

lemma apply_delete_payload:
  assumes "length name < 65536"
  shows "kfs_apply RecDirent (AppendLStr (le32 parent @ [1]) name) k = Inr (False, k)"
proof -
  let ?p = "AppendLStr (le32 parent @ [1]) name"
  have "LStr ?p 5 = Some (name, 7 + length name)"
    using LStr_AppendLStr [OF assms, of "le32 parent @ [1]" "[]"] by simp
  moreover have "length ?p = 7 + length name" by (simp add: AppendLStr_def)
  ultimately show ?thesis by (simp add: kfs_apply_def apply_dirent_def)
qed

text \<open>Writing bytes at an offset, the hole before them filled with zeros.\<close>

definition splice :: "bytes \<Rightarrow> nat \<Rightarrow> bytes \<Rightarrow> bytes" where
  "splice buf off data = go_copy (buf @ replicate (off + length data - length buf) 0) off data"

lemma length_splice [simp]: "length (splice buf off data) = max (length buf) (off + length data)"
  by (simp add: splice_def)

definition data_pl :: "u32 \<Rightarrow> u64 \<Rightarrow> bytes \<Rightarrow> bytes" where
  "data_pl ino off data = le32 ino @ le64 off @ le32 (of_nat (length data)) @ data"

lemma appendData_pl: "appendData D ino off data k = kfs_append D RecData (data_pl ino off data) k"
  using DataPayload_layout [of ino off data]
  by (simp add: appendData_def DataPayload_def data_pl_def)

lemma data_pl_fields:
  assumes "length data \<le> MaxPayload"
  shows "length (data_pl ino off data) = 16 + length data" "Get32 (data_pl ino off data) = ino"
    "Get64 (drop 4 (data_pl ino off data)) = off"
    "unat (Get32 (drop 12 (data_pl ino off data))) = length data"
    "drop 16 (data_pl ino off data) = data"
  using assms by (simp_all add: data_pl_def unat_u32_of_nat)

lemma data_fit_pl:
  "length data \<le> MaxPayload \<Longrightarrow> unat off + length data < 2 ^ 63 \<Longrightarrow> data_fit t (data_pl ino off data)"
  by (simp add: data_fit_def data_pl_fields)

lemma apply_data_fit:
  assumes "length p = 16 + unat (Get32 (drop 12 p))" "Get64 (drop 4 p) \<noteq> TruncSentinel"
    "unat (Get64 (drop 4 p)) + unat (Get32 (drop 12 p)) < 2 ^ 63"
  shows "kfs_apply RecData p k = Inr (True, k\<lparr>k_data := (k_data k)(Get32 p \<mapsto>
    splice (data_of k (Get32 p)) (unat (Get64 (drop 4 p))) (drop 16 p))\<rparr>)"
proof -
  define off where "off = Get64 (drop 4 p)"
  define dlen where "dlen = unat (Get32 (drop 12 p))"
  note h = assms [folded off_def dlen_def]
  have "unat (off + of_nat dlen) = unat off + dlen"
    using h(3) by (simp add: unat_word_ariths unat_of_nat)
  then have "sint (off + of_nat dlen) = int (unat off + dlen)"
    using h(3) by (subst sint_small) simp_all
  then have "nat (sint (off + of_nat dlen)) = unat off + dlen" by linarith
  then show ?thesis
    using h by (simp add: kfs_apply_def apply_data_def splice_def Let_def off_def [symmetric] dlen_def [symmetric])
qed

lemma apply_data_payload:
  assumes "length data \<le> MaxPayload" "unat off + length data < 2 ^ 63"
  shows "kfs_apply RecData (data_pl ino off data) k =
    Inr (True, k\<lparr>k_data := (k_data k)(ino \<mapsto> splice (data_of k ino) (unat off) data)\<rparr>)"
proof -
  have "off \<noteq> TruncSentinel"
    using assms(2) by (auto simp: TruncSentinel_def unsigned_minus_1_eq_mask mask_eq_exp_minus_1)
  then show ?thesis
    using apply_data_fit [of "data_pl ino off data" k] assms by (simp add: data_pl_fields)
qed

lemma data_fit_trunc: "data_fit RecData (le32 ino @ le64 TruncSentinel @ le32 0)"
  by (simp add: data_fit_def)

lemma apply_trunc_payload:
  "kfs_apply RecData (le32 ino @ le64 TruncSentinel @ le32 0) k = Inr (True, k\<lparr>k_data := (k_data k)(ino \<mapsto> [])\<rparr>)"
  by (simp add: kfs_apply_def apply_data_def)

text \<open>An offset in the upper half of the 64-bit range, the sentinel apart, panics.\<close>

lemma apply_data_panic:
  assumes "length data \<le> MaxPayload" "2 ^ 63 \<le> unat off" "off \<noteq> TruncSentinel"
    "length (data_of k ino) < 2 ^ 63" "unat off + length data < 2 ^ 64"
  shows "kfs_apply RecData (data_pl ino off data) k = Inl GoPanic"
proof -
  have u: "unat (off + of_nat (length data)) = unat off + length data"
    using assms(5) by (simp add: unat_word_ariths unat_of_nat)
  then have "sint (off + of_nat (length data)) < 0"
    using assms(2) by (intro sint_big) simp
  then show ?thesis
    using assms by (simp add: kfs_apply_def apply_data_def data_pl_fields Let_def)
qed

section \<open>Well-formed tables\<close>

text \<open>
  Inodes sit under their own number below the next free one, directories have a child list,
  child lists index the entry table, and the root is a directory.
\<close>

definition wf_tables :: "'d KFS \<Rightarrow> bool" where
  "wf_tables k \<longleftrightarrow>
     (\<forall>ino nd. k_inodes k ino = Some nd \<longrightarrow>
        i_ino nd = ino \<and> ino < k_nextIno k \<and> (i_kind nd = KindDir \<longrightarrow> k_children k ino \<noteq> None)) \<and>
     (\<forall>p is. k_children k p = Some is \<longrightarrow>
        p < k_nextIno k \<and> (\<forall>i \<in> set is. i < length (k_dirents k))) \<and>
     (\<exists>nd. k_inodes k RootIno = Some nd \<and> i_kind nd = KindDir)"

definition same_tables :: "'d KFS \<Rightarrow> 'd KFS \<Rightarrow> bool" where
  "same_tables k k' \<longleftrightarrow> k_inodes k = k_inodes k' \<and> k_children k = k_children k' \<and>
     k_dirents k = k_dirents k' \<and> k_nextIno k = k_nextIno k'"

lemma wf_inodeD:
  "wf_tables k \<Longrightarrow> k_inodes k ino = Some nd \<Longrightarrow>
     i_ino nd = ino \<and> ino < k_nextIno k \<and> (i_kind nd = KindDir \<longrightarrow> k_children k ino \<noteq> None)"
  by (simp add: wf_tables_def)

lemma wf_childD:
  "wf_tables k \<Longrightarrow> k_children k p = Some is \<Longrightarrow> p < k_nextIno k \<and> (\<forall>i \<in> set is. i < length (k_dirents k))"
  by (simp add: wf_tables_def)

lemma walkParent_loop_dir:
  assumes "wf_tables k" "walkParent_loop k cur parts = Inr p" "\<exists>nd. k_inodes k cur = Some nd \<and> i_kind nd = KindDir"
  shows "\<exists>nd. k_inodes k p = Some nd \<and> i_kind nd = KindDir"
  using assms(2,3)
  by (induction parts arbitrary: cur) (auto simp: Let_def split: option.splits if_splits)

lemma length_split_on: "p \<in> set (split_on sep xs) \<Longrightarrow> length p \<le> length xs"
  by (induction xs arbitrary: p) (fastforce split: if_splits list.splits)+

lemma splitPath_loop_set: "splitPath_loop out ps = Inr qs \<Longrightarrow> set qs \<subseteq> set out \<union> set ps"
  by (induction ps arbitrary: out) (fastforce split: if_splits)+

lemma splitPath_length: "splitPath path = Inr parts \<Longrightarrow> p \<in> set parts \<Longrightarrow> length p < length path"
proof -
  assume a: "splitPath path = Inr parts" "p \<in> set parts"
  then have "path \<noteq> []" "p \<in> set (split_on slash (tl path))"
    using splitPath_loop_set [of "[]" _ parts] by (auto simp: splitPath_def split: if_splits)
  then show ?thesis using length_split_on [of p slash "tl path"] by (cases path) auto
qed

text \<open>The parent a path resolves to is a directory, hence has a child list.\<close>

lemma walkParent_dir:
  assumes "wf_tables k" "walkParent k path = Inr (p, leaf)"
  shows "\<exists>nd. k_inodes k p = Some nd \<and> i_kind nd = KindDir" "length leaf < length path"
proof -
  obtain parts where sp: "splitPath path = Inr parts" "parts \<noteq> []"
      "walkParent_loop k RootIno (butlast parts) = Inr p" "leaf = last parts"
    using assms(2) by (auto simp: walkParent_def split: sum.splits if_splits)
  show "\<exists>nd. k_inodes k p = Some nd \<and> i_kind nd = KindDir"
    using assms(1) by (intro walkParent_loop_dir [OF assms(1) sp(3)]) (simp add: wf_tables_def)
  show "length leaf < length path" using sp splitPath_length by simp
qed

text \<open>The frame of an append.\<close>

lemma with_fmt_select [simp]:
  "k_inodes (with_fmt f k) = k_inodes k" "k_children (with_fmt f k) = k_children k"
  "k_dirents (with_fmt f k) = k_dirents k" "k_data (with_fmt f k) = k_data k"
  "k_nextIno (with_fmt f k) = k_nextIno k" "children_of (with_fmt f k) = children_of k"
  "data_of (with_fmt f k) = data_of k"
  by (simp_all add: with_fmt_def children_of_def data_of_def fun_eq_iff)

lemma wf_with_fmt [simp]: "wf_tables (with_fmt f k) = wf_tables k"
  by (simp add: wf_tables_def)

lemma wf_cong: "same_tables k k' \<Longrightarrow> wf_tables k = wf_tables k'"
  by (simp add: wf_tables_def same_tables_def)

text \<open>\<^verbatim>\<open>committed\<close> looks at the log side of the state only.\<close>

context block_device
begin

lemma committed_log_side:
  assumes "committed k k0" "k_dev k' = k_dev k" "k_wOff k' = k_wOff k" "k_logEnd k' = k_logEnd k"
    "k_numBlocks k' = k_numBlocks k" "k_logData k' = k_logData k"
  shows "committed k' k0"
  using assms by (simp add: committed_def logged_def kok_def)

end

section \<open>Memory and log agree\<close>

text \<open>The first \<^term>\<open>n\<close> bytes of a file whose written part is \<^term>\<open>b\<close>.\<close>

definition content :: "bytes \<Rightarrow> nat \<Rightarrow> bytes" where
  "content b n = take n (b @ replicate n 0)"

text \<open>A cached file that covers its size holds what the log says.\<close>

definition coherent :: "'d KFS \<Rightarrow> 'd KFS \<Rightarrow> bool" where
  "coherent k k0 \<longleftrightarrow> (\<forall>ino nd. k_inodes k ino = Some nd \<longrightarrow>
     unat (i_size nd) \<le> length (data_of k ino) \<longrightarrow>
     take (unat (i_size nd)) (data_of k ino) = content (data_of k0 ino) (unat (i_size nd)))"

lemma coherentD:
  "coherent k k0 \<Longrightarrow> k_inodes k ino = Some nd \<Longrightarrow> unat (i_size nd) \<le> length (data_of k ino) \<Longrightarrow>
     take (unat (i_size nd)) (data_of k ino) = content (data_of k0 ino) (unat (i_size nd))"
  by (simp add: coherent_def)

lemma next_ino_less:
  "(n :: u32) \<noteq> NOT 0 \<Longrightarrow> n < n + 1"
proof -
  assume "n \<noteq> NOT 0"
  moreover have "n = - 1" if "1 + n = 0" using that by (metis add.commute eq_neg_iff_add_eq_0)
  ultimately have "1 + n \<noteq> 0" by auto
  then have "unat (1 + n) = Suc (unat n)" by (rule unatSuc)
  then show ?thesis by (simp add: word_less_nat_alt add.commute)
qed

text \<open>A new entry in memory: the fresh inode, its directory entry, an empty child list for a directory.\<close>

definition new_entry :: "u32 \<Rightarrow> bytes \<Rightarrow> kfsInode \<Rightarrow> 'd KFS \<Rightarrow> 'd KFS" where
  "new_entry p leaf nd k =
     (let k = set_inode nd (link_dirent p leaf (i_ino nd) (k\<lparr>k_nextIno := i_ino nd + 1\<rparr>))
      in if i_kind nd = KindDir then k\<lparr>k_children := (k_children k)(i_ino nd \<mapsto> [])\<rparr> else k)"

lemma wf_fresh:
  assumes "wf_tables k"
  shows "k_inodes k (k_nextIno k) = None" "k_children k (k_nextIno k) = None"
  using assms unfolding wf_tables_def by (metis less_irrefl option.exhaust)+

lemma new_entry_tables:
  assumes "wf_tables k" "same_tables k0 k" "k_children k p \<noteq> None" "i_ino nd = k_nextIno k"
  shows "same_tables (link_dirent p leaf (i_ino nd) (put_inode nd k0)) (new_entry p leaf nd k)"
proof -
  have "p < k_nextIno k" using assms(1,3) wf_childD by blast
  then have "p \<noteq> k_nextIno k" by simp
  then show ?thesis
    using assms wf_fresh [OF assms(1)]
    by (auto simp: same_tables_def new_entry_def put_inode_def link_dirent_def set_inode_def
        children_of_def Let_def fun_eq_iff split: option.splits)
qed

lemma new_entry_wf:
  assumes "wf_tables k" "k_children k p \<noteq> None" "i_ino nd = k_nextIno k" "k_nextIno k \<noteq> NOT 0"
  shows "wf_tables (new_entry p leaf nd k)"
proof -
  let ?k = "new_entry p leaf nd k" and ?n = "k_nextIno k"
  have n: "?n < ?n + 1" "x < ?n \<Longrightarrow> x < ?n + 1" for x
    using next_ino_less [OF assms(4)] by (auto intro: less_trans)
  have p: "p < ?n" using assms(1,2) wf_childD by blast
  have i: "k_inodes ?k = (k_inodes k)(?n \<mapsto> nd)" "k_nextIno ?k = ?n + 1"
    "k_dirents ?k = k_dirents k @ [\<lparr>d_parent = p, d_name = leaf, d_ino = ?n, d_dead = False\<rparr>]"
    using assms(3) by (simp_all add: new_entry_def set_inode_def link_dirent_def Let_def)
  have c: "k_children ?k q = (if q = p then Some (children_of k p @ [length (k_dirents k)])
      else if q = ?n \<and> i_kind nd = KindDir then Some [] else k_children k q)" for q
    using assms(3) p by (auto simp: new_entry_def set_inode_def link_dirent_def Let_def children_of_def)
  have root: "\<exists>nd. k_inodes k RootIno = Some nd \<and> i_kind nd = KindDir" "RootIno < ?n"
    using assms(1) by (auto simp: wf_tables_def)
  have ch: "\<forall>i \<in> set (children_of k p). i < length (k_dirents k)"
    using assms(1,2) by (auto simp: children_of_def dest: wf_childD)
  have kids: "\<forall>i \<in> set is. i < length (k_dirents k)" if "k_children k q = Some is" for q "is"
    using assms(1) that wf_childD by blast
  show ?thesis
    unfolding wf_tables_def i c
  proof (intro conjI allI impI, goal_cases)
    case (1 ino nd') then show ?case using assms(1,3) by (auto split: if_splits dest: wf_inodeD)
  next
    case (2 ino nd') then show ?case using assms(1) n by (auto split: if_splits dest: wf_inodeD)
  next
    case (3 ino nd') then show ?case using assms(1) by (auto split: if_splits dest: wf_inodeD)
  next
    case (4 q "is") then show ?case using assms(1) p n by (auto split: if_splits dest: wf_childD)
  next
    case (5 q "is") then show ?case using kids ch by (fastforce split: if_splits)
  next
    case 6 then show ?case using root by auto
  qed
qed

lemma same_tables_simps:
  "same_tables k0 k \<Longrightarrow> k_inodes k0 = k_inodes k" "same_tables k0 k \<Longrightarrow> k_children k0 = k_children k"
  "same_tables k0 k \<Longrightarrow> k_dirents k0 = k_dirents k" "same_tables k0 k \<Longrightarrow> k_nextIno k0 = k_nextIno k"
  by (simp_all add: same_tables_def)

text \<open>Rewriting an inode that is already there moves neither the child lists nor the next number.\<close>

lemma put_inode_known:
  assumes "wf_tables k" "same_tables k0 k" "k_inodes k ino = Some nd" "i_ino nd' = ino" "i_kind nd' = i_kind nd"
  shows "put_inode nd' k0 = k0\<lparr>k_inodes := (k_inodes k0)(ino \<mapsto> nd')\<rparr>"
  using assms wf_inodeD [OF assms(1,3)] by (auto simp: put_inode_def same_tables_def Let_def not_le)

lemma wf_set_known:
  assumes "wf_tables k" "k_inodes k ino = Some nd" "i_ino nd' = ino" "i_kind nd' = i_kind nd"
  shows "wf_tables (k\<lparr>k_inodes := (k_inodes k)(ino \<mapsto> nd')\<rparr>)"
  using assms by (auto simp: wf_tables_def)

context block_device
begin

definition synced_with :: "'d KFS \<Rightarrow> 'd KFS \<Rightarrow> bool" where
  "synced_with k k0 \<longleftrightarrow> wf_tables k \<and> committed k k0 \<and> same_tables k0 k \<and> coherent k k0"

lemma appendDirent_commit:
  assumes "committed k k0" "appendDirent D p leaf ino k = (Inr (), k')" "length leaf < 65520"
    "k_nextIno k \<le> k_nextIno k0"
  shows "\<exists>f. k' = link_dirent p leaf ino (with_fmt f k) \<and> committed k' (link_dirent p leaf ino k0)"
proof -
  let ?p = "AppendLStr (le32 p @ [0]) leaf @ le32 ino"
  obtain k1 where k1: "kfs_append D RecDirent ?p k = (Inr (), k1)" "k' = link_dirent p leaf ino k1"
    using assms(2) by (auto simp: appendDirent_def sbind_eq_Inr)
  have "?p \<noteq> []" "length ?p \<le> MaxPayload" "k_nextIno k \<le> k_nextIno (link_dirent p leaf ino k0)"
    using assms(3,4) by (simp_all add: AppendLStr_def link_dirent_def le32_def)
  from commit [OF assms(1) k1(1) this(1,2) apply_dirent_payload this(3) data_fit_other] assms(3)
  obtain f where f: "committed k1 (link_dirent p leaf ino k0)" "k1 = with_fmt f k" by auto
  have "committed k' (link_dirent p leaf ino k0)"
    by (rule committed_log_side [OF f(1)]) (simp_all add: k1(2) link_dirent_def)
  with f k1(2) show ?thesis by auto
qed

text \<open>An inode record followed by its directory entry, the body \<^verbatim>\<open>Create\<close> and \<^verbatim>\<open>Mkdir\<close> share.\<close>

lemma new_entry_commit:
  assumes "synced_with k k0" "k_nextIno k \<noteq> NOT 0" "k_children k p \<noteq> None" "length leaf < 65520"
    and nd: "i_ino nd = k_nextIno k" "i_size nd = 0"
    and a1: "kfs_append D RecInode (kfsInodePayload nd) (k\<lparr>k_nextIno := k_nextIno k + 1\<rparr>) = (Inr (), k1)"
    and a2: "appendDirent D p leaf (k_nextIno k) k1 = (Inr (), k2)"
  shows "\<exists>f. k2 = link_dirent p leaf (i_ino nd) (with_fmt f (k\<lparr>k_nextIno := k_nextIno k + 1\<rparr>)) \<and>
     committed k2 (link_dirent p leaf (i_ino nd) (put_inode nd k0))"
proof -
  have k: "wf_tables k" "committed k k0" "same_tables k0 k"
    using assms(1) by (simp_all add: synced_with_def)
  have c: "committed (k\<lparr>k_nextIno := k_nextIno k + 1\<rparr>) k0"
    by (rule committed_log_side [OF k(2)]) simp_all
  have n: "k_nextIno (put_inode nd k0) = k_nextIno k + 1"
    using nd(1) k(3) by (simp add: put_inode_def same_tables_def Let_def)
  have "kfsInodePayload nd \<noteq> []" "length (kfsInodePayload nd) \<le> MaxPayload"
    by (simp_all add: kfsInodePayload_layout le32_def)
  from commit [OF c a1 this apply_inode_payload _ data_fit_other] n
  obtain f1 where f1: "committed k1 (put_inode nd k0)" "k1 = with_fmt f1 (k\<lparr>k_nextIno := k_nextIno k + 1\<rparr>)"
    by auto
  from appendDirent_commit [OF f1(1) a2 assms(4)] f1(2) n
  obtain f2 where "k2 = link_dirent p leaf (k_nextIno k) (with_fmt f2 k1)"
    "committed k2 (link_dirent p leaf (k_nextIno k) (put_inode nd k0))" by auto
  with f1(2) nd(1) show ?thesis by (auto simp: with_fmt_def)
qed

lemma Mkdir_synced:
  assumes "synced_with k k0" "Mkdir D path k = (Inr (), k')"
    "k_nextIno k \<noteq> NOT 0" "length path \<le> 65520"
  obtains p leaf where "walkParent k path = Inr (p, leaf)" "findDirent k p leaf = None"
    "synced_with k' (link_dirent p leaf (k_nextIno k)
       (put_inode \<lparr>i_ino = k_nextIno k, i_uid = 0, i_kind = KindDir, i_size = 0\<rparr> k0))"
    "same_tables k' (new_entry p leaf \<lparr>i_ino = k_nextIno k, i_uid = 0, i_kind = KindDir, i_size = 0\<rparr> k)"
proof -
  let ?nd = "\<lparr>i_ino = k_nextIno k, i_uid = 0, i_kind = KindDir, i_size = 0\<rparr>"
  have k: "wf_tables k" "same_tables k0 k" "coherent k k0"
    using assms(1) by (simp_all add: synced_with_def)
  obtain p leaf k1 k2 where w: "walkParent k path = Inr (p, leaf)" "findDirent k p leaf = None"
    and a1: "kfs_append D RecInode (kfsInodePayload ?nd) (k\<lparr>k_nextIno := k_nextIno k + 1\<rparr>) = (Inr (), k1)"
    and a2: "appendDirent D p leaf (k_nextIno k) k1 = (Inr (), k2)"
    and k': "k' = (set_inode ?nd k2)\<lparr>k_children := (k_children k2)(k_nextIno k \<mapsto> [])\<rparr>"
    using assms(2)
    by (auto simp: Mkdir_def allocIno_def sbind_eq_Inr set_inode_def Let_def split: sum.splits if_splits)
  have p: "k_children k p \<noteq> None" "length leaf < 65520"
    using walkParent_dir [OF k(1) w(1)] wf_inodeD [OF k(1)] assms(4) by fastforce+
  from new_entry_commit [OF assms(1,3) p _ _ a1 a2] obtain f where
    f: "k2 = link_dirent p leaf (k_nextIno k) (with_fmt f (k\<lparr>k_nextIno := k_nextIno k + 1\<rparr>))"
      "committed k2 (link_dirent p leaf (k_nextIno k) (put_inode ?nd k0))" by auto
  let ?k0 = "link_dirent p leaf (k_nextIno k) (put_inode ?nd k0)"
  have s: "same_tables k' (new_entry p leaf ?nd k)"
    by (simp add: k' f(1) new_entry_def set_inode_def link_dirent_def same_tables_def Let_def)
  then have "wf_tables k'" "same_tables ?k0 k'"
    using new_entry_wf [OF k(1) p(1) _ assms(3), of ?nd leaf] wf_cong [OF s]
      new_entry_tables [OF k(1,2) p(1), of ?nd leaf] by (simp_all add: same_tables_def)
  moreover have "committed k' ?k0"
    by (rule committed_log_side [OF f(2)]) (simp_all add: k' set_inode_def)
  moreover have "coherent k' ?k0"
    using k(3) by (auto simp: coherent_def k' f(1) set_inode_def link_dirent_def put_inode_def data_of_def
        content_def with_fmt_def Let_def)
  ultimately show ?thesis using that w s by (simp add: synced_with_def)
qed

lemma truncate_synced:
  assumes "synced_with k k0" "truncate D ino k = (Inr (), k')"
  obtains k1 where "synced_with k' k1" "data_of k1 = (data_of k0)(ino := [])"
    "k_inodes k' = (case k_inodes k ino of None \<Rightarrow> k_inodes k
       | Some nd \<Rightarrow> (k_inodes k)(ino \<mapsto> nd\<lparr>i_size := 0\<rparr>))"
    "k_children k' = k_children k" "k_dirents k' = k_dirents k" "k_nextIno k' = k_nextIno k"
proof -
  have k: "wf_tables k" "committed k k0" "same_tables k0 k" "coherent k k0"
    using assms(1) by (simp_all add: synced_with_def)
  let ?p = "le32 ino @ le64 TruncSentinel @ le32 0"
  let ?z = "\<lambda>k. k\<lparr>k_data := (k_data k)(ino \<mapsto> [])\<rparr>"
  obtain k1 where k1: "kfs_append D RecData ?p k = (Inr (), k1)"
    using assms(2) by (auto simp: truncate_def sbind_eq_Inr)
  have "k_nextIno k \<le> k_nextIno (?z k0)" using k(3) by (simp add: same_tables_def)
  from commit [OF k(2) k1 _ _ apply_trunc_payload this data_fit_trunc] obtain f1 where
    f1: "committed k1 (?z k0)" "k1 = with_fmt f1 k" by (auto simp: le32_def)
  have d: "data_of (?z k0) = (data_of k0)(ino := [])" by (auto simp: data_of_def)
  show ?thesis
  proof (cases "k_inodes k ino = None \<or> (\<exists>nd. k_inodes k ino = Some nd \<and> i_size nd = 0)")
    case True
    then have k': "k' = ?z k1"
      using assms(2) k1 f1(2) by (auto simp: truncate_def split: option.splits)
    have "committed k' (?z k0)" by (rule committed_log_side [OF f1(1)]) (simp_all add: k')
    then have "synced_with k' (?z k0)"
      using k True by (auto simp: synced_with_def wf_tables_def same_tables_def coherent_def k' f1(2)
          data_of_def content_def)
    then show ?thesis
      using True by (intro that [OF _ d]) (auto simp: k' f1(2) fun_eq_iff)
  next
    case False
    then obtain nd where nd: "k_inodes k ino = Some nd" "i_size nd \<noteq> 0" by auto
    let ?nd = "\<lparr>i_ino = ino, i_uid = i_uid nd, i_kind = i_kind nd, i_size = 0\<rparr>"
    obtain k2 where k2: "kfs_append D RecInode (kfsInodePayload ?nd) k1 = (Inr (), k2)"
        and k': "k' = ?z (set_size ino nd 0 k2)"
      using assms(2) k1 f1(2) nd by (auto simp: truncate_def sbind_eq_Inr)
    have z: "same_tables (?z k0) k" using k(3) by (simp add: same_tables_def)
    have pi: "put_inode ?nd (?z k0) = (?z k0)\<lparr>k_inodes := (k_inodes k0)(ino \<mapsto> ?nd)\<rparr>"
      using put_inode_known [OF k(1) z nd(1), of ?nd] by simp
    have "k_nextIno k1 \<le> k_nextIno (put_inode ?nd (?z k0))"
      using k(3) f1(2) by (simp add: pi same_tables_def)
    from commit [OF f1(1) k2 _ _ apply_inode_payload this data_fit_other] obtain f2 where
      f2: "committed k2 (put_inode ?nd (?z k0))" "k2 = with_fmt f2 k1"
      by (auto simp: kfsInodePayload_layout le32_def)
    have e: "nd\<lparr>i_size := 0\<rparr> = ?nd" using wf_inodeD [OF k(1) nd(1)] by (cases nd) simp
    have c: "committed k' (put_inode ?nd (?z k0))"
      by (rule committed_log_side [OF f2(1)]) (simp_all add: k' set_size_def)
    have "same_tables k' (k\<lparr>k_inodes := (k_inodes k)(ino \<mapsto> ?nd)\<rparr>)"
      by (simp add: same_tables_def k' f2(2) f1(2) set_size_def e)
    then have "wf_tables k'" using wf_set_known [OF k(1) nd(1), of ?nd] wf_cong by auto
    moreover have "coherent k' (put_inode ?nd (?z k0))"
      using k(4) by (auto simp: coherent_def k' f2(2) f1(2) set_size_def e pi data_of_def content_def)
    ultimately have "synced_with k' (put_inode ?nd (?z k0))"
      using c k(3) by (simp add: synced_with_def same_tables_def k' f2(2) f1(2) set_size_def e pi)
    then show ?thesis
      by (rule that) (use nd in \<open>auto simp: pi data_of_def k' f2(2) f1(2) set_size_def e\<close>)
  qed
qed

text \<open>A successful \<^verbatim>\<open>Create\<close> makes a new empty file or truncates an existing one.\<close>

lemma Create_synced:
  assumes "synced_with k k0" "Create D path k = (Inr (), k')"
    "k_nextIno k \<noteq> NOT 0" "length path \<le> 65520"
  obtains (new) p leaf k1 where "walkParent k path = Inr (p, leaf)" "findDirent k p leaf = None"
      "synced_with k' k1" "data_of k1 = data_of k0"
      "same_tables k' (new_entry p leaf \<lparr>i_ino = k_nextIno k, i_uid = 0, i_kind = KindFile, i_size = 0\<rparr> k)"
  | (old) p leaf di k1 where "walkParent k path = Inr (p, leaf)" "findDirent k p leaf = Some di"
      "truncate D (d_ino (k_dirents k ! di)) k = (Inr (), k')" "synced_with k' k1"
proof -
  let ?nd = "\<lparr>i_ino = k_nextIno k, i_uid = 0, i_kind = KindFile, i_size = 0\<rparr>"
  have k: "wf_tables k" "same_tables k0 k" "coherent k k0"
    using assms(1) by (simp_all add: synced_with_def)
  obtain p leaf where w: "walkParent k path = Inr (p, leaf)"
    using assms(2) by (auto simp: Create_def split: sum.splits)
  show ?thesis
  proof (cases "findDirent k p leaf")
    case (Some di)
    then have t: "truncate D (d_ino (k_dirents k ! di)) k = (Inr (), k')"
      using assms(2) w by (auto simp: Create_def Let_def split: if_splits)
    obtain k1 where "synced_with k' k1" by (rule truncate_synced [OF assms(1) t])
    with old [OF w Some t] show ?thesis by blast
  next
    case None
    obtain k1 k2 where
      a1: "kfs_append D RecInode (kfsInodePayload ?nd) (k\<lparr>k_nextIno := k_nextIno k + 1\<rparr>) = (Inr (), k1)"
      and a2: "appendDirent D p leaf (k_nextIno k) k1 = (Inr (), k2)"
      and k': "k' = (set_inode ?nd k2)\<lparr>k_data := (k_data k2)(k_nextIno k \<mapsto> [])\<rparr>"
      using assms(2) w None by (auto simp: Create_def allocIno_def sbind_eq_Inr set_inode_def Let_def)
    have p: "k_children k p \<noteq> None" "length leaf < 65520"
      using walkParent_dir [OF k(1) w] wf_inodeD [OF k(1)] assms(4) by fastforce+
    from new_entry_commit [OF assms(1,3) p _ _ a1 a2] obtain f where
      f: "k2 = link_dirent p leaf (k_nextIno k) (with_fmt f (k\<lparr>k_nextIno := k_nextIno k + 1\<rparr>))"
        "committed k2 (link_dirent p leaf (k_nextIno k) (put_inode ?nd k0))" by auto
    let ?k0 = "link_dirent p leaf (k_nextIno k) (put_inode ?nd k0)"
    have s: "same_tables k' (new_entry p leaf ?nd k)"
      by (simp add: k' f(1) new_entry_def set_inode_def link_dirent_def same_tables_def Let_def)
    then have "wf_tables k'" "same_tables ?k0 k'"
      using new_entry_wf [OF k(1) p(1) _ assms(3), of ?nd leaf] wf_cong [OF s]
        new_entry_tables [OF k(1,2) p(1), of ?nd leaf] by (simp_all add: same_tables_def)
    moreover have "committed k' ?k0"
      by (rule committed_log_side [OF f(2)]) (simp_all add: k' set_inode_def)
    moreover have d: "data_of ?k0 = data_of k0"
      by (simp add: link_dirent_def put_inode_def data_of_def fun_eq_iff Let_def)
    moreover have "coherent k' ?k0"
      unfolding coherent_def d
      using k(3) by (auto simp: coherent_def k' f(1) set_inode_def link_dirent_def data_of_def
          content_def with_fmt_def)
    ultimately show ?thesis using new [OF w None _ d s] by (simp add: synced_with_def)
  qed
qed

text \<open>\<^verbatim>\<open>SetUID\<close> changes the owner of one inode.\<close>

lemma SetUID_synced:
  assumes "synced_with k k0" "SetUID D path uid k = (Inr (), k')"
  obtains p leaf di nd k1 where "walkParent k path = Inr (p, leaf)" "findDirent k p leaf = Some di"
    "k_inodes k (d_ino (k_dirents k ! di)) = Some nd" "synced_with k' k1" "data_of k1 = data_of k0"
    "same_tables k' (k\<lparr>k_inodes := (k_inodes k)(d_ino (k_dirents k ! di) \<mapsto> nd\<lparr>i_uid := uid\<rparr>)\<rparr>)"
proof -
  have k: "wf_tables k" "committed k k0" "same_tables k0 k" "coherent k k0"
    using assms(1) by (simp_all add: synced_with_def)
  obtain p leaf di nd k1 where w: "walkParent k path = Inr (p, leaf)" "findDirent k p leaf = Some di"
    and nd: "k_inodes k (d_ino (k_dirents k ! di)) = Some nd"
    and a: "kfs_append D RecInode (kfsInodePayload
        \<lparr>i_ino = i_ino nd, i_uid = uid, i_kind = i_kind nd, i_size = i_size nd\<rparr>) k = (Inr (), k1)"
    and k': "k' = k1\<lparr>k_inodes := (k_inodes k1)(d_ino (k_dirents k ! di) \<mapsto> nd\<lparr>i_uid := uid\<rparr>)\<rparr>"
    using assms(2) by (auto simp: SetUID_def sbind_eq_Inr Let_def split: sum.splits option.splits)
  let ?ino = "d_ino (k_dirents k ! di)" and ?nd = "nd\<lparr>i_uid := uid\<rparr>"
  have e: "\<lparr>i_ino = i_ino nd, i_uid = uid, i_kind = i_kind nd, i_size = i_size nd\<rparr> = ?nd" by (cases nd) simp
  have i: "i_ino ?nd = ?ino" using wf_inodeD [OF k(1) nd] by simp
  have pi: "put_inode ?nd k0 = k0\<lparr>k_inodes := (k_inodes k0)(?ino \<mapsto> ?nd)\<rparr>"
    using put_inode_known [OF k(1,3) nd i] by simp
  have "k_nextIno k \<le> k_nextIno (put_inode ?nd k0)" using k(3) by (simp add: pi same_tables_def)
  from commit [OF k(2) a [unfolded e] _ _ apply_inode_payload this data_fit_other] obtain f where
    f: "committed k1 (put_inode ?nd k0)" "k1 = with_fmt f k"
    by (auto simp: kfsInodePayload_layout le32_def)
  have "committed k' (put_inode ?nd k0)" by (rule committed_log_side [OF f(1)]) (simp_all add: k')
  moreover have st: "same_tables k' (k\<lparr>k_inodes := (k_inodes k)(?ino \<mapsto> ?nd)\<rparr>)"
    by (simp add: k' f(2) same_tables_def)
  then have "wf_tables k'" using wf_set_known [OF k(1) nd i] wf_cong by auto
  moreover have "coherent k' (put_inode ?nd k0)"
    using coherentD [OF k(4)] nd by (auto simp: coherent_def pi k' f(2) data_of_def)
  ultimately have "synced_with k' (put_inode ?nd k0)"
    using k(3) by (simp add: synced_with_def same_tables_def k' f(2) pi)
  then show ?thesis
    by (rule that [OF w nd _ _ st]) (simp add: pi data_of_def fun_eq_iff)
qed

end

end
