(* ===== verification/Fs_Kfs_Data.thy ===== *)
theory Fs_Kfs_Data
  imports Fs_Kfs_Ops
begin

text \<open>
  File contents.  A read rebuilds a file by overlaying its data records; that is the file a
  mount would rebuild, so a read returns what was written last.  Here too what the log does
  to a deletion and to a write at a huge offset.
\<close>

section \<open>Writing\<close>

definition new_size :: "u32 \<Rightarrow> u64 \<Rightarrow> bytes \<Rightarrow> u32" where
  "new_size sz off data =
     (let end64 = off + of_nat (length data) in if end64 > ucast sz then ucast end64 else sz)"

context block_device
begin

lemma WriteFile_cases:
  assumes "WriteFile D path off data k = (Inr (), k')"
  obtains p leaf di nd k1 k2 where "walkParent k path = Inr (p, leaf)" "findDirent k p leaf = Some di"
    "k_inodes k (d_ino (k_dirents k ! di)) = Some nd" "i_kind nd \<noteq> KindDir"
    "kfs_append D RecData (data_pl (d_ino (k_dirents k ! di)) off data) k = (Inr (), k1)"
    "if new_size (i_size nd) off data \<noteq> i_size nd
     then (\<exists>k3. kfs_append D RecInode (kfsInodePayload \<lparr>i_ino = d_ino (k_dirents k ! di), i_uid = i_uid nd,
                 i_kind = i_kind nd, i_size = new_size (i_size nd) off data\<rparr>) k1 = (Inr (), k3) \<and>
             k2 = set_size (d_ino (k_dirents k ! di)) nd (new_size (i_size nd) off data) k3)
     else k2 = k1"
    "k' = k2\<lparr>k_data := (k_data k2)(d_ino (k_dirents k ! di) \<mapsto> [])\<rparr>"
proof -
  obtain p leaf di nd where w: "walkParent k path = Inr (p, leaf)" "findDirent k p leaf = Some di"
    and nd: "k_inodes k (d_ino (k_dirents k ! di)) = Some nd" "i_kind nd \<noteq> KindDir"
    using assms by (auto simp: WriteFile_def Let_def split: sum.splits option.splits if_splits)
  let ?ino = "d_ino (k_dirents k ! di)" and ?n = "new_size (i_size nd) off data"
  have "WriteFile D path off data k =
      sbind (kfs_append D RecData (data_pl ?ino off data) k)
        (\<lambda>_ k. sbind (if ?n \<noteq> i_size nd
            then sbind (kfs_append D RecInode (kfsInodePayload
                   \<lparr>i_ino = ?ino, i_uid = i_uid nd, i_kind = i_kind nd, i_size = ?n\<rparr>) k)
                 (\<lambda>_ k. (Inr (), set_size ?ino nd ?n k))
            else (Inr (), k))
          (\<lambda>_ k. (Inr (), k\<lparr>k_data := (k_data k)(?ino \<mapsto> [])\<rparr>)))"
    using w nd by (simp add: WriteFile_def appendData_pl new_size_def Let_def cong: if_cong)
  with assms obtain k1 k2 where "kfs_append D RecData (data_pl ?ino off data) k = (Inr (), k1)"
    "(if ?n \<noteq> i_size nd
            then sbind (kfs_append D RecInode (kfsInodePayload
                   \<lparr>i_ino = ?ino, i_uid = i_uid nd, i_kind = i_kind nd, i_size = ?n\<rparr>) k1)
                 (\<lambda>_ k. (Inr (), set_size ?ino nd ?n k))
            else (Inr (), k1)) = (Inr (), k2)"
    "k' = k2\<lparr>k_data := (k_data k2)(?ino \<mapsto> [])\<rparr>"
    by (auto simp: sbind_eq_Inr)
  with that w nd show ?thesis by (auto simp: sbind_eq_Inr split: if_splits)
qed

text \<open>After a successful write the log holds the spliced bytes and the new size.\<close>

lemma WriteFile_synced:
  assumes "synced_with k k0" "WriteFile D path off data k = (Inr (), k')"
    "unat off + length data < 2 ^ 63" "length data \<le> 65520"
  obtains p leaf di nd k1 where "walkParent k path = Inr (p, leaf)" "findDirent k p leaf = Some di"
    "k_inodes k (d_ino (k_dirents k ! di)) = Some nd" "i_kind nd \<noteq> KindDir" "synced_with k' k1"
    "data_of k1 = (data_of k0)(d_ino (k_dirents k ! di) :=
       splice (data_of k0 (d_ino (k_dirents k ! di))) (unat off) data)"
    "same_tables k' (k\<lparr>k_inodes := (k_inodes k)(d_ino (k_dirents k ! di) \<mapsto>
       nd\<lparr>i_size := new_size (i_size nd) off data\<rparr>)\<rparr>)"
proof -
  have k: "wf_tables k" "committed k k0" "same_tables k0 k" "coherent k k0"
    using assms(1) by (simp_all add: synced_with_def)
  from WriteFile_cases [OF assms(2)] obtain p leaf di nd k1 k2 where
    w: "walkParent k path = Inr (p, leaf)" "findDirent k p leaf = Some di"
    and nd: "k_inodes k (d_ino (k_dirents k ! di)) = Some nd" "i_kind nd \<noteq> KindDir"
    and a1: "kfs_append D RecData (data_pl (d_ino (k_dirents k ! di)) off data) k = (Inr (), k1)"
    and a2: "if new_size (i_size nd) off data \<noteq> i_size nd
     then (\<exists>k3. kfs_append D RecInode (kfsInodePayload \<lparr>i_ino = d_ino (k_dirents k ! di), i_uid = i_uid nd,
                 i_kind = i_kind nd, i_size = new_size (i_size nd) off data\<rparr>) k1 = (Inr (), k3) \<and>
             k2 = set_size (d_ino (k_dirents k ! di)) nd (new_size (i_size nd) off data) k3)
     else k2 = k1"
    and k': "k' = k2\<lparr>k_data := (k_data k2)(d_ino (k_dirents k ! di) \<mapsto> [])\<rparr>" .
  define ino where "ino = d_ino (k_dirents k ! di)"
  define n where "n = new_size (i_size nd) off data"
  define k01 where "k01 = k0\<lparr>k_data := (k_data k0)(ino \<mapsto> splice (data_of k0 ino) (unat off) data)\<rparr>"
  note folds = ino_def [symmetric] n_def [symmetric]
  have s1: "same_tables k01 k" using k(3) by (simp add: k01_def same_tables_def)
  have "data_pl ino off data \<noteq> []" "length (data_pl ino off data) \<le> MaxPayload"
    using assms(4) by (simp_all add: data_pl_def le32_def)
  moreover have "kfs_apply RecData (data_pl ino off data) k0 = Inr (True, k01)"
    using apply_data_payload [of data off ino k0] assms(3,4) by (simp add: k01_def)
  ultimately obtain f1 where f1: "committed k1 k01" "k1 = with_fmt f1 k"
    using commit [OF k(2) a1 [unfolded folds]] s1 data_fit_pl [OF _ assms(3)] assms(4)
    by (auto simp: same_tables_def)
  have d: "data_of k01 = (data_of k0)(ino := splice (data_of k0 ino) (unat off) data)"
    by (auto simp: k01_def data_of_def)
  have i: "i_ino nd = ino" using wf_inodeD [OF k(1) nd(1)] by (simp add: ino_def)
  have e: "nd\<lparr>i_size := n\<rparr> = \<lparr>i_ino = ino, i_uid = i_uid nd, i_kind = i_kind nd, i_size = n\<rparr>"
    using i by (cases nd) simp
  obtain k02 f2 where k02: "committed k2 k02" "data_of k02 = data_of k01"
      "same_tables k02 (k\<lparr>k_inodes := (k_inodes k)(ino \<mapsto> nd\<lparr>i_size := n\<rparr>)\<rparr>)"
      and k2: "k2 = (with_fmt f2 k)\<lparr>k_inodes := (k_inodes k)(ino \<mapsto> nd\<lparr>i_size := n\<rparr>)\<rparr>"
  proof (cases "n = i_size nd")
    case True
    then have u: "nd\<lparr>i_size := n\<rparr> = nd" "(k_inodes k)(ino \<mapsto> nd) = k_inodes k"
      using nd(1) by (simp_all add: folds fun_upd_idem)
    have "k2 = k1" using a2 True by (simp add: folds)
    then show ?thesis
      using that [of k01 f1] f1 s1 by (simp only: u) (simp add: same_tables_def with_fmt_def u)
  next
    case False
    with a2 obtain k3 where k3: "kfs_append D RecInode (kfsInodePayload (nd\<lparr>i_size := n\<rparr>)) k1 = (Inr (), k3)"
        "k2 = set_size ino nd n k3" by (auto simp: folds e)
    have pi: "put_inode (nd\<lparr>i_size := n\<rparr>) k01 = k01\<lparr>k_inodes := (k_inodes k01)(ino \<mapsto> nd\<lparr>i_size := n\<rparr>)\<rparr>"
      using put_inode_known [OF k(1) s1 nd(1)] i by (simp add: folds)
    have "k_nextIno k1 \<le> k_nextIno (put_inode (nd\<lparr>i_size := n\<rparr>) k01)"
      using s1 f1(2) by (simp add: pi same_tables_def)
    from commit [OF f1(1) k3(1) _ _ apply_inode_payload this data_fit_other] obtain f2 where
      f2: "committed k3 (put_inode (nd\<lparr>i_size := n\<rparr>) k01)" "k3 = with_fmt f2 k1"
      by (auto simp: kfsInodePayload_layout le32_def)
    have "committed k2 (put_inode (nd\<lparr>i_size := n\<rparr>) k01)"
      by (rule committed_log_side [OF f2(1)]) (simp_all add: k3(2) set_size_def)
    then show ?thesis
      by (rule that [of _ f2])
         (use s1 in \<open>simp_all add: pi data_of_def fun_eq_iff same_tables_def k3(2) f2(2) f1(2) set_size_def with_fmt_def\<close>)
  qed
  have st: "same_tables k' (k\<lparr>k_inodes := (k_inodes k)(ino \<mapsto> nd\<lparr>i_size := n\<rparr>)\<rparr>)"
    by (simp add: k' k2 same_tables_def with_fmt_def)
  have "wf_tables k'" using wf_set_known [OF k(1) nd(1)] i wf_cong [OF st] by (simp add: folds)
  moreover have "committed k' k02" by (rule committed_log_side [OF k02(1)]) (simp_all add: k')
  moreover have "same_tables k02 k'" using st k02(3) by (simp add: same_tables_def)
  moreover have "coherent k' k02"
    using k(4) by (auto simp: coherent_def k' k2 k02(2) d folds content_def data_of_def)
  ultimately have "synced_with k' k02" by (simp add: synced_with_def)
  then show ?thesis
    by (rule that [OF w nd, unfolded folds]) (simp_all add: k02(2) d st)
qed

end

section \<open>Reading\<close>

lemma length_content [simp]: "length (content b n) = n"
  by (simp add: content_def)

lemma content_nth: "i < n \<Longrightarrow> content b n ! i = (if i < length b then b ! i else 0)"
  by (simp add: content_def nth_append)

lemma splice_nth:
  "i < max (length b) (off + length d) \<Longrightarrow> splice b off d ! i =
     (if off \<le> i \<and> i < off + length d then d ! (i - off) else if i < length b then b ! i else 0)"
  by (auto simp: splice_def go_copy_nth nth_append)

text \<open>Overlaying in a window of the file is writing in the file.\<close>

lemma content_splice: "off \<le> n \<Longrightarrow> content (splice b off d) n = go_copy (content b n) off d"
  by (rule nth_equalityI) (auto simp: content_nth splice_nth go_copy_nth)

lemma content_splice_beyond: "n \<le> off \<or> off + length d = 0 \<Longrightarrow> content (splice b off d) n = content b n"
  by (rule nth_equalityI) (auto simp: content_nth splice_nth)

lemma go_copy_take: "go_copy b off (take (length b - off) d) = go_copy b off d"
  by (cases "length d \<le> length b - off") (auto simp: go_copy_def min_def)

lemma overlay_splice:
  assumes "length p = 16 + unat (Get32 (drop 12 p))" "Get64 (drop 4 p) \<noteq> TruncSentinel"
    "unat (Get64 (drop 4 p)) + unat (Get32 (drop 12 p)) < 2 ^ 63"
  shows "overlay (Get32 p) 0 RecData p (content b n) =
    content (splice b (unat (Get64 (drop 4 p))) (drop 16 p)) n"
proof -
  define off where "off = Get64 (drop 4 p)"
  define dlen where "dlen = unat (Get32 (drop 12 p))"
  note h = assms [folded off_def dlen_def]
  have "unat (off + of_nat dlen) = unat off + dlen"
    using h(3) by (simp add: unat_word_ariths unat_of_nat)
  then have s: "sint off = int (unat off)" "sint (off + of_nat dlen) = int (unat off + dlen)"
    using h(3) by (simp_all add: sint_small del: of_nat_unat)
  show ?thesis
  proof (cases "n \<le> unat off \<or> unat off + dlen = 0")
    case True
    then have "content (splice b (unat off) (drop 16 p)) n = content b n"
      using h(1) by (intro content_splice_beyond) auto
    moreover have "overlay (Get32 p) 0 RecData p (content b n) = content b n"
      using True h s by (auto simp: overlay_def Let_def off_def [symmetric] dlen_def [symmetric] simp del: of_nat_unat)
    ultimately show ?thesis by (simp add: off_def)
  next
    case False
    have "overlay (Get32 p) 0 RecData p (content b n) =
        go_copy (content b n) (unat off) (window 16 (min (unat off + dlen) n - unat off) p)"
      using False h s
      by (auto simp: overlay_def Let_def off_def [symmetric] dlen_def [symmetric] min_def nat_diff_distrib
          nat_add_distrib simp del: of_nat_unat)
    also have "window 16 (min (unat off + dlen) n - unat off) p = take (length (content b n) - unat off) (drop 16 p)"
      using h(1) by (auto simp: window_def min_def)
    also have "go_copy (content b n) (unat off) \<dots> = content (splice b (unat off) (drop 16 p)) n"
      using False go_copy_take [of "content b n" "unat off" "drop 16 p"] by (simp add: content_splice)
    finally show ?thesis by (simp add: off_def)
  qed
qed

lemma data_of_upd: "data_of (k\<lparr>k_data := (k_data k)(i \<mapsto> b)\<rparr>) = (data_of k)(i := b)"
  by (auto simp: data_of_def)

lemma kfs_apply_no_data:
  "kfs_apply t p k = Inr (ok, k') \<Longrightarrow> t \<noteq> RecData \<Longrightarrow> data_of k' = data_of k"
proof -
  assume "kfs_apply t p k = Inr (ok, k')" "t \<noteq> RecData"
  then consider "apply_inode p k = Inr (ok, k')" | "apply_dirent p k = Inr (ok, k')"
      | "apply_checkpoint p k = Inr (ok, k')" | "k' = k"
    by (auto simp: kfs_apply_def split: if_splits)
  then have "k_data k' = k_data k"
    by cases (auto simp: apply_inode_def apply_dirent_def apply_checkpoint_def Let_def removeDirent_def
        kill_dirent_def link_dirent_def split: if_splits option.splits)
  then show ?thesis by (simp add: data_of_def fun_eq_iff)
qed

text \<open>One record: \<^const>\<open>overlay\<close> on the window follows \<^const>\<open>kfs_apply\<close> on the file.\<close>

lemma overlay_apply:
  assumes "kfs_apply t p k = Inr (True, k')" "data_fit t p"
  shows "overlay ino 0 t p (content (data_of k ino) n) = content (data_of k' ino) n"
proof (cases "t = RecData")
  case False
  with kfs_apply_no_data [OF assms(1)] show ?thesis by (simp add: overlay_def)
next
  case t: True
  have l: "16 \<le> length p" "16 + unat (Get32 (drop 12 p)) \<le> length p"
    using assms(1) t by (auto simp: kfs_apply_def apply_data_def Let_def split: if_splits)
  show ?thesis
  proof (cases "Get64 (drop 4 p) = TruncSentinel")
    case True
    then have "k' = k\<lparr>k_data := (k_data k)(Get32 p \<mapsto> [])\<rparr>"
      using assms(1) t l by (simp add: kfs_apply_def apply_data_def Let_def)
    then show ?thesis
      using t l True by (auto simp: overlay_def Let_def data_of_upd) (simp add: content_def)
  next
    case False
    have f: "length p = 16 + unat (Get32 (drop 12 p))"
        "unat (Get64 (drop 4 p)) + unat (Get32 (drop 12 p)) < 2 ^ 63"
      using assms(2) t False unfolding data_fit_def by blast+
    have "k' = k\<lparr>k_data := (k_data k)(Get32 p \<mapsto> splice (data_of k (Get32 p)) (unat (Get64 (drop 4 p))) (drop 16 p))\<rparr>"
      using apply_data_fit [OF f(1) False f(2), of k] assms(1) t by simp
    then show ?thesis
      using overlay_splice [OF f(1) False f(2)] t by (auto simp: data_of_upd) (simp add: overlay_def)
  qed
qed

text \<open>A whole log: the overlays of its records rebuild the file the mount rebuilds.\<close>

lemma overlay_apply_all:
  assumes "apply_all rs pos k = (Inr (pos + length (frames rs)), k')"
    "list_all (\<lambda>r. data_fit (Type r) (Payload r)) rs"
  shows "fold (\<lambda>r. overlay ino 0 (Type r) (Payload r)) rs (content (data_of k ino) n) =
     content (data_of k' ino) n"
  using assms
proof (induction rs arbitrary: pos k)
  case (Cons r rs)
  then obtain k1 where k1: "kfs_apply (Type r) (Payload r) k = Inr (True, k1)"
    "apply_all rs (pos + length (frame r)) k1 = (Inr (pos + length (frame r) + length (frames rs)), k')"
    by (auto simp: add.assoc split: sum.splits if_splits)
  then show ?case
    using Cons.IH [OF k1(2)] Cons.prems(2) overlay_apply [OF k1(1), of ino n] by simp
qed simp

context block_device
begin

lemma replayData_loop_img:
  assumes "kok k" "length hdr = HdrLen" "drop pos (img (k_dev k)) = frames rs @ rest"
    "w = pos + length (frames rs)" "w \<le> length (img (k_dev k))" "list_all rec_ok rs" "list_all (\<lambda>r. Payload r \<noteq> []) rs"
  shows "\<exists>d'. replayData_loop D ino off w hdr pos out k =
      (Inr (fold (\<lambda>r. overlay ino off (Type r) (Payload r)) rs out), k\<lparr>k_dev := d'\<rparr>) \<and>
     dok d' \<and> img d' = img (k_dev k)"
  using assms
proof (induction rs arbitrary: pos hdr out k)
  case Nil
  then have "replayData_loop D ino off w hdr pos out k = (Inr out, k)"
    by (subst replayData_loop.simps) simp
  then show ?case using Nil.prems(1) by (intro exI [of _ "k_dev k"]) (simp add: kok_def)
next
  case (Cons r rs)
  let ?I = "img (k_dev k)"
  let ?h = "le32 (of_nat (length (Payload r))) @ le32 (ChecksumIEEE (Payload r)) @ [Type r]"
  have ro: "length (Payload r) \<le> MaxPayload" "Payload r \<noteq> []"
    using Cons.prems(6,7) by (simp_all add: rec_ok_def)
  have w: "pos + HdrLen + length (Payload r) \<le> w" "pos + HdrLen < length ?I"
    using Cons.prems(4,5) ro(2) by (cases "Payload r"; auto)+
  have d: "drop pos ?I = ?h @ Payload r @ frames rs @ rest"
    using Cons.prems(3) by (simp add: frame_layout)
  then have d9: "drop (HdrLen + pos) ?I = Payload r @ frames rs @ rest" by (simp flip: drop_drop)
  have win: "window pos HdrLen ?I = ?h" "window (pos + HdrLen) (length (Payload r)) ?I = Payload r"
    using d d9 by (simp_all add: window_def add.commute)
  from readAt_img [OF Cons.prems(1), of pos hdr] w Cons.prems(2,5) obtain d1 where
    d1: "readAt D pos hdr k = (Inr ?h, k\<lparr>k_dev := d1\<rparr>)" "dok d1" "img d1 = ?I"
    by (auto simp: win(1))
  have k1: "kok (k\<lparr>k_dev := d1\<rparr>)" by (rule kok_dev [OF Cons.prems(1) d1(2,3)])
  from readAt_img [OF k1, of "pos + HdrLen" "replicate (length (Payload r)) 0"] w Cons.prems(5) d1(3)
  obtain d2 where
    d2: "readAt D (pos + HdrLen) (replicate (length (Payload r)) 0) (k\<lparr>k_dev := d1\<rparr>) =
        (Inr (Payload r), k\<lparr>k_dev := d2\<rparr>)" "dok d2" "img d2 = ?I"
    by (auto simp: win(2))
  have k2: "kok (k\<lparr>k_dev := d2\<rparr>)" by (rule kok_dev [OF Cons.prems(1) d2(2,3)])
  have step: "replayData_loop D ino off w hdr pos out k =
      replayData_loop D ino off w ?h (pos + (HdrLen + length (Payload r)))
        (overlay ino off (Type r) (Payload r) out) (k\<lparr>k_dev := d2\<rparr>)"
    using w ro d1(1) d2(1)
    by (subst replayData_loop.simps) (simp add: unat_u32_of_nat nth_append add.assoc Let_def)
  have "drop (pos + (HdrLen + length (Payload r))) (img (k_dev (k\<lparr>k_dev := d2\<rparr>))) =
      drop (length (Payload r)) (drop (HdrLen + pos) ?I)" by (simp add: d2(3) add_ac)
  then have rest: "drop (pos + (HdrLen + length (Payload r))) (img (k_dev (k\<lparr>k_dev := d2\<rparr>))) = frames rs @ rest"
    by (simp add: d9)
  have "\<exists>d'. replayData_loop D ino off w ?h (pos + (HdrLen + length (Payload r)))
        (overlay ino off (Type r) (Payload r) out) (k\<lparr>k_dev := d2\<rparr>) =
      (Inr (fold (\<lambda>r. overlay ino off (Type r) (Payload r)) rs (overlay ino off (Type r) (Payload r) out)),
       k\<lparr>k_dev := d2\<rparr>\<lparr>k_dev := d'\<rparr>) \<and> dok d' \<and> img d' = img (k_dev (k\<lparr>k_dev := d2\<rparr>))"
    by (rule Cons.IH [OF k2 _ rest]) (use Cons.prems d2(3) in \<open>simp_all add: add.assoc\<close>)
  then show ?case using step d2(3) by simp
qed

lemma replayData_synced:
  assumes "committed k k0"
  obtains d' where "replayData D ino 0 n k = (Inr (content (data_of k0 ino) n), k\<lparr>k_dev := d'\<rparr>)"
    "dok d'" "img d' = img (k_dev k)"
proof -
  obtain rs where rs: "logged k rs" "replays rs k0" "list_all (\<lambda>r. data_fit (Type r) (Payload r)) rs"
    using assms by (auto simp: committed_def)
  have l: "kok k" "holds_log (img (k_dev k)) rs (k_wOff k)" "list_all (\<lambda>r. Payload r \<noteq> []) rs"
    using rs(1) by (simp_all add: logged_def)
  have "fold (\<lambda>r. overlay ino 0 (Type r) (Payload r)) rs
      (content (data_of (emptyKFS (k_dev k0) (k_numBlocks k0) (k_logData k0) 0) ino) n) =
      content (data_of k0 ino) n"
    by (rule overlay_apply_all [OF _ rs(3)]) (use rs(2) in \<open>simp add: replays_def\<close>)
  then have f: "fold (\<lambda>r. overlay ino 0 (Type r) (Payload r)) rs (replicate n 0) = content (data_of k0 ino) n"
    by (simp add: data_of_def emptyKFS_def content_def)
  have "\<exists>d'. replayData_loop D ino 0 (k_wOff k) (replicate HdrLen 0) LogStart (replicate n 0) k =
      (Inr (fold (\<lambda>r. overlay ino 0 (Type r) (Payload r)) rs (replicate n 0)), k\<lparr>k_dev := d'\<rparr>) \<and>
     dok d' \<and> img d' = img (k_dev k)"
    by (rule replayData_loop_img [OF l(1) _ holds_log_drop [OF l(2)] _ _ _ l(3)])
       (use l(2) in \<open>simp_all add: holds_log_def\<close>)
  then show ?thesis using that f by (auto simp: replayData_def)
qed

text \<open>A read returns the bytes of the file the log describes and keeps memory and log in step.\<close>

lemma ReadFile_synced:
  assumes "synced_with k k0" "walkParent k path = Inr (p, leaf)" "findDirent k p leaf = Some di"
    "k_inodes k (d_ino (k_dirents k ! di)) = Some nd" "i_kind nd \<noteq> KindDir"
    "unat off < unat (i_size nd)" "buf \<noteq> []"
  defines "ino \<equiv> d_ino (k_dirents k ! di)"
  defines "want \<equiv> min (unat (i_size nd) - unat off) (length buf)"
  obtains k' where "ReadFile D path off buf k =
      (Inr (want, go_copy buf 0 (window (unat off) want (content (data_of k0 ino) (unat (i_size nd))))), k')"
    "synced_with k' k0" "same_tables k' k"
proof -
  have k: "wf_tables k" "committed k k0" "same_tables k0 k" "coherent k k0"
    using assms(1) by (simp_all add: synced_with_def)
  let ?n = "unat (i_size nd)" and ?c = "content (data_of k0 ino) (unat (i_size nd))"
  have st: "same_tables k k" by (simp add: same_tables_def)
  show ?thesis
  proof (cases "?n \<le> length (data_of k ino)")
    case True
    have "window (unat off) want (data_of k ino) = window (unat off) want (take ?n (data_of k ino))"
      using assms(6) by (simp add: want_def window_def drop_take min_def)
    also have "\<dots> = window (unat off) want ?c"
      using coherentD [OF k(4) assms(4)] True by (simp add: ino_def)
    finally have "ReadFile D path off buf k =
        (Inr (want, go_copy buf 0 (window (unat off) want ?c)), k)"
      using assms(2-7) True by (simp add: ReadFile_def Let_def ino_def want_def)
    then show ?thesis by (rule that [OF _ assms(1) st])
  next
    case False
    obtain d' where d': "replayData D ino 0 ?n k = (Inr ?c, k\<lparr>k_dev := d'\<rparr>)" "dok d'" "img d' = img (k_dev k)"
      by (rule replayData_synced [OF k(2)])
    let ?k = "k\<lparr>k_dev := d', k_data := (k_data k)(ino \<mapsto> ?c)\<rparr>"
    have r: "ReadFile D path off buf k = (Inr (want, go_copy buf 0 (window (unat off) want ?c)), ?k)"
      using assms(2-7) False d'(1) by (simp add: ReadFile_def Let_def ino_def want_def window_def)
    have "committed ?k k0"
      using k(2) d'(2,3) by (simp add: committed_def logged_def kok_def)
    moreover have "wf_tables ?k" using k(1) wf_cong [of ?k k] by (simp add: same_tables_def)
    moreover have "coherent ?k k0"
      using coherentD [OF k(4)] assms(4) by (auto simp: coherent_def data_of_def ino_def)
    ultimately have "synced_with ?k k0" using k(3) by (simp add: synced_with_def same_tables_def)
    then show ?thesis by (rule that [OF r]) (simp add: same_tables_def)
  qed
qed

section \<open>Records a mount does not accept\<close>

text \<open>
  A deletion reaches the log as a record that replay refuses: the next mount has the tables
  from before it.
\<close>

lemma Delete_mount:
  assumes "synced_with k k0" "Delete D path k = (Inr (), k')" "length path \<le> 65520"
  obtains k1 where "MountKFS D (k_dev k') = Inr k1" "same_tables k1 k" "k_wOff k1 = k_wOff k"
    "k_wOff k < k_wOff k'"
proof -
  have k: "wf_tables k" "committed k k0" "same_tables k0 k"
    using assms(1) by (simp_all add: synced_with_def)
  obtain p leaf k2 where w: "walkParent k path = Inr (p, leaf)"
    and a: "kfs_append D RecDirent (AppendLStr (le32 p @ [1]) leaf) k = (Inr (), k2)"
    and k': "k_dev k' = k_dev k2" "k_wOff k' = k_wOff k2"
    using assms(2)
    by (auto simp: Delete_def appendDirentDelete_def sbind_eq_Inr Let_def kill_dirent_def
        split: sum.splits option.splits if_splits)
  let ?p = "AppendLStr (le32 p @ [1]) leaf"
  have "length leaf < 65520" using walkParent_dir(2) [OF k(1) w] assms(3) by simp
  then have leaf: "length leaf < 65536" "?p \<noteq> []" "length ?p \<le> MaxPayload"
    by (simp_all add: AppendLStr_def le32_def)
  obtain rs where rs: "logged k rs" "replays rs k0" using k(2) by (auto simp: committed_def)
  obtain ts where ts: "appended RecDirent ?p (k_recs k) (k_nextIno k) = \<lparr>Type = RecDirent, Payload = ?p\<rparr> # ts"
    by (simp add: appended_def)
  have l: "logged k2 (rs @ \<lparr>Type = RecDirent, Payload = ?p\<rparr> # ts)"
    using kfs_append_logged [OF rs(1) a leaf(2,3)] ts by simp
  have "kfs_apply (Type \<lparr>Type = RecDirent, Payload = ?p\<rparr>) (Payload \<lparr>Type = RecDirent, Payload = ?p\<rparr>) k0 =
      Inr (False, k0)" using apply_delete_payload [OF leaf(1)] by simp
  from refused_mount [OF l rs(2) this] obtain k1 where
    k1: "MountKFS D (k_dev k2) = Inr k1" "k_wOff k1 = LogStart + length (frames rs)"
    "k_inodes k1 = k_inodes k0" "k_children k1 = k_children k0"
    "k_dirents k1 = k_dirents k0" "k_nextIno k1 = k_nextIno k0" .
  have "k_wOff k = LogStart + length (frames rs)" "k_wOff k < k_wOff k2"
    using rs(1) l by (auto simp: logged_def holds_log_def)
  then show ?thesis using that k1 k' k(3) by (simp add: same_tables_def)
qed

text \<open>A write in the upper half of the offset range succeeds, and the next mount panics.\<close>

lemma WriteFile_poison:
  assumes "synced_with k k0" "WriteFile D path off data k = (Inr (), k')"
    "2 ^ 63 \<le> unat off" "off \<noteq> TruncSentinel" "unat off + length data < 2 ^ 64" "length data \<le> 65520"
    "\<forall>ino. length (data_of k0 ino) < 2 ^ 63"
  shows "\<exists>d'. MountKFS D (k_dev k') = Inl (GoPanic, d')"
proof -
  obtain rs where rs: "logged k rs" "replays rs k0"
    using assms(1) by (auto simp: synced_with_def committed_def)
  from WriteFile_cases [OF assms(2)] obtain ino nd k1 k2 where
    a1: "kfs_append D RecData (data_pl ino off data) k = (Inr (), k1)"
    and a2: "if new_size (i_size nd) off data \<noteq> i_size nd
     then (\<exists>k3. kfs_append D RecInode (kfsInodePayload \<lparr>i_ino = ino, i_uid = i_uid nd,
                 i_kind = i_kind nd, i_size = new_size (i_size nd) off data\<rparr>) k1 = (Inr (), k3) \<and>
             k2 = set_size ino nd (new_size (i_size nd) off data) k3)
     else k2 = k1"
    and k': "k' = k2\<lparr>k_data := (k_data k2)(ino \<mapsto> [])\<rparr>" by metis
  let ?r = "\<lparr>Type = RecData, Payload = data_pl ino off data\<rparr>"
  obtain ts where "appended RecData (data_pl ino off data) (k_recs k) (k_nextIno k) = ?r # ts"
    by (simp add: appended_def)
  then have l1: "logged k1 (rs @ ?r # ts)"
    using kfs_append_logged [OF rs(1) a1] assms(6) by (simp add: data_pl_def le32_def)
  have "\<exists>us. logged k2 (rs @ ?r # us)"
  proof (cases "new_size (i_size nd) off data = i_size nd")
    case True
    then show ?thesis using a2 l1 by auto
  next
    case False
    let ?nd = "\<lparr>i_ino = ino, i_uid = i_uid nd, i_kind = i_kind nd, i_size = new_size (i_size nd) off data\<rparr>"
    obtain k3 where k3: "kfs_append D RecInode (kfsInodePayload ?nd) k1 = (Inr (), k3)"
        "k2 = set_size ino nd (new_size (i_size nd) off data) k3" using a2 False by auto
    have "\<exists>us. logged k3 (rs @ ?r # us)"
      using kfs_append_logged [OF l1 k3(1)] by (auto simp: kfsInodePayload_layout le32_def)
    then show ?thesis by (simp add: k3(2) set_size_def logged_def kok_def)
  qed
  then obtain us where l: "logged k2 (rs @ ?r # us)" by blast
  have "kfs_apply (Type ?r) (Payload ?r) k0 = Inl GoPanic"
    using apply_data_panic [of data off k0 ino] assms(3-7) by simp
  from panicking_mount [OF l rs(2) this] show ?thesis by (simp add: k')
qed

end

end
