(* ===== verification/Fs_Kfs_Run.thy ===== *)
theory Fs_Kfs_Run
  imports Fs_Kfs_Data
begin

text \<open>
  Runs of the guest filesystem: format, mount, any sequence of successful operations and
  remounts.  Rule induction carries the agreement of memory and log along a run.
\<close>

section \<open>The two formatters write the same volume\<close>

lemma Append_frame:
  "f_logEnd (snd (Append D t p f)) = f_logEnd f \<and> f_nextIno (snd (Append D t p f)) = f_nextIno f"
proof -
  have c: "f_logEnd (snd (Append D RecCheckpoint p f)) = f_logEnd f \<and>
      f_nextIno (snd (Append D RecCheckpoint p f)) = f_nextIno f" for p f
    by (subst (1 2) Append.simps)
       (cases "writeAt D (f_wOff f) (EncodeRecord RecCheckpoint p) (f_dev f)";
        cases "fst (writeAt D (f_wOff f) (EncodeRecord RecCheckpoint p) (f_dev f))"; simp add: Let_def)
  show ?thesis
    by (subst (1 2) Append.simps)
       (cases "writeAt D (f_wOff f) (EncodeRecord t p) (f_dev f)";
        cases "fst (writeAt D (f_wOff f) (EncodeRecord t p) (f_dev f))"; simp add: Let_def c)
qed

lemma kfs_append_of_Append:
  assumes "Append D t p (fmt_of k) = (Inr (), f)"
  shows "kfs_append D t p k = (Inr (), with_fmt f k)" "fmt_of (with_fmt f k) = f"
proof -
  show "kfs_append D t p k = (Inr (), with_fmt f k)"
    using kfs_append_Append [of D t p k] assms
    by (cases "kfs_append D t p k"; cases "fst (kfs_append D t p k)") auto
  show "fmt_of (with_fmt f k) = f"
    using Append_frame [of D t p "fmt_of k"] assms by (simp add: fmt_of_def with_fmt_def)
qed

lemma FormatKFS_Format:
  assumes "Format D d = (Inr (), d')" "dGeometry D d = (512, n)"
    "\<And>d1 p. length p = 512 \<Longrightarrow> dWrite D d 0 p = (Inr (), d1) \<Longrightarrow> dGeometry D d1 = (512, n)"
  shows "FormatKFS D d = (Inr (), d')"
proof -
  let ?sb = "EncodeSuperblock \<lparr>BlockSize = 512, NumBlocks = n, LogSector = 1, Version = 1\<rparr>"
  from assms(1,2) obtain d1 where n: "\<not> n < 16" and w: "dWrite D d 0 ?sb = (Inr (), d1)"
    by (auto simp: Format_def sbind_eq_Inr split: if_splits)
  have "dGeometry D d1 = (512, n)" by (rule assms(3) [OF _ w]) simp
  with assms(1,2) w obtain f1 f2 where
    a1: "Append D RecInode (InodePayload RootIno 0 KindDir 0) (fmt_of (emptyKFS d1 n [] (RootIno + 1))) = (Inr (), f1)"
    and a2: "AppendCheckpoint D f1 = (Inr (), f2)" and d': "d' = f_dev f2"
    by (auto simp: Format_def NewFormatter_def emptyKFS_def fmt_of_def apsnd_def sbind_eq_Inr
        map_prod_def split: if_splits sum.splits prod.splits)
  let ?k = "emptyKFS d1 n [] (RootIno + 1)"
  have ip: "kfsInodePayload \<lparr>i_ino = RootIno, i_uid = 0, i_kind = KindDir, i_size = 0\<rparr> =
      InodePayload RootIno 0 KindDir 0"
    by (simp add: kfsInodePayload_layout InodePayload_layout)
  note k1 = kfs_append_of_Append [OF a1]
  have "Append D RecCheckpoint (CheckpointPayload (k_nextIno (with_fmt f1 ?k))) (fmt_of (with_fmt f1 ?k)) = (Inr (), f2)"
    using a2 k1(2) Append_frame [of D RecInode "InodePayload RootIno 0 KindDir 0" "fmt_of ?k"] a1
    by (simp add: AppendCheckpoint_def) (simp add: fmt_of_def emptyKFS_def)
  note k2 = kfs_append_of_Append(1) [OF this]
  have c: "Put32 (replicate 4 0) 0 v = CheckpointPayload v" for v
    by (simp add: CheckpointPayload_def)
  show ?thesis
    using n w k1(1) k2 d'
    by (simp add: FormatKFS_def assms(2) EncodeSuperblock_def [symmetric] ip appendCheckpoint_def c
        EncodeSuperblock_def Let_def with_fmt_def)
qed

context block_device
begin

lemma FormatKFS_img:
  assumes "dok d" "16 * 512 \<le> length (img d)"
  obtains d' where "FormatKFS D d = (Inr (), d')" "Format D d = (Inr (), d')" "dok d'"
    "img d' = EncodeSuperblock \<lparr>BlockSize = 512, NumBlocks = of_nat (length (img d) div 512),
         LogSector = LogStartSector, Version = FormatVersion\<rparr> @ frames fresh_log @ drop (512 + 35) (img d)"
proof -
  from Format_img [OF assms] obtain d' where d': "Format D d = (Inr (), d')" "dok d'"
    "img d' = EncodeSuperblock \<lparr>BlockSize = 512, NumBlocks = of_nat (length (img d) div 512),
         LogSector = LogStartSector, Version = FormatVersion\<rparr> @ frames fresh_log @ drop (512 + 35) (img d)" .
  have "dGeometry D d1 = (512, of_nat (length (img d) div 512))"
    if "length p = 512" "dWrite D d 0 p = (Inr (), d1)" for d1 p
  proof -
    note lp = that(1)
    obtain d2 where "dWrite D d 0 p = (Inr (), d2)" "dok d2" "img d2 = go_copy (img d) 0 p"
      by (rule write_sectors [OF assms(1), of p 1 0]) (use lp assms(2) in auto)
    then show ?thesis using that(2) geometry [of d1] by simp
  qed
  then have "FormatKFS D d = (Inr (), d')"
    using FormatKFS_Format [OF d'(1) geometry [OF assms(1)]] by blast
  then show ?thesis by (rule that [OF _ d'])
qed

end

section \<open>The fresh volume\<close>

definition rootInode :: kfsInode where
  "rootInode = \<lparr>i_ino = RootIno, i_uid = 0, i_kind = KindDir, i_size = 0\<rparr>"

lemma replays_fresh:
  "replays fresh_log (put_inode rootInode (emptyKFS d n b 0))"
proof -
  let ?k = "emptyKFS d n b 0"
  have ip: "InodePayload RootIno 0 KindDir 0 = kfsInodePayload rootInode"
    by (simp add: kfsInodePayload_layout InodePayload_layout rootInode_def)
  have "kfs_apply RecCheckpoint (CheckpointPayload 2) (put_inode rootInode ?k) = Inr (True, put_inode rootInode ?k)"
    by (simp add: kfs_apply_def apply_checkpoint_def CheckpointPayload_layout put_inode_def rootInode_def
        emptyKFS_def Let_def)
  moreover have "k_dev (put_inode rootInode ?k) = d" "k_numBlocks (put_inode rootInode ?k) = n"
    "k_logData (put_inode rootInode ?k) = b"
    by (simp_all add: put_inode_def emptyKFS_def Let_def)
  ultimately show ?thesis
    by (simp add: replays_def fresh_log_def ip apply_inode_payload)
qed

lemma fresh_wf: "wf_tables (put_inode rootInode (emptyKFS d n b 0))"
  by (simp add: wf_tables_def put_inode_def rootInode_def emptyKFS_def Let_def)

lemma sb_ok_fresh:
  "sb_ok (EncodeSuperblock \<lparr>BlockSize = 512, NumBlocks = n, LogSector = 1, Version = v\<rparr> @ x)"
  by (simp add: sb_ok_def EncodeSuperblock_layout str_def)

context block_device
begin

lemma logged_fresh:
  assumes "dok d" "img d = EncodeSuperblock \<lparr>BlockSize = 512, NumBlocks = m,
         LogSector = 1, Version = 1\<rparr> @ frames fresh_log @ replicate z 0"
    "kok k" "k_dev k = d" "k_wOff k = 547"
  shows "logged k fresh_log"
proof -
  have "window 512 35 (img d) = frames fresh_log"
    using length_fresh_log by (simp add: assms(2) window_def)
  moreover have "drop 547 (img d) = replicate z 0" using length_fresh_log by (simp add: assms(2))
  moreover have "547 \<le> length (img d)" using length_fresh_log by (simp add: assms(2))
  moreover have "list_all rec_ok fresh_log" "list_all (\<lambda>r. Payload r \<noteq> []) fresh_log"
    by (simp_all add: fresh_log_def rec_ok_def InodePayload_layout CheckpointPayload_layout le32_def)
  ultimately show ?thesis
    using assms(3-5) sb_ok_fresh by (auto simp: logged_def holds_log_def assms(2))
qed

text \<open>Mounting the image of a fresh volume, whatever device holds it.\<close>

lemma fresh_mount:
  assumes "dok d" "16 * 512 \<le> length (img d)"
    "img d = EncodeSuperblock \<lparr>BlockSize = 512, NumBlocks = of_nat (length (img d) div 512),
       LogSector = LogStartSector, Version = FormatVersion\<rparr> @ frames fresh_log @ replicate z 0"
  obtains k k0 where "MountKFS D d = Inr k" "synced_with k k0" "same_tables k (put_inode rootInode (emptyKFS d 0 [] 0))"
    "\<And>ino. data_of k0 ino = []" "k_wOff k = LogStart + 35" "k_logEnd k = length (img d)"
proof -
  let ?m = "of_nat (length (img d) div 512) :: u64"
  let ?k = "(emptyKFS d ?m (take 512 (img d)) 0)\<lparr>k_wOff := 547\<rparr>"
  have kk: "kok ?k"
    using assms(1,2) unat_blocks [OF assms(1)] by (simp add: kok_def emptyKFS_def)
  have lg: "logged ?k fresh_log"
    by (rule logged_fresh [OF assms(1) assms(3) kk]) (simp_all add: emptyKFS_def)
  have fit: "list_all (\<lambda>r. data_fit (Type r) (Payload r)) fresh_log"
    by (simp add: fresh_log_def data_fit_other)
  let ?kz = "put_inode rootInode (emptyKFS d ?m (take 512 (img d)) 0)"
  have c: "committed ?k ?kz" using lg fit replays_fresh [of d] by (auto simp: committed_def)
  have dv: "k_dev ?k = d" "k_wOff ?k = 547" by (simp_all add: emptyKFS_def)
  from committed_mount [OF c] obtain k1 where
    k1: "MountKFS D d = Inr k1" "kok k1" "img (k_dev k1) = img d" "k_wOff k1 = 547"
    "k_inodes k1 = k_inodes ?kz" "k_children k1 = k_children ?kz"
    "k_dirents k1 = k_dirents ?kz" "k_nextIno k1 = k_nextIno ?kz" "k_data k1 = k_data ?kz"
    unfolding dv .
  have st: "same_tables ?kz k1" using k1 by (simp add: same_tables_def)
  have "logged k1 fresh_log"
    using k1(2-4) lg by (simp add: logged_def emptyKFS_def)
  then have "committed k1 ?kz" using fit replays_fresh [of d] by (auto simp: committed_def)
  moreover have "wf_tables k1" using wf_cong [OF st] fresh_wf [of d] by blast
  moreover have "coherent k1 ?kz"
    using k1(5,9) by (auto simp: coherent_def put_inode_def rootInode_def emptyKFS_def data_of_def content_def Let_def
        split: if_splits)
  ultimately have "synced_with k1 ?kz" using st by (simp add: synced_with_def)
  then show ?thesis
    by (rule that [OF k1(1)])
       (use k1(2-8) in \<open>simp_all add: same_tables_def put_inode_def emptyKFS_def data_of_def Let_def kok_def\<close>)
qed

lemma fresh_synced:
  assumes "dok d" "16 * 512 \<le> length (img d)" "\<forall>b \<in> set (drop (512 + 35) (img d)). b = 0"
  obtains d' k k0 where "FormatKFS D d = (Inr (), d')" "MountKFS D d' = Inr k" "synced_with k k0"
    "same_tables k (put_inode rootInode (emptyKFS d' 0 [] 0))" "\<And>ino. data_of k0 ino = []"
    "k_wOff k = LogStart + 35" "k_logEnd k = length (img d)"
proof -
  from FormatKFS_img [OF assms(1,2)] obtain d' where d': "FormatKFS D d = (Inr (), d')" "dok d'"
    "img d' = EncodeSuperblock \<lparr>BlockSize = 512, NumBlocks = of_nat (length (img d) div 512),
         LogSector = LogStartSector, Version = FormatVersion\<rparr> @ frames fresh_log @ drop (512 + 35) (img d)" .
  have z: "drop (512 + 35) (img d) = replicate (length (img d) - 547) 0"
    using assms(3) by (intro replicate_eqI) auto
  have l': "length (img d') = length (img d)" using assms(2) by (simp add: d'(3) length_fresh_log)
  show ?thesis
    by (rule fresh_mount [OF d'(2) _ d'(3) [unfolded z, folded l']])
       (use assms(2) l' that [OF d'(1)] in simp_all)
qed

end

section \<open>Runs\<close>

text \<open>
  One successful operation.  The bounds are what a request of the file server can carry (at
  most a page of path or data) or a counter that has not wrapped; an operation that fails in
  its guards leaves the state alone and is no step.
\<close>

inductive kfs_step :: "'d Device \<Rightarrow> 'd KFS \<Rightarrow> 'd KFS \<Rightarrow> bool" for D where
  step_create: "Create D path k = (Inr (), k') \<Longrightarrow> k_nextIno k \<noteq> NOT 0 \<Longrightarrow> length path \<le> 65520 \<Longrightarrow>
     kfs_step D k k'"
| step_mkdir: "Mkdir D path k = (Inr (), k') \<Longrightarrow> k_nextIno k \<noteq> NOT 0 \<Longrightarrow> length path \<le> 65520 \<Longrightarrow>
     kfs_step D k k'"
| step_write: "WriteFile D path off data k = (Inr (), k') \<Longrightarrow> unat off + length data < 2 ^ 63 \<Longrightarrow>
     length data \<le> 65520 \<Longrightarrow> kfs_step D k k'"
| step_uid: "SetUID D path uid k = (Inr (), k') \<Longrightarrow> kfs_step D k k'"
| step_read: "ReadFile D path off buf k = (Inr r, k') \<Longrightarrow> kfs_step D k k'"
| step_remount: "MountKFS D (k_dev k) = Inr k' \<Longrightarrow> kfs_step D k k'"

inductive kfs_reach :: "'d Device \<Rightarrow> 'd \<Rightarrow> 'd KFS \<Rightarrow> bool" for D d0 where
  boot: "FormatKFS D d0 = (Inr (), d1) \<Longrightarrow> MountKFS D d1 = Inr k \<Longrightarrow> kfs_reach D d0 k"
| step: "kfs_reach D d0 k \<Longrightarrow> kfs_step D k k' \<Longrightarrow> kfs_reach D d0 k'"

text \<open>The disk a run starts from: at least sixteen sectors, zero behind the fresh log.\<close>

definition blank_image :: "bytes \<Rightarrow> bool" where
  "blank_image I \<longleftrightarrow> 16 * 512 \<le> length I \<and> (\<forall>b \<in> set (drop (512 + 35) I). b = 0)"

lemma wf_findDirent:
  assumes "wf_tables k" "findDirent k p leaf = Some di"
  shows "di < length (k_dirents k)"
proof -
  have "di \<in> set (children_of k p)" using assms(2) by (auto simp: findDirent_def find_Some_iff)
  then obtain "is" where "k_children k p = Some is" "di \<in> set is"
    by (cases "k_children k p") (auto simp: children_of_def)
  then show ?thesis using assms(1) wf_childD by blast
qed

context block_device
begin

lemma mount_synced:
  assumes "synced_with k k0"
  obtains k1 where "MountKFS D (k_dev k) = Inr k1" "synced_with k1 k0" "same_tables k1 k" "k_wOff k1 = k_wOff k"
proof -
  have k: "wf_tables k" "committed k k0" "same_tables k0 k" using assms by (simp_all add: synced_with_def)
  from committed_mount [OF k(2)] obtain k1 where
    k1: "MountKFS D (k_dev k) = Inr k1" "kok k1" "img (k_dev k1) = img (k_dev k)" "k_wOff k1 = k_wOff k"
    "k_inodes k1 = k_inodes k0" "k_children k1 = k_children k0"
    "k_dirents k1 = k_dirents k0" "k_nextIno k1 = k_nextIno k0" "k_data k1 = k_data k0" .
  have st: "same_tables k1 k" using k(3) k1 by (simp add: same_tables_def)
  have "committed k1 k0" using k(2) k1(2-4) by (auto simp: committed_def logged_def)
  moreover have "coherent k1 k0" using k1(9) by (simp add: coherent_def data_of_def content_def)
  ultimately have "synced_with k1 k0"
    using st k(1,3) wf_cong [OF st] by (simp add: synced_with_def same_tables_def)
  then show ?thesis by (rule that [OF k1(1) _ st k1(4)])
qed

lemma ReadFile_step:
  assumes "synced_with k k0" "ReadFile D path off buf k = (Inr r, k')"
  shows "synced_with k' k0"
proof (cases "k' = k")
  case False
  have b: "buf \<noteq> []" using assms(2) False by (auto simp: ReadFile_def)
  obtain p leaf where p: "walkParent k path = Inr (p, leaf)"
    using assms(2) False b by (cases "walkParent k path") (auto simp: ReadFile_def)
  obtain di where di: "findDirent k p leaf = Some di"
    using assms(2) False b p by (cases "findDirent k p leaf") (auto simp: ReadFile_def)
  note w = b p di
  obtain nd where i: "k_inodes k (d_ino (k_dirents k ! di)) = Some nd"
    using assms(2) False w by (cases "k_inodes k (d_ino (k_dirents k ! di))") (auto simp: ReadFile_def)
  moreover have "i_kind nd \<noteq> KindDir" using assms(2) w i by (auto simp: ReadFile_def)
  moreover have "unat off < unat (i_size nd)"
    using assms(2) w i calculation(2) False by (cases "unat (i_size nd) \<le> unat off") (simp_all add: ReadFile_def)
  ultimately have nd: "k_inodes k (d_ino (k_dirents k ! di)) = Some nd" "i_kind nd \<noteq> KindDir"
      "unat off < unat (i_size nd)" by simp_all
  obtain x k2 where "ReadFile D path off buf k = (x, k2)" "synced_with k2 k0"
    by (rule ReadFile_synced [OF assms(1) w(2,3) nd w(1)])
  then show ?thesis using assms(2) by simp
qed (use assms(1) in simp)

lemma step_synced:
  assumes "kfs_step D k k'" "synced_with k k0"
  shows "\<exists>k1. synced_with k' k1"
  using assms
proof (cases rule: kfs_step.cases)
  case (step_create path) show ?thesis by (rule Create_synced [OF assms(2) step_create]) blast+
next
  case (step_mkdir path) show ?thesis by (rule Mkdir_synced [OF assms(2) step_mkdir]) blast+
next
  case (step_write path off data) show ?thesis by (rule WriteFile_synced [OF assms(2) step_write]) blast+
next
  case (step_uid path uid) show ?thesis by (rule SetUID_synced [OF assms(2) step_uid]) blast+
next
  case (step_read path off buf r) then show ?thesis using ReadFile_step [OF assms(2)] by blast
next
  case step_remount
  obtain k1 where "MountKFS D (k_dev k) = Inr k1" "synced_with k1 k0" by (rule mount_synced [OF assms(2)])
  with step_remount show ?thesis by (metis sum.inject(2))
qed

lemma reach_synced:
  assumes "kfs_reach D d0 k" "dok d0" "blank_image (img d0)"
  shows "\<exists>k0. synced_with k k0"
  using assms(1)
proof (induction rule: kfs_reach.induct)
  case (boot d1 k)
  have "16 * 512 \<le> length (img d0)" "\<forall>b \<in> set (drop (512 + 35) (img d0)). b = 0"
    using assms(3) unfolding blank_image_def by blast+
  then obtain d' k1 k0 where f: "FormatKFS D d0 = (Inr (), d')" "MountKFS D d' = Inr k1" "synced_with k1 k0"
    by (rule fresh_synced [OF assms(2)])
  have "d' = d1" using f(1) boot(1) by simp
  with f(2) boot(2) have "k1 = k" by simp
  with f(3) show ?case by blast
next
  case (step k k')
  then show ?case using step_synced by blast
qed

end

section \<open>Lookups depend on the tree only\<close>

lemma findDirent_cong:
  "k_children k = k_children k' \<Longrightarrow> k_dirents k = k_dirents k' \<Longrightarrow> findDirent k = findDirent k'"
  by (simp add: findDirent_def children_of_def fun_eq_iff)

lemma walkParent_cong:
  assumes "k_children k = k_children k'" "k_dirents k = k_dirents k'"
    "\<And>ino. map_option i_kind (k_inodes k ino) = map_option i_kind (k_inodes k' ino)"
  shows "walkParent k = walkParent k'"
proof -
  have f: "findDirent k = findDirent k'" by (rule findDirent_cong [OF assms(1,2)])
  have "walkParent_loop k cur parts = walkParent_loop k' cur parts" for cur parts
  proof (induction parts arbitrary: cur)
    case (Cons part parts)
    show ?case
    proof (cases "findDirent k' cur part")
      case (Some di)
      let ?n = "d_ino (k_dirents k' ! di)"
      show ?thesis
        using assms(3) [of ?n] Cons.IH [of ?n] Some
        by (cases "k_inodes k ?n"; cases "k_inodes k' ?n") (simp_all add: f assms(2))
    qed (simp add: f)
  qed simp
  then show ?thesis by (intro ext) (simp add: walkParent_def split: sum.split)
qed

lemma same_tables_walk:
  assumes "same_tables k k'"
  shows "walkParent k = walkParent k'" "findDirent k = findDirent k'"
  using assms by (auto simp: same_tables_def intro!: walkParent_cong findDirent_cong)

lemma ReadFile_size0:
  assumes "walkParent k path = Inr (p, leaf)" "findDirent k p leaf = Some di" "buf \<noteq> []"
    "k_inodes k (d_ino (k_dirents k ! di)) = None \<or>
     (\<exists>nd. k_inodes k (d_ino (k_dirents k ! di)) = Some nd \<and> i_kind nd \<noteq> KindDir \<and> unat (i_size nd) \<le> unat off)"
  shows "ReadFile D path off buf k = (Inr (0, buf), k)"
  using assms by (auto simp: ReadFile_def)

context block_device
begin

lemma ReadFile_agree:
  assumes "synced_with k k0" "synced_with k' k1" "walkParent k path = walkParent k' path"
    "findDirent k = findDirent k'" "k_dirents k = k_dirents k'"
    "\<And>p leaf di. walkParent k' path = Inr (p, leaf) \<Longrightarrow> findDirent k' p leaf = Some di \<Longrightarrow>
       k_inodes k (d_ino (k_dirents k' ! di)) = k_inodes k' (d_ino (k_dirents k' ! di)) \<and>
       data_of k0 (d_ino (k_dirents k' ! di)) = data_of k1 (d_ino (k_dirents k' ! di))"
  shows "fst (ReadFile D path off buf k) = fst (ReadFile D path off buf k')"
proof (cases "buf = []")
  case True
  then show ?thesis by (simp add: ReadFile_def)
next
  case b: False
  note w = assms(3-5)
  show ?thesis
  proof (cases "walkParent k' path")
    case (Inl e)
    then show ?thesis using w b by (simp add: ReadFile_def)
  next
    case (Inr x)
    then obtain p leaf where p: "walkParent k' path = Inr (p, leaf)" by (cases x) simp
    show ?thesis
    proof (cases "findDirent k' p leaf")
      case None
      then show ?thesis using w b p by (simp add: ReadFile_def)
    next
      case di: (Some di)
      let ?i = "k_inodes k' (d_ino (k_dirents k' ! di))"
      note t = assms(6) [OF p di]
      show ?thesis
      proof (cases "?i = None \<or> (\<exists>nd. ?i = Some nd \<and> i_kind nd \<noteq> KindDir \<and> unat (i_size nd) \<le> unat off)")
        case True
        then show ?thesis
          using ReadFile_size0 [of k' path p leaf di buf off] ReadFile_size0 [of k path p leaf di buf off]
            w b p di t by simp
      next
        case False
        then obtain nd where nd: "?i = Some nd" by (cases ?i) auto
        show ?thesis
        proof (cases "i_kind nd = KindDir")
          case True
          then show ?thesis using w b p di t nd by (simp add: ReadFile_def)
        next
          case plain: False
          with False nd have off: "unat off < unat (i_size nd)" by auto
          obtain x where "ReadFile D path off buf k = (Inr (min (unat (i_size nd) - unat off) (length buf),
              go_copy buf 0 (window (unat off) (min (unat (i_size nd) - unat off) (length buf))
                (content (data_of k0 (d_ino (k_dirents k ! di))) (unat (i_size nd))))), x)"
            by (rule ReadFile_synced [OF assms(1), of path p leaf di nd off buf])
               (use w b p di t nd plain off in simp_all)
          moreover obtain y where "ReadFile D path off buf k' = (Inr (min (unat (i_size nd) - unat off) (length buf),
              go_copy buf 0 (window (unat off) (min (unat (i_size nd) - unat off) (length buf))
                (content (data_of k1 (d_ino (k_dirents k' ! di))) (unat (i_size nd))))), y)"
            by (rule ReadFile_synced [OF assms(2), of path p leaf di nd off buf])
               (use b p di nd plain off in simp_all)
          ultimately show ?thesis using t w(3) by simp
        qed
      qed
    qed
  qed
qed

lemma ReadFile_same:
  assumes "synced_with k k0" "synced_with k' k0" "same_tables k k'"
  shows "fst (ReadFile D path off buf k) = fst (ReadFile D path off buf k')"
  by (rule ReadFile_agree [OF assms(1,2)])
     (use assms(3) same_tables_walk [OF assms(3)] in \<open>simp_all add: same_tables_def\<close>)

end

section \<open>A torn append\<close>

text \<open>The bytes of a payload that a torn write leaves: what was written, then the old zeros.\<close>

definition torn :: "nat \<Rightarrow> bytes \<Rightarrow> bytes" where
  "torn j p = take j p @ replicate (length p - j) 0"

lemma torn_dead_tail:
  assumes "drop w I = take j (EncodeRecord t p) @ replicate n 0" "length p \<le> MaxPayload"
    "j + n \<ge> HdrLen + length p" "j \<le> HdrLen + length p"
    "j < HdrLen \<or> ChecksumIEEE (torn (j - HdrLen) p) \<noteq> ChecksumIEEE p"
  shows "dead_tail I w"
proof -
  let ?h = "length I - 1" and ?e = "EncodeRecord t p"
  define plen where "plen = unat (Get32 (drop w I))"
  consider "log_scan ?h I w = []" | r rs where "log_scan ?h I w = r # rs" by (cases "log_scan ?h I w") auto
  then show ?thesis
  proof cases
    case 2
    then have g: "w + HdrLen \<le> length I" "plen \<le> MaxPayload" "w + HdrLen + plen \<le> length I"
        and dec: "DecodeRecord (window w HdrLen I) (window (w + HdrLen) plen I) = Some r"
      using log_scan.simps [of ?h I w]
      by (auto simp: Let_def plen_def [symmetric] split: if_splits option.splits)
    from dec have r: "Type r = window w HdrLen I ! 8"
      and crc: "ChecksumIEEE (window (w + HdrLen) plen I) = Get32 (drop 4 (window w HdrLen I))"
      using g(2,3) by (auto simp: DecodeRecord_window [OF g(3) plen_def g(2)] split: if_splits)
    show ?thesis
    proof (cases "j < HdrLen")
      case True
      have "window w HdrLen I ! 8 = drop w I ! 8" by (simp add: window_def)
      also have "\<dots> = 0" using True assms(3) by (simp add: assms(1) nth_append)
      finally show ?thesis using 2 r by (simp add: dead_tail_def)
    next
      case False
      let ?hd = "le32 (of_nat (length p)) @ le32 (ChecksumIEEE p) @ [t]"
      have d: "drop w I = ?hd @ take (j - HdrLen) p @ replicate n 0"
      proof -
        have "EncodeRecord t p = ?hd @ p" "length ?hd = HdrLen" by (simp_all add: EncodeRecord_layout)
        then have "take j (EncodeRecord t p) = ?hd @ take (j - HdrLen) p"
          using False by (simp only: take_append) simp
        then show ?thesis by (simp add: assms(1))
      qed
      have h: "window w HdrLen I = ?hd" by (simp add: window_def d)
      have pl: "plen = length p" using assms(2) by (simp add: plen_def d unat_u32_of_nat)
      have "drop (w + HdrLen) I = drop HdrLen (drop w I)" by (simp add: add.commute)
      then have "window (w + HdrLen) plen I = torn (j - HdrLen) p"
        using assms(3,4) False by (auto simp: window_def d pl torn_def min_def)
      with crc h assms(5) False show ?thesis by simp
    qed
  qed (simp add: dead_tail_def)
qed

context block_device
begin

lemma torn_mount:
  assumes "synced_with k k0" "dok d'"
    "img d' = go_copy (img (k_dev k)) (k_wOff k) (take j (EncodeRecord t p))"
    "k_wOff k + length (EncodeRecord t p) \<le> k_logEnd k" "length p \<le> MaxPayload" "j \<le> length (EncodeRecord t p)"
    "j < HdrLen \<or> ChecksumIEEE (torn (j - HdrLen) p) \<noteq> ChecksumIEEE p"
  shows "\<exists>k1. MountKFS D d' = Inr k1 \<and> same_tables k1 k \<and> k_wOff k1 = k_wOff k"
proof -
  let ?I = "img (k_dev k)" and ?e = "take j (EncodeRecord t p)"
  have c: "committed k k0" "same_tables k0 k" using assms(1) by (simp_all add: synced_with_def)
  then obtain rs where rs: "logged k rs" "replays rs k0" by (auto simp: committed_def)
  have l: "kok k" "sb_ok ?I" "holds_log ?I rs (k_wOff k)" "list_all (\<lambda>r. Payload r \<noteq> []) rs"
    using rs(1) by (simp_all add: logged_def)
  obtain n where z: "drop (k_wOff k) ?I = replicate n 0" using rs(1) by (auto simp: logged_def)
  have w: "512 \<le> k_wOff k" "k_wOff k + length (EncodeRecord t p) \<le> length ?I"
    "k_wOff k = LogStart + length (frames rs)"
    using l(1,3) assms(4) by (simp_all add: holds_log_def kok_def)
  have n: "n = length ?I - k_wOff k" using arg_cong [OF z, of length] by simp
  have le: "length ?e = j" using assms(6) by simp
  have "drop (k_wOff k) (img d') = ?e @ drop (length ?e) (drop (k_wOff k) ?I)"
    using w(2) le assms(6) by (simp add: assms(3) go_copy_exact add.commute)
  then have "drop (k_wOff k) (img d') = ?e @ replicate (n - j) 0"
    unfolding z le by (simp only: drop_replicate)
  then have dead: "dead_tail (img d') (k_wOff k)"
    by (rule torn_dead_tail) (use assms(5-7) w(2) n in simp_all)
  have "sb_ok (img d')" using l(2) w sb_ok_go_copy [OF w(1)] by (simp add: assms(3))
  moreover have "holds_log (img d') rs (k_wOff k)"
  proof -
    have "window LogStart (length (frames rs)) (img d') = window LogStart (length (frames rs)) ?I"
      using w le assms(6) by (simp add: assms(3) window_def go_copy_exact drop_take)
    then show ?thesis using l(3) w by (simp add: holds_log_def assms(3))
  qed
  ultimately obtain d2 nb b where
    m: "MountKFS D d' = (case apply_all rs LogStart (emptyKFS d2 nb b 0) of
        (Inl e, k) \<Rightarrow> Inl (e, d2) | (Inr pos, k) \<Rightarrow> Inr (k\<lparr>k_wOff := pos\<rparr>))"
    by (rule holds_mount [OF assms(2) _ _ l(4) dead])
  then show ?thesis
    using replays_geom [OF rs(2), of d2 nb b] c(2) w(3) by (simp add: same_tables_def geom_select)
qed

end

section \<open>Progress\<close>

text \<open>Operations that fit in the log succeed; a paced checkpoint takes at most 13 bytes more.\<close>

lemma length_appended:
  "length (frames (appended t p recs n)) \<le> HdrLen + length p + 13"
  by (simp add: appended_def CheckpointPayload_layout)

context block_device
begin

lemma append_progress:
  assumes "kok k" "k_wOff k + HdrLen + length p + 13 \<le> k_logEnd k"
  obtains f where "kfs_append D t p k = (Inr (), with_fmt f k)" "kok (with_fmt f k) \<or> k_wOff k < LogStart"
    "f_wOff f \<le> k_wOff k + HdrLen + length p + 13"
proof -
  let ?a = "appended t p (k_recs k) (k_nextIno k)"
  have f: "fok (fmt_of k)" using assms(1) by (simp add: fok_def kok_def fmt_of_def)
  have "f_wOff (fmt_of k) + length (frames (appended t p (f_recs (fmt_of k)) (f_nextIno (fmt_of k)))) \<le> f_logEnd (fmt_of k)"
    using assms(2) length_appended [of t p "k_recs k" "k_nextIno k"] by (simp add: fmt_of_def)
  from Append_img [OF f this] obtain d' where d':
    "Append D t p (fmt_of k) = (Inr (), (fmt_of k)\<lparr>f_dev := d', f_wOff := k_wOff k + length (frames ?a),
         f_recs := k_recs k + (if t = RecCheckpoint then 0 else 1)\<rparr>)" (is "_ = (_, ?f)")
    "dok d'" "img d' = go_copy (img (k_dev k)) (k_wOff k) (frames ?a)"
    by (auto simp: fmt_of_def)
  have l: "length (img d') = length (img (k_dev k))"
    using assms by (simp add: d'(3) kok_def)
  have "take m (img d') = take m (img (k_dev k))" if "m \<le> k_wOff k" for m
    using that assms by (simp add: d'(3) go_copy_def kok_def)
  then have "kok (with_fmt ?f k) \<or> k_wOff k < LogStart"
    using assms(1) d'(2) l by (auto simp: kok_def with_fmt_def fmt_of_def not_less)
  moreover have "f_wOff ?f \<le> k_wOff k + HdrLen + length p + 13"
    using length_appended [of t p "k_recs k" "k_nextIno k"] by simp
  ultimately show ?thesis using that kfs_append_of_Append(1) [OF d'(1)] by blast
qed

lemma Create_progress:
  assumes "synced_with k k0" "walkParent k path = Inr (p, leaf)" "findDirent k p leaf = None"
    "k_wOff k + 68 + length leaf \<le> k_logEnd k"
  obtains k' where "Create D path k = (Inr (), k')" "k_wOff k' \<le> k_wOff k + 68 + length leaf"
    "k_logEnd k' = k_logEnd k"
proof -
  let ?nd = "\<lparr>i_ino = k_nextIno k, i_uid = 0, i_kind = KindFile, i_size = 0\<rparr>"
  let ?k = "k\<lparr>k_nextIno := k_nextIno k + 1\<rparr>"
  let ?p = "AppendLStr (le32 p @ [0]) leaf @ le32 (k_nextIno k)"
  have k: "kok k" "LogStart \<le> k_wOff k"
    using assms(1) by (auto simp: synced_with_def committed_def logged_def holds_log_def)
  have k1: "kok ?k" using k(1) by (simp add: kok_def)
  have lp: "length (kfsInodePayload ?nd) = 13" "length ?p = 11 + length leaf"
    by (simp_all add: kfsInodePayload_layout AppendLStr_def)
  obtain f1 where f1: "kfs_append D RecInode (kfsInodePayload ?nd) ?k = (Inr (), with_fmt f1 ?k)"
      "kok (with_fmt f1 ?k) \<or> k_wOff ?k < LogStart" "f_wOff f1 \<le> k_wOff ?k + HdrLen + length (kfsInodePayload ?nd) + 13"
    by (rule append_progress [OF k1, of "kfsInodePayload ?nd" RecInode]) (use assms(4) lp(1) in simp_all)
  have k2: "kok (with_fmt f1 ?k)" using f1(2) k(2) by simp
  obtain f2 where f2: "kfs_append D RecDirent ?p (with_fmt f1 ?k) = (Inr (), with_fmt f2 (with_fmt f1 ?k))"
      "f_wOff f2 \<le> k_wOff (with_fmt f1 ?k) + HdrLen + length ?p + 13"
    by (rule append_progress [OF k2, of ?p RecDirent])
       (use assms(4) lp f1(3) in \<open>simp_all add: with_fmt_def\<close>)
  obtain k' where k': "Create D path k = (Inr (), k')" "k_wOff k' = f_wOff f2" "k_logEnd k' = k_logEnd k"
    using f1(1) f2(1) assms(2,3)
    by (auto simp: Create_def allocIno_def appendDirent_def Let_def set_inode_def link_dirent_def with_fmt_def)
  then show ?thesis using that f1(3) f2(2) lp by (simp add: with_fmt_def)
qed

lemma Delete_progress:
  assumes "synced_with k k0" "walkParent k path = Inr (p, leaf)" "findDirent k p leaf = Some di"
    "k_inodes k (d_ino (k_dirents k ! di)) = Some nd" "i_kind nd \<noteq> KindDir"
    "k_wOff k + 29 + length leaf \<le> k_logEnd k"
  obtains k' where "Delete D path k = (Inr (), k')"
proof -
  let ?p = "AppendLStr (le32 p @ [1]) leaf"
  have k: "kok k" using assms(1) by (auto simp: synced_with_def committed_def logged_def)
  have lp: "length ?p = 7 + length leaf" by (simp add: AppendLStr_def)
  obtain f where "kfs_append D RecDirent ?p k = (Inr (), with_fmt f k)"
    by (rule append_progress [OF k, of ?p RecDirent]) (use assms(6) lp in simp_all)
  moreover obtain parts where "splitPath path = Inr parts" "parts \<noteq> []"
    using assms(2) by (auto simp: walkParent_def split: sum.splits if_splits)
  ultimately show ?thesis
    using that assms(2-5) by (auto simp: Delete_def appendDirentDelete_def Let_def)
qed

lemma WriteFile_progress:
  assumes "synced_with k k0" "walkParent k path = Inr (p, leaf)" "findDirent k p leaf = Some di"
    "k_inodes k (d_ino (k_dirents k ! di)) = Some nd" "i_kind nd \<noteq> KindDir"
    "k_wOff k + 73 + length data \<le> k_logEnd k"
  obtains k' where "WriteFile D path off data k = (Inr (), k')"
proof -
  let ?ino = "d_ino (k_dirents k ! di)" and ?n = "new_size (i_size nd) off data"
  let ?nd = "\<lparr>i_ino = ?ino, i_uid = i_uid nd, i_kind = i_kind nd, i_size = ?n\<rparr>"
  have k: "kok k" "LogStart \<le> k_wOff k"
    using assms(1) by (auto simp: synced_with_def committed_def logged_def holds_log_def)
  have lp: "length (data_pl ?ino off data) = 16 + length data" "length (kfsInodePayload ?nd) = 13"
    by (simp_all add: data_pl_def kfsInodePayload_layout)
  obtain f1 where f1: "kfs_append D RecData (data_pl ?ino off data) k = (Inr (), with_fmt f1 k)"
      "kok (with_fmt f1 k) \<or> k_wOff k < LogStart" "f_wOff f1 \<le> k_wOff k + HdrLen + length (data_pl ?ino off data) + 13"
    by (rule append_progress [OF k(1), of "data_pl ?ino off data" RecData]) (use assms(6) lp in simp_all)
  have k1: "kok (with_fmt f1 k)" using f1(2) k(2) by simp
  obtain f2 where f2: "kfs_append D RecInode (kfsInodePayload ?nd) (with_fmt f1 k) = (Inr (), with_fmt f2 (with_fmt f1 k))"
    by (rule append_progress [OF k1, of "kfsInodePayload ?nd" RecInode])
       (use assms(6) f1(3) lp in \<open>simp_all add: with_fmt_def\<close>)
  let ?w = "sbind (kfs_append D RecData (data_pl ?ino off data) k)
        (\<lambda>_ k. sbind (if ?n \<noteq> i_size nd
            then sbind (kfs_append D RecInode (kfsInodePayload ?nd) k)
                 (\<lambda>_ k. (Inr (), set_size ?ino nd ?n k))
            else (Inr (), k))
          (\<lambda>_ k. (Inr (), k\<lparr>k_data := (k_data k)(?ino \<mapsto> [])\<rparr>)))"
  have "WriteFile D path off data k = ?w"
    using assms(2-5) by (simp add: WriteFile_def appendData_pl new_size_def Let_def cong: if_cong)
  moreover have "\<exists>k'. ?w = (Inr (), k')" using f1(1) f2 by simp
  ultimately show ?thesis using that by auto
qed

text \<open>The bytes a log describes stay in the lower half of the 64-bit range.\<close>

lemma apply_all_short:
  assumes "apply_all rs pos k = (Inr (pos + length (frames rs)), k')"
    "list_all (\<lambda>r. data_fit (Type r) (Payload r)) rs" "\<forall>ino. length (data_of k ino) < 2 ^ 63"
  shows "\<forall>ino. length (data_of k' ino) < 2 ^ 63"
  using assms
proof (induction rs arbitrary: pos k)
  case (Cons r rs)
  then obtain k1 where k1: "kfs_apply (Type r) (Payload r) k = Inr (True, k1)"
    "apply_all rs (pos + length (frame r)) k1 = (Inr (pos + length (frame r) + length (frames rs)), k')"
    by (auto simp: add.assoc split: sum.splits if_splits)
  have fit: "data_fit (Type r) (Payload r)" using Cons.prems(2) by simp
  have "\<forall>ino. length (data_of k1 ino) < 2 ^ 63"
  proof (cases "Type r = RecData \<and> Get64 (drop 4 (Payload r)) \<noteq> TruncSentinel")
    case True
    then have f: "length (Payload r) = 16 + unat (Get32 (drop 12 (Payload r)))"
        "Get64 (drop 4 (Payload r)) \<noteq> TruncSentinel"
        "unat (Get64 (drop 4 (Payload r))) + unat (Get32 (drop 12 (Payload r))) < 2 ^ 63"
      using fit unfolding data_fit_def by blast+
    have "k1 = k\<lparr>k_data := (k_data k)(Get32 (Payload r) \<mapsto> splice (data_of k (Get32 (Payload r)))
        (unat (Get64 (drop 4 (Payload r)))) (drop 16 (Payload r)))\<rparr>"
      using apply_data_fit [OF f, of k] k1(1) True by simp
    moreover have "length (drop 16 (Payload r)) = unat (Get32 (drop 12 (Payload r)))"
      unfolding length_drop f(1) by simp
    ultimately show ?thesis using Cons.prems(3) f(3) by (auto simp: data_of_upd)
  next
    case False
    then have "data_of k1 = data_of k \<or> data_of k1 = (data_of k)(Get32 (Payload r) := [])"
      using k1(1) kfs_apply_no_data [OF k1(1)]
      by (auto simp: kfs_apply_def apply_data_def Let_def data_of_upd split: if_splits)
    then show ?thesis using Cons.prems(3) by auto
  qed
  with Cons.IH [OF k1(2)] Cons.prems(2) show ?case by simp
qed simp

lemma committed_short:
  assumes "committed k k0"
  shows "\<forall>ino. length (data_of k0 ino) < 2 ^ 63"
proof -
  obtain rs where rs: "replays rs k0" "list_all (\<lambda>r. data_fit (Type r) (Payload r)) rs"
    using assms by (auto simp: committed_def)
  show ?thesis
    by (rule apply_all_short [OF rs(1) [unfolded replays_def] rs(2)]) (simp add: data_of_def emptyKFS_def)
qed

end

section \<open>Properties of runs\<close>

text \<open>A run that witnesses the properties: a sixteen-sector memory disk with one file \<^verbatim>\<open>/a\<close>.\<close>

abbreviation (input) disk16 :: memDevice where "disk16 \<equiv> newMem 512 16"
abbreviation (input) path_a :: bytes where "path_a \<equiv> [0x2F, 0x61]"

lemma disk16_blank: "mem_inv disk16" "blank_image (mem_buf disk16)"
  by (rule mem_inv_newMem, simp) (simp add: blank_image_def newMem_def)

lemma fresh_walk:
  assumes "same_tables k (put_inode rootInode (emptyKFS d 0 [] 0))"
  shows "walkParent k path_a = Inr (RootIno, [0x61])" "findDirent k RootIno [0x61] = None"
    "k_nextIno k = 2"
  using assms
  by (simp_all add: walkParent_def splitPath_def findDirent_def children_of_def same_tables_def
      put_inode_def emptyKFS_def rootInode_def Let_def)

lemma mem_logEnd: "mem.synced_with k k0 \<Longrightarrow> k_logEnd k = length (mem_buf (k_dev k))"
  by (auto simp: mem.synced_with_def mem.committed_def mem.logged_def mem.kok_def)

lemma run_a:
  obtains k k0 nd where "kfs_reach mem_dev disk16 k" "mem.synced_with k k0"
    "walkParent k path_a = Inr (RootIno, [0x61])" "findDirent k RootIno [0x61] = Some 0"
    "k_inodes k (d_ino (k_dirents k ! 0)) = Some nd" "i_kind nd \<noteq> KindDir" "i_size nd = 0"
    "k_wOff k + 4000 \<le> k_logEnd k" "k_nextIno k = 3" "findDirent k RootIno [0x62] = None"
proof -
  let ?nd = "\<lparr>i_ino = 2, i_uid = 0, i_kind = KindFile, i_size = 0\<rparr>"
  have b: "16 * 512 \<le> length (mem_buf disk16)" "\<forall>b\<in>set (drop (512 + 35) (mem_buf disk16)). b = 0"
    by (simp_all add: newMem_def)
  obtain d' k k0 where f: "FormatKFS mem_dev disk16 = (Inr (), d')" "MountKFS mem_dev d' = Inr k"
    "mem.synced_with k k0" "same_tables k (put_inode rootInode (emptyKFS d' 0 [] 0))"
    "k_wOff k = LogStart + 35" "k_logEnd k = length (mem_buf disk16)"
    by (rule mem.fresh_synced [OF disk16_blank(1) b])
  note w = fresh_walk [OF f(4)]
  have r: "kfs_reach mem_dev disk16 k" by (rule kfs_reach.boot [OF f(1,2)])
  have e: "k_logEnd k = 8192" by (simp add: f(6) newMem_def)
  obtain k' where k': "Create mem_dev path_a k = (Inr (), k')" "k_wOff k' \<le> k_wOff k + 68 + length [0x61 :: byte]"
      "k_logEnd k' = k_logEnd k"
    by (rule mem.Create_progress [OF f(3) w(1,2)]) (use f(5) e in simp_all)
  have ino: "k_nextIno k \<noteq> NOT 0" by (simp add: w(3))
  have r': "kfs_reach mem_dev disk16 k'"
    by (rule kfs_reach.step [OF r kfs_step.step_create [OF k'(1) ino]]) simp
  show ?thesis
  proof (rule mem.Create_synced [OF f(3) k'(1) ino])
    fix p leaf k1
    assume n: "walkParent k path_a = Inr (p, leaf)" "mem.synced_with k' k1"
      "same_tables k' (new_entry p leaf \<lparr>i_ino = k_nextIno k, i_uid = 0, i_kind = KindFile, i_size = 0\<rparr> k)"
    have pl: "p = RootIno" "leaf = [0x61]" using n(1) w(1) by simp_all
    have st: "same_tables k' (new_entry RootIno [0x61] ?nd (put_inode rootInode (emptyKFS d' 0 [] 0)))"
      using n(3) f(4) w(3)
      by (simp add: pl same_tables_def new_entry_def link_dirent_def set_inode_def children_of_def Let_def)
    show thesis
      by (rule that [OF r' n(2), of ?nd])
         (use st k'(2,3) e f(5) in \<open>simp_all add: same_tables_def new_entry_def link_dirent_def set_inode_def
            children_of_def put_inode_def emptyKFS_def rootInode_def walkParent_def splitPath_def findDirent_def Let_def\<close>)
  next
    fix p leaf di
    assume "walkParent k path_a = Inr (p, leaf)" "findDirent k p leaf = Some di"
    with w show thesis by simp
  qed simp
qed

lemma new_size_ge:
  assumes "unat off + length data < 2 ^ 32"
  shows "unat off + length data \<le> unat (new_size sz off data)"
proof -
  have u: "unat (off + of_nat (length data)) = unat off + length data"
    using assms by (simp add: unat_word_ariths unat_of_nat)
  then have c: "unat (ucast (off + of_nat (length data)) :: u32) = unat off + length data"
    using assms by (simp add: unsigned_ucast_eq take_bit_nat_eq_self)
  have "unat sz < 2 ^ 32" using unsigned_less [of sz] by simp
  then have "unat (ucast sz :: u64) = unat sz" by (simp add: unsigned_ucast_eq take_bit_nat_eq_self)
  with u c show ?thesis by (auto simp: new_size_def Let_def word_less_nat_alt)
qed

lemma window_content_splice:
  "off + length data \<le> n \<Longrightarrow> window off (length data) (content (splice b off data) n) = data"
  by (rule nth_equalityI) (auto simp: window_nth content_nth splice_nth)

context block_device
begin

lemma read_after_write:
  assumes "synced_with k k0" "WriteFile D path off data k = (Inr (), k')"
    "data \<noteq> []" "length data \<le> 65520" "unat off + length data < 2 ^ 32"
  shows "\<exists>k2. ReadFile D path off (replicate (length data) 0) k' = (Inr (length data, data), k2)"
proof -
  have b: "unat off + length data < 2 ^ 63" using assms(5) by simp
  obtain p leaf di nd k1 where w: "walkParent k path = Inr (p, leaf)" "findDirent k p leaf = Some di"
    and nd: "k_inodes k (d_ino (k_dirents k ! di)) = Some nd" "i_kind nd \<noteq> KindDir" and s: "synced_with k' k1"
    and d: "data_of k1 = (data_of k0)(d_ino (k_dirents k ! di) :=
       splice (data_of k0 (d_ino (k_dirents k ! di))) (unat off) data)"
    and st: "same_tables k' (k\<lparr>k_inodes := (k_inodes k)(d_ino (k_dirents k ! di) \<mapsto>
       nd\<lparr>i_size := new_size (i_size nd) off data\<rparr>)\<rparr>)"
    by (rule WriteFile_synced [OF assms(1,2) b assms(4)])
  let ?n = "unat (new_size (i_size nd) off data)"
  have n: "unat off + length data \<le> ?n" by (rule new_size_ge [OF assms(5)])
  then have lt: "unat off < ?n" using assms(3) by (cases data) simp_all
  have t: "k_children k' = k_children k" "k_dirents k' = k_dirents k"
    "k_inodes k' = (k_inodes k)(d_ino (k_dirents k ! di) \<mapsto> nd\<lparr>i_size := new_size (i_size nd) off data\<rparr>)"
    using st by (simp_all add: same_tables_def)
  have "walkParent k' = walkParent k" "findDirent k' = findDirent k"
    using t nd(1) by (auto intro!: walkParent_cong findDirent_cong)
  then obtain k2 where r: "ReadFile D path off (replicate (length data) 0) k' =
      (Inr (min (?n - unat off) (length data), go_copy (replicate (length data) 0) 0
         (window (unat off) (min (?n - unat off) (length data))
           (content (data_of k1 (d_ino (k_dirents k' ! di))) ?n))), k2)"
    using ReadFile_synced [OF s, of path p leaf di "nd\<lparr>i_size := new_size (i_size nd) off data\<rparr>" off
        "replicate (length data) 0"] w nd t n lt assms(3) by auto
  have "min (?n - unat off) (length data) = length data" using n by simp
  with r window_content_splice [OF n] show ?thesis by (simp add: t(2) d)
qed

lemma write_frame:
  assumes "synced_with k k0" "WriteFile D path off data k = (Inr (), k')"
    "length data \<le> 65520" "unat off + length data < 2 ^ 63"
    "walkParent k path = Inr (p, leaf)" "findDirent k p leaf = Some di"
    "\<And>q l dj. walkParent k other = Inr (q, l) \<Longrightarrow> findDirent k q l = Some dj \<Longrightarrow>
       d_ino (k_dirents k ! dj) \<noteq> d_ino (k_dirents k ! di)"
  shows "fst (ReadFile D other off' buf k') = fst (ReadFile D other off' buf k)"
proof -
  obtain p' leaf' di' nd k1 where w: "walkParent k path = Inr (p', leaf')" "findDirent k p' leaf' = Some di'"
    and nd: "k_inodes k (d_ino (k_dirents k ! di')) = Some nd" and s: "synced_with k' k1"
    and d: "data_of k1 = (data_of k0)(d_ino (k_dirents k ! di') :=
       splice (data_of k0 (d_ino (k_dirents k ! di'))) (unat off) data)"
    and st: "same_tables k' (k\<lparr>k_inodes := (k_inodes k)(d_ino (k_dirents k ! di') \<mapsto>
       nd\<lparr>i_size := new_size (i_size nd) off data\<rparr>)\<rparr>)"
    by (rule WriteFile_synced [OF assms(1,2,4,3)])
  have e: "di' = di" using w assms(5,6) by simp
  have t: "k_children k' = k_children k" "k_dirents k' = k_dirents k"
    "k_inodes k' = (k_inodes k)(d_ino (k_dirents k ! di) \<mapsto> nd\<lparr>i_size := new_size (i_size nd) off data\<rparr>)"
    using st e by (simp_all add: same_tables_def)
  have c: "walkParent k' = walkParent k" "findDirent k' = findDirent k"
    using t nd e by (auto intro!: walkParent_cong findDirent_cong)
  show ?thesis
    by (rule ReadFile_agree [OF s assms(1)]) (use c t d e assms(7) in auto)
qed

end



text \<open>
  C2: Read your writes.  After a successful write of a non-empty block that ends below 4 GiB,
  reading the same range of the same path returns exactly the bytes written.
\<close>

theorem kfs_read_after_write:
  assumes "block_device D dok img" "dok d0" "blank_image (img d0)" "kfs_reach D d0 k"
    and "WriteFile D path off data k = (Inr (), k')"
    and "data \<noteq> []" "length data \<le> 65520" "unat off + length data < 2 ^ 32"
  shows "\<exists>k2. ReadFile D path off (replicate (length data) 0) k' = (Inr (length data, data), k2)"
proof -
  obtain k0 where "block_device.synced_with dok img k k0"
    using block_device.reach_synced [OF assms(1,4,2,3)] by blast
  then show ?thesis by (rule block_device.read_after_write [OF assms(1) _ assms(5-8)])
qed

theorem kfs_read_after_write_witness:
  "\<exists>k k' k2. kfs_reach mem_dev disk16 k \<and> WriteFile mem_dev path_a 700 [1, 2, 3] k = (Inr (), k') \<and>
     ReadFile mem_dev path_a 700 [0, 0, 0] k' = (Inr (3, [1, 2, 3]), k2)"
proof -
  obtain k k0 nd where k: "kfs_reach mem_dev disk16 k" "mem.synced_with k k0"
    "walkParent k path_a = Inr (RootIno, [0x61])" "findDirent k RootIno [0x61] = Some 0"
    "k_inodes k (d_ino (k_dirents k ! 0)) = Some nd" "i_kind nd \<noteq> KindDir" "k_wOff k + 4000 \<le> k_logEnd k"
    by (rule run_a)
  obtain k' where w: "WriteFile mem_dev path_a 700 [1, 2, 3] k = (Inr (), k')"
    by (rule mem.WriteFile_progress [OF k(2-6), of "[1, 2, 3]" 700]) (use k(7) in simp_all)
  have "\<exists>k2. ReadFile mem_dev path_a 700 (replicate (length [1, 2, 3 :: byte]) 0) k' =
      (Inr (length [1, 2, 3 :: byte], [1, 2, 3]), k2)"
    by (rule kfs_read_after_write [OF mem.block_device_axioms disk16_blank k(1) w]) simp_all
  with k(1) w show ?thesis by (auto simp: eval_nat_numeral)
qed



text \<open>
  C37: A deletion does not survive a remount.  Deleting a path from a running filesystem reports
  success, but the record it appends is one that replay refuses: the next mount has the tables
  from before the deletion, and its write cursor is put back over the refused record.
\<close>

theorem kfs_delete_undone:
  assumes "block_device D dok img" "dok d0" "blank_image (img d0)" "kfs_reach D d0 k"
    and "Delete D path k = (Inr (), k')" "length path \<le> 65520"
  shows "\<exists>k1. MountKFS D (k_dev k') = Inr k1 \<and> same_tables k1 k \<and> k_wOff k1 = k_wOff k \<and> k_wOff k < k_wOff k'"
proof -
  obtain k0 where s: "block_device.synced_with dok img k k0"
    using block_device.reach_synced [OF assms(1,4,2,3)] by blast
  show ?thesis by (rule block_device.Delete_mount [OF assms(1) s assms(5,6)]) blast
qed

theorem kfs_delete_undone_witness:
  "\<exists>k k' k1. kfs_reach mem_dev disk16 k \<and> findDirent k RootIno [0x61] = Some 0 \<and>
     Delete mem_dev path_a k = (Inr (), k') \<and> MountKFS mem_dev (k_dev k') = Inr k1 \<and> same_tables k1 k"
proof -
  obtain k k0 nd where k: "kfs_reach mem_dev disk16 k" "mem.synced_with k k0"
    "walkParent k path_a = Inr (RootIno, [0x61])" "findDirent k RootIno [0x61] = Some 0"
    "k_inodes k (d_ino (k_dirents k ! 0)) = Some nd" "i_kind nd \<noteq> KindDir" "k_wOff k + 4000 \<le> k_logEnd k"
    by (rule run_a)
  obtain k' where w: "Delete mem_dev path_a k = (Inr (), k')"
    by (rule mem.Delete_progress [OF k(2-6)]) (use k(7) in simp_all)
  have "\<exists>k1. MountKFS mem_dev (k_dev k') = Inr k1 \<and> same_tables k1 k \<and> k_wOff k1 = k_wOff k \<and> k_wOff k < k_wOff k'"
    by (rule kfs_delete_undone [OF mem.block_device_axioms disk16_blank k(1) w]) simp
  with k(1,4) w show ?thesis by blast
qed

text \<open>
  C38: A write at a huge offset makes the volume unmountable.  A write whose offset has the top
  bit set (other than the truncation sentinel) succeeds on a running filesystem, and every
  later mount of the disk panics on the record it left.
\<close>

theorem kfs_poison_write:
  assumes "block_device D dok img" "dok d0" "blank_image (img d0)" "kfs_reach D d0 k"
    and "WriteFile D path off data k = (Inr (), k')" "length data \<le> 65520"
    and "2 ^ 63 \<le> unat off" "off \<noteq> TruncSentinel" "unat off + length data < 2 ^ 64"
  shows "\<exists>d'. MountKFS D (k_dev k') = Inl (GoPanic, d')"
proof -
  obtain k0 where s: "block_device.synced_with dok img k k0"
    using block_device.reach_synced [OF assms(1,4,2,3)] by blast
  then have "\<forall>ino. length (data_of k0 ino) < 2 ^ 63"
    using block_device.committed_short [OF assms(1)] block_device.synced_with_def [OF assms(1)] by blast
  then show ?thesis by (rule block_device.WriteFile_poison [OF assms(1) s assms(5,7,8,9,6)])
qed

theorem kfs_poison_write_witness:
  "\<exists>k k' d'. kfs_reach mem_dev disk16 k \<and> WriteFile mem_dev path_a (2 ^ 63) [0x78] k = (Inr (), k') \<and>
     MountKFS mem_dev (k_dev k') = Inl (GoPanic, d')"
proof -
  obtain k k0 nd where k: "kfs_reach mem_dev disk16 k" "mem.synced_with k k0"
    "walkParent k path_a = Inr (RootIno, [0x61])" "findDirent k RootIno [0x61] = Some 0"
    "k_inodes k (d_ino (k_dirents k ! 0)) = Some nd" "i_kind nd \<noteq> KindDir" "k_wOff k + 4000 \<le> k_logEnd k"
    by (rule run_a)
  obtain k' where w: "WriteFile mem_dev path_a (2 ^ 63) [0x78] k = (Inr (), k')"
    by (rule mem.WriteFile_progress [OF k(2-6), of "[0x78]" "2 ^ 63"]) (use k(7) in simp_all)
  have "\<exists>d'. MountKFS mem_dev (k_dev k') = Inl (GoPanic, d')"
    by (rule kfs_poison_write [OF mem.block_device_axioms disk16_blank k(1) w]) (simp_all add: TruncSentinel_def)
  with k(1) w show ?thesis by blast
qed

end
