(* ===== verification/Port_Frame.thy ===== *)
theory Port_Frame
  imports Kfs_Format
begin

text \<open>
  The datagram framing shared by every client and server (\<^verbatim>\<open>guests/lib/frame.go\<close>): the canonical
  24-byte header {u16 op, u16 seq, u32 uid, char rname[16]}, the request a client builds, what the
  kernel does to it on the way, and the reply {header, i32 status, body} a server sends back.
  \<^verbatim>\<open>AppendLStr\<close> and \<^verbatim>\<open>LStr\<close> of that file are those of \<^verbatim>\<open>Kfs_Format\<close>, the integer
  accessors those of the prelude: the Go code of the two packages is the same.
\<close>

section \<open>The canonical header\<close>

abbreviation (input) CanonicalHeaderLen :: nat where "CanonicalHeaderLen \<equiv> 24"
abbreviation (input) MaxMsg :: nat where "MaxMsg \<equiv> 4096"

record HeaderView =
  h_Op :: u16
  h_Seq :: u16
  h_UID :: u32
  h_RNam :: bytes

definition cstr16 :: "bytes \<Rightarrow> bytes" where
  "cstr16 b = takeWhile (\<lambda>c. c \<noteq> 0) b"

definition padName :: "bytes \<Rightarrow> bytes" where
  "padName s = go_copy (replicate 16 0) 0 s"

definition ParseHeader :: "bytes \<Rightarrow> HeaderView option" where
  "ParseHeader b =
     (if length b < CanonicalHeaderLen then None
      else Some \<lparr>h_Op = Get16 b, h_Seq = Get16 (drop 2 b), h_UID = Get32 (drop 4 b), h_RNam = cstr16 (window 8 16 b)\<rparr>)"

definition FrameCanonical :: "u16 \<Rightarrow> u16 \<Rightarrow> bytes \<Rightarrow> bytes \<Rightarrow> bytes" where
  "FrameCanonical op sq rname payload =
     (let req = replicate CanonicalHeaderLen 0;
          req = Put16 req 0 op;
          req = Put16 req 2 sq;
          req = go_copy req 8 (padName rname)
      in req @ payload)"

text \<open>On send the kernel overwrites the uid field with the sender's registered uid.\<close>

definition stamp_uid :: "u32 \<Rightarrow> bytes \<Rightarrow> bytes" where
  "stamp_uid uid req = Put32 req 4 uid"

text \<open>The reply frame: operation and sequence number echoed, a zero rest of the header, the status, the body.\<close>

definition reply_frame :: "u16 \<Rightarrow> u16 \<Rightarrow> u32 \<Rightarrow> bytes \<Rightarrow> bytes" where
  "reply_frame op sq status body =
     (let rep = replicate 28 0;
          rep = Put16 rep 0 op;
          rep = Put16 rep 2 sq;
          rep = Put32 rep 24 status
      in rep @ body)"

text \<open>The client's side of a reply: None for a reply that is too short.\<close>

definition splitReply :: "bytes \<Rightarrow> (u32 \<times> bytes) option" where
  "splitReply rep = (if length rep < 28 then None else Some (Get32 (window 24 4 rep), drop 28 rep))"

section \<open>Layouts and round trips\<close>

lemma reply_frame_fields: "reply_frame op sq status body = le16 op @ le16 sq @ replicate 20 0 @ le32 status @ body"
  by (simp add: reply_frame_def Put16_def Put32_def le16_def le32_def go_copy_def Let_def eval_nat_numeral)

lemma length_reply_frame [simp]: "length (reply_frame op sq status body) = 28 + length body"
  by (simp add: reply_frame_fields)

lemma splitReply_reply_frame [simp]: "splitReply (reply_frame op sq status body) = Some (status, body)"
  by (simp add: splitReply_def reply_frame_fields window_def)

lemma padName_fields: "length s \<le> 16 \<Longrightarrow> padName s = s @ replicate (16 - length s) 0"
  by (simp add: padName_def go_copy_def)

lemma FrameCanonical_fields:
  "length rname \<le> 16 \<Longrightarrow>
   FrameCanonical op sq rname payload = le16 op @ le16 sq @ replicate 4 0 @ rname @ replicate (16 - length rname) 0 @ payload"
  by (simp add: FrameCanonical_def padName_fields Put16_def le16_def go_copy_def Let_def eval_nat_numeral)

lemma cstr16_pad: "0 \<notin> set s \<Longrightarrow> cstr16 (s @ replicate n 0) = s"
  by (induction s) (auto simp: cstr16_def takeWhile_replicate)

lemma ParseHeader_FrameCanonical:
  assumes "length rname \<le> 16" "0 \<notin> set rname"
  shows "ParseHeader (stamp_uid uid (FrameCanonical op sq rname payload)) =
      Some \<lparr>h_Op = op, h_Seq = sq, h_UID = uid, h_RNam = rname\<rparr>"
    and "drop CanonicalHeaderLen (stamp_uid uid (FrameCanonical op sq rname payload)) = payload"
proof -
  let ?f = "stamp_uid uid (FrameCanonical op sq rname payload)"
  have f: "?f = le16 op @ le16 sq @ le32 uid @ (rname @ replicate (16 - length rname) 0) @ payload"
    using assms(1) by (simp add: FrameCanonical_fields stamp_uid_def Put32_def go_copy_def)
  have w: "window 8 16 ?f = rname @ replicate (16 - length rname) 0"
    unfolding f window_def using assms(1) by simp
  have d: "drop 4 ?f = le32 uid @ (rname @ replicate (16 - length rname) 0) @ payload"
    "drop 2 ?f = le16 sq @ le32 uid @ (rname @ replicate (16 - length rname) 0) @ payload"
    unfolding f by simp_all
  have l: "\<not> length ?f < 24" unfolding f using assms(1) by simp
  have "Get16 ?f = op" unfolding f by simp
  moreover have "Get16 (drop 2 ?f) = sq" "Get32 (drop 4 ?f) = uid" unfolding d by simp_all
  ultimately show "ParseHeader ?f = Some \<lparr>h_Op = op, h_Seq = sq, h_UID = uid, h_RNam = rname\<rparr>"
    using w l assms(2) by (simp add: ParseHeader_def cstr16_pad)
  show "drop 24 ?f = payload" unfolding f using assms(1) by simp
qed

lemma LStr_framed:
  "length s < 65536 \<Longrightarrow> LStr (AppendLStr dst s @ rest) (length dst) = Some (s, length dst + 2 + length s)"
  by (simp add: LStr_def AppendLStr_def window_def unat_of_nat take_bit_nat_eq_self)

end
