(* ===== verification/Fs_Server.thy ===== *)
theory Fs_Server
  imports Fs_Kfs_Run Port_Frame
begin

text \<open>
  The file server behind the well-known port "fs" (\<^verbatim>\<open>services/fs/server.go\<close>): the table of
  registered sessions, the multi-user path policy, and the dispatch of one request against a
  \<^verbatim>\<open>store\<close>.  Strings are byte strings; \<^verbatim>\<open>strings.ToLower\<close> and
  \<^verbatim>\<open>strings.EqualFold\<close> are modelled on ASCII text, and the statements that depend on them are
  made for ASCII names and paths.  Tracing output is left out.
\<close>

section \<open>The store interface\<close>

text \<open>What the server calls; every method may change the store (reads fill caches).\<close>

record 's store =
  st_Create :: "bytes \<Rightarrow> 's \<Rightarrow> (ferr + unit) \<times> 's"
  st_Mkdir :: "bytes \<Rightarrow> 's \<Rightarrow> (ferr + unit) \<times> 's"
  st_Delete :: "bytes \<Rightarrow> 's \<Rightarrow> (ferr + unit) \<times> 's"
  st_Stat :: "bytes \<Rightarrow> 's \<Rightarrow> (ferr + StatInfo) \<times> 's"
  st_List :: "bytes \<Rightarrow> 's \<Rightarrow> (ferr + StatInfo list) \<times> 's"
  st_ReadFile :: "bytes \<Rightarrow> u64 \<Rightarrow> bytes \<Rightarrow> 's \<Rightarrow> (ferr + nat \<times> bytes) \<times> 's"
  st_WriteFile :: "bytes \<Rightarrow> u64 \<Rightarrow> bytes \<Rightarrow> 's \<Rightarrow> (ferr + unit) \<times> 's"

text \<open>The log-structured filesystem as a store.\<close>

definition kfs_store :: "'d Device \<Rightarrow> 'd KFS store" where
  "kfs_store D = \<lparr>st_Create = Create D, st_Mkdir = Mkdir D, st_Delete = Delete D,
     st_Stat = (\<lambda>p k. (Stat p k, k)), st_List = (\<lambda>p k. (List p k, k)),
     st_ReadFile = ReadFile D, st_WriteFile = WriteFile D\<rparr>"

section \<open>Codes\<close>

abbreviation (input) OpFSStat :: u16 where "OpFSStat \<equiv> 1"
abbreviation (input) OpFSList :: u16 where "OpFSList \<equiv> 2"
abbreviation (input) OpFSRead :: u16 where "OpFSRead \<equiv> 3"
abbreviation (input) OpFSWrite :: u16 where "OpFSWrite \<equiv> 4"
abbreviation (input) OpFSCreate :: u16 where "OpFSCreate \<equiv> 5"
abbreviation (input) OpFSMkdir :: u16 where "OpFSMkdir \<equiv> 6"
abbreviation (input) OpFSDelete :: u16 where "OpFSDelete \<equiv> 7"
abbreviation (input) OpFSRegister :: u16 where "OpFSRegister \<equiv> 8"

abbreviation (input) FSOK :: u32 where "FSOK \<equiv> 0"
abbreviation (input) FSIO :: u32 where "FSIO \<equiv> - 1"
abbreviation (input) FSNoEntry :: u32 where "FSNoEntry \<equiv> - 2"
abbreviation (input) FSExists :: u32 where "FSExists \<equiv> - 3"
abbreviation (input) FSNotDir :: u32 where "FSNotDir \<equiv> - 4"
abbreviation (input) FSIsDir :: u32 where "FSIsDir \<equiv> - 5"
abbreviation (input) FSNoSpace :: u32 where "FSNoSpace \<equiv> - 6"
abbreviation (input) FSBadName :: u32 where "FSBadName \<equiv> - 7"
abbreviation (input) FSNotEmpty :: u32 where "FSNotEmpty \<equiv> - 8"
abbreviation (input) FSRange :: u32 where "FSRange \<equiv> - 9"
abbreviation (input) FSAccess :: u32 where "FSAccess \<equiv> - 10"
abbreviation (input) CapFSAdmin :: u64 where "CapFSAdmin \<equiv> 16"

definition fsStatus :: "ferr \<Rightarrow> u32" where
  "fsStatus e = (case e of
       ErrNoEntry \<Rightarrow> FSNoEntry | ErrExists \<Rightarrow> FSExists | ErrNotDir \<Rightarrow> FSNotDir | ErrIsDir \<Rightarrow> FSIsDir
     | ErrNoSpace \<Rightarrow> FSNoSpace | ErrBadName \<Rightarrow> FSBadName | ErrNotEmpt \<Rightarrow> FSNotEmpty | ErrRange \<Rightarrow> FSRange
     | _ \<Rightarrow> FSIO)"

section \<open>Strings\<close>

definition ascii_lower :: "byte \<Rightarrow> byte" where
  "ascii_lower c = (if 0x41 \<le> c \<and> c \<le> 0x5A then c + 0x20 else c)"

definition ToLower :: "bytes \<Rightarrow> bytes" where
  "ToLower s = map ascii_lower s"

definition EqualFold :: "bytes \<Rightarrow> bytes \<Rightarrow> bool" where
  "EqualFold a b \<longleftrightarrow> map ascii_lower a = map ascii_lower b"

definition HasPrefix :: "bytes \<Rightarrow> bytes \<Rightarrow> bool" where
  "HasPrefix s p \<longleftrightarrow> take (length p) s = p"

definition TrimPrefix :: "bytes \<Rightarrow> bytes \<Rightarrow> bytes" where
  "TrimPrefix s p = (if HasPrefix s p then drop (length p) s else s)"

text \<open>The part before the first slash: \<^verbatim>\<open>s[:i]\<close> at \<^verbatim>\<open>i = IndexByte(s, '/')\<close>, or all of \<^verbatim>\<open>s\<close>.\<close>

definition before_slash :: "bytes \<Rightarrow> bytes" where
  "before_slash s = takeWhile (\<lambda>c. c \<noteq> slash) s"

definition absPath :: "bytes \<Rightarrow> bytes" where
  "absPath raw = (if \<not> HasPrefix raw [slash] then [] else raw)"

definition hasDotDot :: "bytes \<Rightarrow> bool" where
  "hasDotDot raw \<longleftrightarrow> (\<exists>p \<in> set (split_on slash raw). p = [dot, dot])"

section \<open>Sessions and policy\<close>

record fsSession =
  ss_name :: bytes
  ss_mask :: u64

type_synonym sessions = "u32 \<rightharpoonup> fsSession"

definition registerSession :: "bytes \<Rightarrow> sessions \<Rightarrow> u32 \<times> sessions" where
  "registerSession payload ss =
     (if length payload < 14 then (FSBadName, ss)
      else case LStr payload 4 of
        None \<Rightarrow> (FSBadName, ss)
      | Some (name, off) \<Rightarrow>
          if length payload < off + 8 then (FSBadName, ss)
          else if name = [] \<or> length name > 32 then (FSBadName, ss)
          else (FSOK, ss(Get32 payload \<mapsto> \<lparr>ss_name = ToLower name, ss_mask = Get64 (drop off payload)\<rparr>)))"

definition fs_admin :: "fsSession option \<Rightarrow> bool" where
  "fs_admin sess \<longleftrightarrow> (case sess of None \<Rightarrow> False | Some ss \<Rightarrow> ss_mask ss AND CapFSAdmin \<noteq> 0)"

abbreviation (input) home_slash :: bytes where "home_slash \<equiv> str ''/home/''"

definition gateAbsolute :: "u32 \<Rightarrow> fsSession option \<Rightarrow> bytes \<Rightarrow> bool \<Rightarrow> bytes \<times> u32" where
  "gateAbsolute uid sess clean wr =
     (let top = before_slash clean
      in if top = str ''tmp'' then (slash # clean, FSOK)
         else if top = str ''etc''
         then (if wr \<and> \<not> fs_admin sess then ([], FSAccess) else (slash # clean, FSOK))
         else if top = str ''boot''
         then (if wr then ([], FSAccess) else (slash # clean, FSOK))
         else if top = str ''home''
         then
           (let rest = (if clean = str ''home'' then [] else TrimPrefix clean (str ''home/''));
                owner = before_slash rest
            in if owner = []
               then (if wr \<and> uid \<noteq> 0 \<and> \<not> fs_admin sess then ([], FSAccess)
                     else case sess of
                            Some ss \<Rightarrow> (home_slash @ ss_name ss, FSOK)
                          | None \<Rightarrow> ([], FSNoEntry))
               else if (case sess of Some ss \<Rightarrow> EqualFold owner (ss_name ss) | None \<Rightarrow> False)
               then (home_slash @ rest, FSOK)
               else ([], FSNoEntry))
         else ([], FSNoEntry))"

definition authorize :: "sessions \<Rightarrow> u32 \<Rightarrow> bytes \<Rightarrow> bool \<Rightarrow> bytes \<times> u32" where
  "authorize ss uid raw wr =
     (if uid \<noteq> 0 \<and> hasDotDot raw then ([], FSAccess)
      else if uid = 0 then (let p = absPath raw in if p = [] then ([], FSBadName) else (p, FSOK))
      else
        let clean = TrimPrefix raw [slash]; isRel = (\<not> HasPrefix raw [slash])
        in case ss uid of
             Some sess \<Rightarrow>
               if isRel then (home_slash @ ss_name sess @ [slash] @ clean, FSOK)
               else gateAbsolute uid (Some sess) clean wr
           | None \<Rightarrow>
               if isRel then ([], FSAccess)
               else gateAbsolute uid None clean wr)"

definition resolveFor :: "sessions \<Rightarrow> u32 \<Rightarrow> bytes \<Rightarrow> bool \<Rightarrow> bytes \<times> u32" where
  "resolveFor ss uid path wr = authorize ss uid path wr"

definition authPath :: "sessions \<Rightarrow> u32 \<Rightarrow> bytes \<Rightarrow> bool \<Rightarrow> bytes \<times> u32" where
  "authPath ss uid payload wr =
     (case LStr payload 0 of None \<Rightarrow> ([], FSBadName) | Some (path, _) \<Rightarrow> resolveFor ss uid path wr)"

section \<open>Standard directories\<close>

text \<open>A call whose error is ignored; a panic still ends the service.\<close>

definition best_effort :: "(ferr + unit) \<times> 's \<Rightarrow> (ferr + unit) \<times> 's" where
  "best_effort r = (if fst r = Inl GoPanic then (Inl GoPanic, snd r) else (Inr (), snd r))"

text \<open>Make a directory if a \<^verbatim>\<open>Stat\<close> finds none.\<close>

definition ensure_dir :: "'s store \<Rightarrow> bytes \<Rightarrow> 's \<Rightarrow> (ferr + unit) \<times> 's" where
  "ensure_dir S d s =
     (case st_Stat S d s of
        (Inl e, s) \<Rightarrow> if e = ErrNoEntry then best_effort (st_Mkdir S d s) else best_effort (Inl e, s)
      | (Inr _, s) \<Rightarrow> (Inr (), s))"

fun ensure_dirs :: "'s store \<Rightarrow> bytes list \<Rightarrow> 's \<Rightarrow> (ferr + unit) \<times> 's" where
  "ensure_dirs S [] s = (Inr (), s)"
| "ensure_dirs S (d # ds) s = sbind (ensure_dir S d s) (\<lambda>_. ensure_dirs S ds)"

definition standard_dirs :: "bytes list" where
  "standard_dirs = [str ''/etc'', str ''/home'', str ''/tmp'', str ''/boot'', str ''/boot/modules'']"

definition motd :: bytes where
  "motd = str ''Welcome to the capability microkernel'' @ [10]"

definition ensureStandardDirs :: "'s store \<Rightarrow> 's \<Rightarrow> (ferr + unit) \<times> 's" where
  "ensureStandardDirs S s =
     sbind (ensure_dirs S standard_dirs s) (\<lambda>_ s.
       case st_Stat S (str ''/etc/motd'') s of
         (Inl e, s) \<Rightarrow>
           if e = ErrNoEntry
           then sbind (best_effort (st_Create S (str ''/etc/motd'') s))
                  (\<lambda>_ s. best_effort (st_WriteFile S (str ''/etc/motd'') 0 motd s))
           else best_effort (Inl e, s)
       | (Inr _, s) \<Rightarrow> (Inr (), s))"

section \<open>Dispatch\<close>

text \<open>
  What a request case yields: a status and body to reply with, no reply at all, or the run-time panic of
  a store method, which ends the service.
\<close>

datatype answer = Answer u32 bytes | NoAnswer | Panicked

definition fail_with :: "ferr \<Rightarrow> answer" where
  "fail_with e = (if e = GoPanic then Panicked else Answer (fsStatus e) [])"

definition do_stat :: "'s store \<Rightarrow> sessions \<Rightarrow> u32 \<Rightarrow> bytes \<Rightarrow> 's \<Rightarrow> answer \<times> 's" where
  "do_stat S ss uid payload s =
     (let (path, pst) = authPath ss uid payload False
      in if pst \<noteq> FSOK then (Answer pst [], s)
         else case st_Stat S path s of
                (Inl e, s) \<Rightarrow> (fail_with e, s)
              | (Inr st, s) \<Rightarrow> (Answer FSOK (le32 (si_Size st) @ [si_Attr st] @ le32 (si_Cluster st)), s))"

fun list_body :: "bytes \<Rightarrow> StatInfo list \<Rightarrow> bytes" where
  "list_body body [] = body"
| "list_body body (e # es) =
     (if length body + 2 + length (si_Name e) + 5 > MaxMsg - 16 then body
      else list_body (AppendLStr body (si_Name e) @ [si_Attr e] @ le32 (si_Size e)) es)"

definition home_filter :: "sessions \<Rightarrow> u32 \<Rightarrow> bytes \<Rightarrow> StatInfo list \<Rightarrow> StatInfo list" where
  "home_filter ss uid path ents =
     (if uid \<noteq> 0 \<and> path = str ''/home''
      then case ss uid of
             Some sess \<Rightarrow> filter (\<lambda>e. EqualFold (si_Name e) (ss_name sess)) ents
           | None \<Rightarrow> []
      else ents)"

definition do_list :: "'s store \<Rightarrow> sessions \<Rightarrow> u32 \<Rightarrow> bytes \<Rightarrow> 's \<Rightarrow> answer \<times> 's" where
  "do_list S ss uid payload s =
     (let (path, pst) = authPath ss uid payload False
      in if pst \<noteq> FSOK then (Answer pst [], s)
         else case st_List S path s of
                (Inl e, s) \<Rightarrow> (fail_with e, s)
              | (Inr ents, s) \<Rightarrow>
                  let ents = home_filter ss uid path ents
                  in (Answer FSOK (list_body (le32 (of_nat (length ents))) ents), s))"

definition do_read :: "'s store \<Rightarrow> sessions \<Rightarrow> u32 \<Rightarrow> bytes \<Rightarrow> 's \<Rightarrow> answer \<times> 's" where
  "do_read S ss uid payload s =
     (case LStr payload 0 of
        None \<Rightarrow> (NoAnswer, s)
      | Some (rawPath, plen) \<Rightarrow>
          if plen + 10 > length payload then (NoAnswer, s)
          else
            let (path, pst) = resolveFor ss uid rawPath False
            in if pst \<noteq> FSOK then (Answer pst [], s)
               else
                 let roff = Get64 (drop plen payload);
                     rcnt = min (unat (Get16 (drop (plen + 8) payload))) (MaxMsg - 16)
                 in case st_ReadFile S path roff (replicate rcnt 0) s of
                      (Inl e, s) \<Rightarrow> (fail_with e, s)
                    | (Inr (nr, rbuf), s) \<Rightarrow> (Answer FSOK (le16 (of_nat nr) @ take nr rbuf), s))"

definition do_write :: "'s store \<Rightarrow> sessions \<Rightarrow> u32 \<Rightarrow> bytes \<Rightarrow> 's \<Rightarrow> answer \<times> 's" where
  "do_write S ss uid payload s =
     (case LStr payload 0 of
        None \<Rightarrow> (NoAnswer, s)
      | Some (rawPath, plen) \<Rightarrow>
          if plen + 10 > length payload then (NoAnswer, s)
          else
            let (path, pst) = resolveFor ss uid rawPath True
            in if pst \<noteq> FSOK then (Answer pst [], s)
               else
                 let woff = Get64 (drop plen payload); wcnt = unat (Get16 (drop (plen + 8) payload))
                 in if plen + 10 + wcnt > length payload then (NoAnswer, s)
                    else case st_WriteFile S path woff (window (plen + 10) wcnt payload) s of
                      (Inl e, s) \<Rightarrow> (fail_with e, s)
                    | (Inr _, s) \<Rightarrow>
                        (case st_Stat S path s of
                           (Inl e, s) \<Rightarrow> (fail_with e, s)
                         | (Inr st, s) \<Rightarrow> (Answer FSOK (le32 (si_Size st)), s)))"

text \<open>Create, mkdir and delete share one case; the operation picks the method.\<close>

definition path_method :: "'s store \<Rightarrow> u16 \<Rightarrow> bytes \<Rightarrow> 's \<Rightarrow> (ferr + unit) \<times> 's" where
  "path_method S op = (if op = OpFSCreate then st_Create S else if op = OpFSMkdir then st_Mkdir S else st_Delete S)"

definition do_path :: "'s store \<Rightarrow> u16 \<Rightarrow> sessions \<Rightarrow> u32 \<Rightarrow> bytes \<Rightarrow> 's \<Rightarrow> answer \<times> 's" where
  "do_path S op ss uid payload s =
     (case LStr payload 0 of
        None \<Rightarrow> (NoAnswer, s)
      | Some (rawPath, _) \<Rightarrow>
          let (path, pst) = resolveFor ss uid rawPath True
          in if pst \<noteq> FSOK then (Answer pst [], s)
             else case path_method S op path s of
                    (Inl e, s) \<Rightarrow> (fail_with e, s)
                  | (Inr _, s) \<Rightarrow> (Answer FSOK [], s))"

text \<open>A registration also provisions the user's home directory.\<close>

definition do_register :: "'s store \<Rightarrow> u32 \<Rightarrow> bytes \<Rightarrow> sessions \<Rightarrow> 's \<Rightarrow> answer \<times> sessions \<times> 's" where
  "do_register S uid payload ss s =
     (if uid \<noteq> 0 then (Answer FSAccess [], ss, s)
      else
        let (st, ss) = registerSession payload ss
        in if st = FSOK
           then (case ss (Get32 payload) of
                   Some sess \<Rightarrow>
                     (case ensure_dir S (home_slash @ ss_name sess) s of
                        (Inl e, s) \<Rightarrow> (Panicked, ss, s)
                      | (Inr _, s) \<Rightarrow> (Answer st [], ss, s))
                 | None \<Rightarrow> (Answer st [], ss, s))
           else (Answer st [], ss, s))"

datatype fs_reply = Reply bytes bytes | Silent | Crash

definition statusOnly :: "u16 \<Rightarrow> u16 \<Rightarrow> u32 \<Rightarrow> bytes" where
  "statusOnly op sq status = reply_frame op sq status []"

definition fs_dispatch :: "'s store \<Rightarrow> bytes \<Rightarrow> sessions \<times> 's \<Rightarrow> fs_reply \<times> sessions \<times> 's" where
  "fs_dispatch S req st =
     (case ParseHeader req of
        None \<Rightarrow> (Silent, st)
      | Some hdr \<Rightarrow>
          if h_RNam hdr = [] then (Silent, st)
          else
            let op = h_Op hdr; uid = h_UID hdr; payload = drop CanonicalHeaderLen req; (ss, s) = st;
                (a, ss', s') =
                  (if op = OpFSRegister then do_register S uid payload ss s
                   else
                     let (a, s') =
                       (if op = OpFSStat then do_stat S ss uid payload s
                        else if op = OpFSList then do_list S ss uid payload s
                        else if op = OpFSRead then do_read S ss uid payload s
                        else if op = OpFSWrite then do_write S ss uid payload s
                        else if op \<in> {OpFSCreate, OpFSMkdir, OpFSDelete} then do_path S op ss uid payload s
                        else (NoAnswer, s))
                     in (a, ss, s'))
            in case a of
                 Answer status body \<Rightarrow> (Reply (reply_frame op (h_Seq hdr) status body) (h_RNam hdr), ss', s')
               | NoAnswer \<Rightarrow> (Silent, ss', s')
               | Panicked \<Rightarrow> (Crash, ss', s'))"

text \<open>The serve loop over the datagrams received, up to a crash; too short ones are skipped.\<close>

fun serve :: "'s store \<Rightarrow> bytes list \<Rightarrow> sessions \<times> 's \<Rightarrow> fs_reply list \<times> sessions \<times> 's" where
  "serve S [] st = ([], st)"
| "serve S (req # reqs) st =
     (if length req < CanonicalHeaderLen then serve S reqs st
      else case fs_dispatch S req st of
        (Crash, st') \<Rightarrow> ([Crash], st')
      | (r, st') \<Rightarrow> (case serve S reqs st' of (rs, st'') \<Rightarrow> (r # rs, st'')))"

definition ServeFSOn :: "'s store \<Rightarrow> bytes list \<Rightarrow> 's \<Rightarrow> fs_reply list \<times> sessions \<times> 's" where
  "ServeFSOn S reqs s =
     (case ensureStandardDirs S s of
        (Inl e, s) \<Rightarrow> ([Crash], Map.empty, s)
      | (Inr _, s) \<Rightarrow> serve S reqs (Map.empty, s))"

end
