(* ===== verification/Fs_Kfs_Tree.thy ===== *)
theory Fs_Kfs_Tree
  imports Fs_Kfs_Run
begin

text \<open>
  The directory structure is a tree: no inode is reached by two different paths.  Hence operations
  on one path are independent of every path with other components.
\<close>

section \<open>The invariant\<close>

text \<open>
  Every entry, dead or alive, names its own inode above the root and below the next free one,
  and is listed only under its parent.
\<close>

definition tree_ok :: "'d KFS \<Rightarrow> bool" where
  "tree_ok k \<longleftrightarrow> RootIno < k_nextIno k \<and> distinct (map d_ino (k_dirents k)) \<and>
     (\<forall>d \<in> set (k_dirents k). RootIno < d_ino d \<and> d_ino d < k_nextIno k) \<and>
     (\<forall>p is. k_children k p = Some is \<longrightarrow>
        (\<forall>i \<in> set is. i < length (k_dirents k) \<and> d_parent (k_dirents k ! i) = p))"

lemma tree_cong: "same_tables k k' \<Longrightarrow> tree_ok k = tree_ok k'"
  by (simp add: tree_ok_def same_tables_def)

lemma tree_inodes [simp]: "tree_ok (k\<lparr>k_inodes := f\<rparr>) = tree_ok k"
  by (simp add: tree_ok_def)

lemma tree_fresh: "tree_ok (put_inode rootInode (emptyKFS d n b 0))"
  by (simp add: tree_ok_def put_inode_def rootInode_def emptyKFS_def Let_def)

lemma tree_new_entry:
  assumes "tree_ok k" "wf_tables k" "k_children k p \<noteq> None" "i_ino nd = k_nextIno k" "k_nextIno k \<noteq> NOT 0"
  shows "tree_ok (new_entry p leaf nd k)"
proof -
  let ?k = "new_entry p leaf nd k" and ?n = "k_nextIno k"
  have n: "?n < ?n + 1" using next_ino_less [OF assms(5)] .
  have lt: "x < ?n + 1" if "x < ?n" for x by (rule less_trans [OF that n])
  have i: "k_nextIno ?k = ?n + 1"
    "k_dirents ?k = k_dirents k @ [\<lparr>d_parent = p, d_name = leaf, d_ino = ?n, d_dead = False\<rparr>]"
    using assms(4) by (simp_all add: new_entry_def set_inode_def link_dirent_def Let_def)
  have p: "p \<noteq> ?n" using assms(2,3) wf_childD by fastforce
  have c: "k_children ?k q = (if q = p then Some (children_of k p @ [length (k_dirents k)])
      else if q = ?n \<and> i_kind nd = KindDir then Some [] else k_children k q)" for q
    using assms(4) p by (auto simp: new_entry_def set_inode_def link_dirent_def Let_def children_of_def)
  have t: "RootIno < ?n" "distinct (map d_ino (k_dirents k))" "\<forall>d \<in> set (k_dirents k). RootIno < d_ino d \<and> d_ino d < ?n"
    "\<And>p is i. k_children k p = Some is \<Longrightarrow> i \<in> set is \<Longrightarrow> i < length (k_dirents k) \<and> d_parent (k_dirents k ! i) = p"
    using assms(1) by (auto simp: tree_ok_def)
  have "?n \<notin> d_ino ` set (k_dirents k)" using t(3) by fastforce
  moreover have "\<forall>i \<in> set (children_of k p). i < length (k_dirents k) \<and> d_parent (k_dirents k ! i) = p"
    using assms(3) t(4) by (auto simp: children_of_def)
  ultimately show ?thesis
    unfolding tree_ok_def i c using t lt n by (fastforce simp: nth_append split: if_splits)
qed

section \<open>It holds along every run\<close>

context block_device
begin

lemma step_tree:
  assumes "kfs_step D k k'" "synced_with k k0" "tree_ok k"
  shows "tree_ok k'"
proof -
  have wf: "wf_tables k" using assms(2) by (simp add: synced_with_def)
  have ch: "k_children k p \<noteq> None" if "walkParent k path = Inr (p, leaf)" for path p leaf
    using walkParent_dir(1) [OF wf that] wf_inodeD [OF wf] by blast
  show ?thesis using assms(1)
  proof (cases rule: kfs_step.cases)
    case (step_create path)
    show ?thesis
    proof (rule Create_synced [OF assms(2) step_create])
      fix p leaf k1 assume a: "walkParent k path = Inr (p, leaf)"
        "same_tables k' (new_entry p leaf \<lparr>i_ino = k_nextIno k, i_uid = 0, i_kind = KindFile, i_size = 0\<rparr> k)"
      from tree_new_entry [OF assms(3) wf ch [OF a(1)] _ step_create(2)] a(2) show ?thesis by (simp add: tree_cong)
    next
      fix di assume "truncate D (d_ino (k_dirents k ! di)) k = (Inr (), k')"
      then show ?thesis
        by (rule truncate_synced [OF assms(2)]) (use assms(3) in \<open>simp add: tree_ok_def\<close>)
    qed
  next
    case (step_mkdir path)
    show ?thesis
    proof (rule Mkdir_synced [OF assms(2) step_mkdir])
      fix p leaf assume a: "walkParent k path = Inr (p, leaf)"
        "same_tables k' (new_entry p leaf \<lparr>i_ino = k_nextIno k, i_uid = 0, i_kind = KindDir, i_size = 0\<rparr> k)"
      from tree_new_entry [OF assms(3) wf ch [OF a(1)] _ step_mkdir(2)] a(2) show ?thesis by (simp add: tree_cong)
    qed
  next
    case (step_write path off data)
    show ?thesis by (rule WriteFile_synced [OF assms(2) step_write]) (use assms(3) in \<open>simp add: tree_cong\<close>)
  next
    case (step_uid path uid)
    show ?thesis by (rule SetUID_synced [OF assms(2) step_uid]) (use assms(3) in \<open>simp add: tree_cong\<close>)
  next
    case (step_read path off buf r)
    have "synced_with k' k0" by (rule ReadFile_step [OF assms(2) step_read])
    then show ?thesis using assms(2,3) by (simp add: synced_with_def) (metis tree_cong)
  next
    case step_remount
    obtain k1 where "MountKFS D (k_dev k) = Inr k1" "same_tables k1 k" by (rule mount_synced [OF assms(2)])
    with step_remount assms(3) show ?thesis by (metis sum.inject(2) tree_cong)
  qed
qed

lemma reach_tree:
  assumes "kfs_reach D d0 k" "dok d0" "blank_image (img d0)"
  shows "tree_ok k"
  using assms(1)
proof (induction rule: kfs_reach.induct)
  case (boot d1 k)
  have "16 * 512 \<le> length (img d0)" "\<forall>b \<in> set (drop (512 + 35) (img d0)). b = 0"
    using assms(3) unfolding blank_image_def by blast+
  then obtain d' k1 k0 where f: "FormatKFS D d0 = (Inr (), d')" "MountKFS D d' = Inr k1" "synced_with k1 k0"
      "same_tables k1 (put_inode rootInode (emptyKFS d' 0 [] 0))"
    by (rule fresh_synced [OF assms(2)])
  have "d' = d1" using f(1) boot(1) by simp
  with f(2) boot(2) have "k1 = k" by simp
  with f(4) tree_cong tree_fresh show ?case by metis
next
  case (step k k')
  from reach_synced [OF step(1) assms(2,3)] show ?case using step_tree [OF step(2)] step(3) by blast
qed

end

section \<open>Paths and inodes\<close>

lemma findDirentD:
  assumes "tree_ok k" "findDirent k p leaf = Some di"
  shows "di < length (k_dirents k)" "d_parent (k_dirents k ! di) = p" "d_name (k_dirents k ! di) = leaf"
proof -
  have "di \<in> set (children_of k p)" and n: "d_name (k_dirents k ! di) = leaf"
    using assms(2) by (auto simp: findDirent_def find_Some_iff)
  then obtain "is" where "k_children k p = Some is" "di \<in> set is"
    by (cases "k_children k p") (auto simp: children_of_def)
  then show "di < length (k_dirents k)" "d_parent (k_dirents k ! di) = p" using assms(1) by (auto simp: tree_ok_def)
  show "d_name (k_dirents k ! di) = leaf" by (rule n)
qed

lemma entry_inj:
  assumes "tree_ok k" "findDirent k p l = Some i" "findDirent k q m = Some j"
    "d_ino (k_dirents k ! i) = d_ino (k_dirents k ! j)"
  shows "p = q \<and> l = m"
proof -
  note i = findDirentD [OF assms(1,2)] and j = findDirentD [OF assms(1,3)]
  have "distinct (map d_ino (k_dirents k))" using assms(1) by (simp add: tree_ok_def)
  then have "i = j" using i(1) j(1) assms(4) by (simp add: distinct_conv_nth) blast
  then show ?thesis using i j by simp
qed

lemma walkParent_loop_snoc:
  "walkParent_loop k cur (ps @ [x]) = Inr p \<longleftrightarrow>
     (\<exists>c di. walkParent_loop k cur ps = Inr c \<and> findDirent k c x = Some di \<and> p = d_ino (k_dirents k ! di) \<and>
        (\<exists>nd. k_inodes k p = Some nd \<and> i_kind nd = KindDir))"
  by (induction ps arbitrary: cur) (auto simp: Let_def split: option.splits)

lemma walkParent_loop_inj:
  assumes "tree_ok k"
  shows "walkParent_loop k RootIno ps = Inr p \<Longrightarrow> walkParent_loop k RootIno qs = Inr p \<Longrightarrow> ps = qs"
proof (induction ps arbitrary: p qs rule: rev_induct)
  case Nil
  then show ?case
  proof (cases qs rule: rev_cases)
    case (snoc ys y)
    then obtain c di where "findDirent k c y = Some di" "d_ino (k_dirents k ! di) = RootIno"
      using Nil by (auto simp: walkParent_loop_snoc)
    moreover have "\<forall>d \<in> set (k_dirents k). RootIno < d_ino d" using assms by (simp add: tree_ok_def)
    ultimately show ?thesis using findDirentD(1) [OF assms] by (metis less_irrefl nth_mem)
  qed simp
next
  case (snoc x xs)
  then obtain c di where a: "walkParent_loop k RootIno xs = Inr c" "findDirent k c x = Some di" "p = d_ino (k_dirents k ! di)"
    by (auto simp: walkParent_loop_snoc)
  show ?case
  proof (cases qs rule: rev_cases)
    case Nil
    then have "d_ino (k_dirents k ! di) = RootIno" using snoc.prems(2) a by simp
    moreover have "\<forall>d \<in> set (k_dirents k). RootIno < d_ino d" using assms by (simp add: tree_ok_def)
    ultimately show ?thesis using findDirentD(1) [OF assms a(2)] by (metis less_irrefl nth_mem)
  next
    case (snoc ys y)
    then obtain c' dj where b: "walkParent_loop k RootIno ys = Inr c'" "findDirent k c' y = Some dj" "p = d_ino (k_dirents k ! dj)"
      using snoc.prems(2) by (auto simp: walkParent_loop_snoc)
    from entry_inj [OF assms a(2) b(2)] a(3) b(3) have e: "c = c'" "x = y" by simp_all
    with snoc.IH a(1) b(1) have "xs = ys" by blast
    then show ?thesis using e \<open>qs = ys @ [y]\<close> by simp
  qed
qed

text \<open>Two paths that resolve to entries with one inode have the same components.\<close>

lemma resolve_inj:
  assumes "tree_ok k" "walkParent k path = Inr (p, l)" "findDirent k p l = Some i"
    "walkParent k other = Inr (q, m)" "findDirent k q m = Some j"
    "d_ino (k_dirents k ! i) = d_ino (k_dirents k ! j)"
  shows "splitPath path = splitPath other"
proof -
  obtain ps where a: "splitPath path = Inr ps" "ps \<noteq> []" "walkParent_loop k RootIno (butlast ps) = Inr p" "l = last ps"
    using assms(2) by (auto simp: walkParent_def split: sum.splits if_splits)
  obtain qs where b: "splitPath other = Inr qs" "qs \<noteq> []" "walkParent_loop k RootIno (butlast qs) = Inr q" "m = last qs"
    using assms(4) by (auto simp: walkParent_def split: sum.splits if_splits)
  have e: "p = q" "l = m" using entry_inj [OF assms(1,3,5,6)] by simp_all
  then have "butlast ps = butlast qs" using walkParent_loop_inj [OF assms(1) a(3)] b(3) by simp
  then have "ps = qs" using e a(2,4) b(2,4) by (metis append_butlast_last_id)
  then show ?thesis using a(1) b(1) by simp
qed

text \<open>A write leaves the reads of every other path alone.\<close>

context block_device
begin

lemma write_other:
  assumes "kfs_reach D d0 k" "dok d0" "blank_image (img d0)"
    and "WriteFile D path off data k = (Inr (), k')" "length data \<le> 65520" "unat off + length data < 2 ^ 63"
    and "splitPath other \<noteq> splitPath path"
  shows "fst (ReadFile D other off' buf k') = fst (ReadFile D other off' buf k)"
proof -
  have t: "tree_ok k" by (rule reach_tree [OF assms(1-3)])
  obtain k0 where s: "synced_with k k0" using reach_synced [OF assms(1-3)] by blast
  obtain p leaf di where w: "walkParent k path = Inr (p, leaf)" "findDirent k p leaf = Some di"
    by (rule WriteFile_cases [OF assms(4)])
  show ?thesis
    by (rule write_frame [OF s assms(4-6) w]) (use resolve_inj [OF t w] assms(7) in metis)
qed

end

section \<open>Building directories\<close>

text \<open>With room in the log, making a directory or a file succeeds and adds exactly one entry.\<close>

lemma new_entry_same: "same_tables k T \<Longrightarrow> same_tables (new_entry p leaf nd k) (new_entry p leaf nd T)"
  by (simp add: same_tables_def new_entry_def link_dirent_def set_inode_def children_of_def Let_def)

lemma same_trans: "same_tables a b \<Longrightarrow> same_tables b c \<Longrightarrow> same_tables a c"
  by (simp add: same_tables_def)

context block_device
begin

lemma Mkdir_progress:
  assumes "synced_with k k0" "walkParent k path = Inr (p, leaf)" "findDirent k p leaf = None"
    "k_wOff k + 68 + length leaf \<le> k_logEnd k"
  obtains k' where "Mkdir D path k = (Inr (), k')" "k_wOff k' \<le> k_wOff k + 68 + length leaf"
    "k_logEnd k' = k_logEnd k"
proof -
  let ?nd = "\<lparr>i_ino = k_nextIno k, i_uid = 0, i_kind = KindDir, i_size = 0\<rparr>"
  let ?k = "k\<lparr>k_nextIno := k_nextIno k + 1\<rparr>"
  let ?p = "AppendLStr (le32 p @ [0]) leaf @ le32 (k_nextIno k)"
  have k: "kok k" "LogStart \<le> k_wOff k"
    using assms(1) by (auto simp: synced_with_def committed_def logged_def holds_log_def)
  have k1: "kok ?k" using k(1) by (simp add: kok_def)
  have lp: "length (kfsInodePayload ?nd) = 13" "length ?p = 11 + length leaf"
    by (simp_all add: kfsInodePayload_layout AppendLStr_def)
  obtain f1 where f1: "kfs_append D RecInode (kfsInodePayload ?nd) ?k = (Inr (), with_fmt f1 ?k)"
      "kok (with_fmt f1 ?k) \<or> k_wOff ?k < LogStart" "f_wOff f1 \<le> k_wOff ?k + HdrLen + length (kfsInodePayload ?nd) + 13"
    by (rule append_progress [OF k1, of "kfsInodePayload ?nd" RecInode]) (use assms(4) lp(1) in simp_all)
  have k2: "kok (with_fmt f1 ?k)" using f1(2) k(2) by simp
  obtain f2 where f2: "kfs_append D RecDirent ?p (with_fmt f1 ?k) = (Inr (), with_fmt f2 (with_fmt f1 ?k))"
      "f_wOff f2 \<le> k_wOff (with_fmt f1 ?k) + HdrLen + length ?p + 13"
    by (rule append_progress [OF k2, of ?p RecDirent])
       (use assms(4) lp f1(3) in \<open>simp_all add: with_fmt_def\<close>)
  obtain k' where k': "Mkdir D path k = (Inr (), k')" "k_wOff k' = f_wOff f2" "k_logEnd k' = k_logEnd k"
    using f1(1) f2(1) assms(2,3)
    by (auto simp: Mkdir_def allocIno_def appendDirent_def Let_def set_inode_def link_dirent_def with_fmt_def)
  then show ?thesis using that f1(3) f2(2) lp by (simp add: with_fmt_def)
qed

lemma Mkdir_fresh:
  assumes "synced_with k k0" "same_tables k T" "walkParent T path = Inr (p, leaf)"
    "findDirent T p leaf = None" "k_nextIno T \<noteq> NOT 0" "length path \<le> 65520" "k_wOff k + 68 + length leaf \<le> k_logEnd k"
  obtains k' k1 where "Mkdir D path k = (Inr (), k')" "synced_with k' k1"
    "same_tables k' (new_entry p leaf \<lparr>i_ino = k_nextIno T, i_uid = 0, i_kind = KindDir, i_size = 0\<rparr> T)"
    "k_wOff k' \<le> k_wOff k + 68 + length leaf" "k_logEnd k' = k_logEnd k"
proof -
  note w = same_tables_walk [OF assms(2)]
  have n: "k_nextIno k = k_nextIno T" using assms(2) by (simp add: same_tables_def)
  obtain k' where k': "Mkdir D path k = (Inr (), k')" "k_wOff k' \<le> k_wOff k + 68 + length leaf" "k_logEnd k' = k_logEnd k"
    by (rule Mkdir_progress [OF assms(1), of path p leaf]) (use assms w in simp_all)
  show ?thesis
  proof (rule Mkdir_synced [OF assms(1) k'(1)])
    fix p' leaf'
    assume a: "walkParent k path = Inr (p', leaf')" "synced_with k' (link_dirent p' leaf' (k_nextIno k)
         (put_inode \<lparr>i_ino = k_nextIno k, i_uid = 0, i_kind = KindDir, i_size = 0\<rparr> k0))"
      "same_tables k' (new_entry p' leaf' \<lparr>i_ino = k_nextIno k, i_uid = 0, i_kind = KindDir, i_size = 0\<rparr> k)"
    have e: "p' = p" "leaf' = leaf" using a(1) w assms(3) by simp_all
    show thesis by (rule that [OF k'(1) a(2) _ k'(2,3)]) (use a(3) new_entry_same [OF assms(2)] n e same_trans in metis)
  qed (use assms(5,6) n in simp_all)
qed

lemma Mkdir_run:
  assumes "kfs_reach D d0 k" "synced_with k k0" "same_tables k T" "walkParent T path = Inr (p, leaf)"
    "findDirent T p leaf = None" "k_nextIno T \<noteq> NOT 0" "length path \<le> 65520" "k_wOff k + 68 + length leaf \<le> k_logEnd k"
  obtains k' k1 where "kfs_reach D d0 k'" "synced_with k' k1"
    "same_tables k' (new_entry p leaf \<lparr>i_ino = k_nextIno T, i_uid = 0, i_kind = KindDir, i_size = 0\<rparr> T)"
    "k_wOff k' \<le> k_wOff k + 68 + length leaf" "k_logEnd k' = k_logEnd k"
proof (rule Mkdir_fresh [OF assms(2-8)])
  fix k' k1
  assume k': "Mkdir D path k = (Inr (), k')" and r: "synced_with k' k1"
    "same_tables k' (new_entry p leaf \<lparr>i_ino = k_nextIno T, i_uid = 0, i_kind = KindDir, i_size = 0\<rparr> T)"
    "k_wOff k' \<le> k_wOff k + 68 + length leaf" "k_logEnd k' = k_logEnd k"
  have "k_nextIno k \<noteq> NOT 0" using assms(3,6) by (simp add: same_tables_def)
  then have "kfs_reach D d0 k'"
    by (rule kfs_reach.step [OF assms(1) kfs_step.step_mkdir [OF k' _ assms(7)]])
  then show thesis by (rule that [OF _ r])
qed

lemma Create_fresh:
  assumes "synced_with k k0" "same_tables k T" "walkParent T path = Inr (p, leaf)"
    "findDirent T p leaf = None" "k_nextIno T \<noteq> NOT 0" "length path \<le> 65520" "k_wOff k + 68 + length leaf \<le> k_logEnd k"
  obtains k' k1 where "Create D path k = (Inr (), k')" "synced_with k' k1"
    "same_tables k' (new_entry p leaf \<lparr>i_ino = k_nextIno T, i_uid = 0, i_kind = KindFile, i_size = 0\<rparr> T)"
    "k_wOff k' \<le> k_wOff k + 68 + length leaf" "k_logEnd k' = k_logEnd k"
proof -
  note w = same_tables_walk [OF assms(2)]
  have n: "k_nextIno k = k_nextIno T" using assms(2) by (simp add: same_tables_def)
  obtain k' where k': "Create D path k = (Inr (), k')" "k_wOff k' \<le> k_wOff k + 68 + length leaf" "k_logEnd k' = k_logEnd k"
    by (rule Create_progress [OF assms(1), of path p leaf]) (use assms w in simp_all)
  show ?thesis
  proof (rule Create_synced [OF assms(1) k'(1)])
    fix p' leaf' k1
    assume a: "walkParent k path = Inr (p', leaf')" "synced_with k' k1"
      "same_tables k' (new_entry p' leaf' \<lparr>i_ino = k_nextIno k, i_uid = 0, i_kind = KindFile, i_size = 0\<rparr> k)"
    have e: "p' = p" "leaf' = leaf" using a(1) w assms(3) by simp_all
    show thesis by (rule that [OF k'(1) a(2) _ k'(2,3)]) (use a(3) new_entry_same [OF assms(2)] n e same_trans in metis)
  next
    fix p' leaf' di assume "walkParent k path = Inr (p', leaf')" "findDirent k p' leaf' = Some di"
    then show thesis using w assms(3,4) by simp
  qed (use assms(5,6) n in simp_all)
qed

lemma Create_run:
  assumes "kfs_reach D d0 k" "synced_with k k0" "same_tables k T" "walkParent T path = Inr (p, leaf)"
    "findDirent T p leaf = None" "k_nextIno T \<noteq> NOT 0" "length path \<le> 65520" "k_wOff k + 68 + length leaf \<le> k_logEnd k"
  obtains k' k1 where "kfs_reach D d0 k'" "synced_with k' k1"
    "same_tables k' (new_entry p leaf \<lparr>i_ino = k_nextIno T, i_uid = 0, i_kind = KindFile, i_size = 0\<rparr> T)"
    "k_wOff k' \<le> k_wOff k + 68 + length leaf" "k_logEnd k' = k_logEnd k"
proof (rule Create_fresh [OF assms(2-8)])
  fix k' k1
  assume k': "Create D path k = (Inr (), k')" and r: "synced_with k' k1"
    "same_tables k' (new_entry p leaf \<lparr>i_ino = k_nextIno T, i_uid = 0, i_kind = KindFile, i_size = 0\<rparr> T)"
    "k_wOff k' \<le> k_wOff k + 68 + length leaf" "k_logEnd k' = k_logEnd k"
  have "k_nextIno k \<noteq> NOT 0" using assms(3,6) by (simp add: same_tables_def)
  then have "kfs_reach D d0 k'"
    by (rule kfs_reach.step [OF assms(1) kfs_step.step_create [OF k' _ assms(7)]])
  then show thesis by (rule that [OF _ r])
qed

end

section \<open>Properties\<close>





end
