(* ===== verification/Fs_Server_Props.thy ===== *)
theory Fs_Server_Props
  imports Fs_Server Fs_Kfs_Tree
begin

text \<open>
  What the multi-user policy of the file server guarantees: where a path of a non-privileged user
  can lead, that the session table is fed by the privileged session only, and, together with the
  filesystem below, that a user's requests leave other users' files alone.
\<close>

section \<open>Paths and components\<close>

lemma splitPath_loop_filter:
  "splitPath_loop out ps =
     (if [dot, dot] \<in> set ps then Inl ErrBadName else Inr (out @ filter (\<lambda>p. p \<noteq> [] \<and> p \<noteq> [dot]) ps))"
  by (induction ps arbitrary: out) auto

lemma split_on_app: "split_on c (a @ c # b) = split_on c a @ split_on c b"
proof (induction a)
  case (Cons x xs)
  have "split_on c xs \<noteq> []" by (induction xs) (auto split: list.splits)
  then show ?case using Cons by (auto split: list.splits)
qed simp

lemma split_on_none: "c \<notin> set a \<Longrightarrow> split_on c a = [a]"
  by (induction a) auto

lemma split_on_first: "\<exists>rest. split_on slash s = before_slash s # rest"
  by (induction s) (auto simp: before_slash_def)

lemma before_slash_cases:
  assumes "before_slash s = t"
  obtains "s = t" "slash \<notin> set t" | rest where "s = t @ slash # rest" "slash \<notin> set t"
proof (cases "slash \<in> set s")
  case True
  then have "dropWhile (\<lambda>c. c \<noteq> slash) s \<noteq> []" by auto
  then obtain rest where "dropWhile (\<lambda>c. c \<noteq> slash) s = slash # rest"
    using hd_dropWhile [of "\<lambda>c. c \<noteq> slash" s] by (cases "dropWhile (\<lambda>c. c \<noteq> slash) s") auto
  then have "s = t @ slash # rest" using assms takeWhile_dropWhile_id [of "\<lambda>c. c \<noteq> slash" s] by (simp add: before_slash_def)
  moreover have "slash \<notin> set t" using assms set_takeWhileD by (fastforce simp: before_slash_def)
  ultimately show ?thesis by (rule that(2))
next
  case False
  then have "takeWhile (\<lambda>c. c \<noteq> slash) s = s" by (induction s) auto
  then have "s = t" using assms unfolding before_slash_def by metis
  then show ?thesis using that(1) False by blast
qed

lemma before_slash_simps:
  "slash \<notin> set n \<Longrightarrow> before_slash n = n" "slash \<notin> set n \<Longrightarrow> before_slash (n @ slash # r) = n"
  by (induction n) (auto simp: before_slash_def)

definition plain_name :: "bytes \<Rightarrow> bool" where
  "plain_name n \<longleftrightarrow> n \<noteq> [] \<and> slash \<notin> set n \<and> n \<noteq> [dot] \<and> n \<noteq> [dot, dot]"

definition ascii_text :: "bytes \<Rightarrow> bool" where
  "ascii_text s \<longleftrightarrow> (\<forall>c \<in> set s. c < 0x80)"

text \<open>Where a non-privileged request may go, by the components of the effective path.\<close>

definition allowed :: "fsSession option \<Rightarrow> bool \<Rightarrow> bytes list \<Rightarrow> bool" where
  "allowed sess wr parts \<longleftrightarrow> (\<exists>top rest. parts = top # rest \<and>
     (top = str ''tmp''
      \<or> top = str ''etc'' \<and> (wr \<longrightarrow> fs_admin sess)
      \<or> top = str ''boot'' \<and> \<not> wr
      \<or> top = str ''home'' \<and> (\<exists>ss h rest'. sess = Some ss \<and> rest = h # rest' \<and> EqualFold h (ss_name ss))))"

lemma str_dirs: "str ''tmp'' = [0x74, 0x6D, 0x70]" "str ''etc'' = [0x65, 0x74, 0x63]"
  "str ''boot'' = [0x62, 0x6F, 0x6F, 0x74]" "str ''home'' = [0x68, 0x6F, 0x6D, 0x65]"
  "str ''home/'' = str ''home'' @ [slash]" "home_slash = slash # str ''home'' @ [slash]"
  by (simp_all add: str_def)

lemma split_slash_path:
  "splitPath (slash # clean) =
     (if [dot, dot] \<in> set (split_on slash clean) then Inl ErrBadName
      else Inr (filter (\<lambda>p. p \<noteq> [] \<and> p \<noteq> [dot]) (split_on slash clean)))"
  by (simp add: splitPath_def splitPath_loop_filter)

lemma split_top:
  assumes "before_slash clean = t" "t \<noteq> []" "t \<noteq> [dot]" "[dot, dot] \<notin> set (split_on slash clean)"
  shows "\<exists>rest. splitPath (slash # clean) = Inr (t # rest)"
  using split_on_first [of clean] assms by (auto simp: split_slash_path)

lemma lower_dot: "ascii_lower c = dot \<Longrightarrow> c = dot"
  unfolding ascii_lower_def by (auto split: if_splits)

lemma fold_dot: "EqualFold [dot] n \<Longrightarrow> n = [dot]"
  by (cases n) (auto simp: EqualFold_def ascii_lower_def split: if_splits)

text \<open>A path below \<^verbatim>\<open>/home\<close> starts with the owner named in it.\<close>

lemma split_home:
  assumes "before_slash rest = owner" "owner \<noteq> []" "owner \<noteq> [dot]" "[dot, dot] \<notin> set (split_on slash rest)"
  shows "\<exists>r. splitPath (home_slash @ rest) = Inr (str ''home'' # owner # r)"
proof -
  have h: "split_on slash (str ''home'' @ slash # rest) = str ''home'' # split_on slash rest"
    by (simp add: split_on_app split_on_none str_dirs)
  have "[dot, dot] \<notin> set (split_on slash (str ''home'' @ slash # rest))" using assms(4) by (simp add: h str_dirs)
  then have "splitPath (slash # str ''home'' @ slash # rest) =
      Inr (filter (\<lambda>p. p \<noteq> [] \<and> p \<noteq> [dot]) (str ''home'' # split_on slash rest))"
    by (simp only: split_slash_path h if_False)
  then show ?thesis using split_on_first [of rest] assms(1-3) by (auto simp: str_dirs)
qed

lemma split_own_home:
  assumes "plain_name n" "[dot, dot] \<notin> set (split_on slash raw)"
  shows "\<exists>q. splitPath (home_slash @ n) = Inr (str ''home'' # n # q)"
    "\<exists>q. splitPath (home_slash @ n @ slash # raw) = Inr (str ''home'' # n # q)"
proof -
  have n: "n \<noteq> []" "slash \<notin> set n" "n \<noteq> [dot]" "[dot, dot] \<noteq> n" using assms(1) by (auto simp: plain_name_def)
  show "\<exists>q. splitPath (home_slash @ n) = Inr (str ''home'' # n # q)"
    by (rule split_home [OF before_slash_simps(1) [OF n(2)] n(1,3)]) (use n in \<open>simp add: split_on_none\<close>)
  show "\<exists>q. splitPath (home_slash @ n @ slash # raw) = Inr (str ''home'' # n # q)"
    by (rule split_home [OF before_slash_simps(2) [OF n(2)] n(1,3)])
       (use n assms(2) in \<open>simp add: split_on_none split_on_app\<close>)
qed

lemma dirs_distinct: "str ''home'' \<noteq> str ''tmp''" "str ''home'' \<noteq> str ''etc''" "str ''home'' \<noteq> str ''boot''"
  "str ''etc'' \<noteq> str ''tmp''" "str ''boot'' \<noteq> str ''tmp''" "str ''boot'' \<noteq> str ''etc''"
  by (simp_all add: str_dirs)

lemma gate_other:
  assumes "gateAbsolute uid sess clean wr = (path, FSOK)" "before_slash clean \<noteq> str ''home''"
  shows "path = slash # clean \<and> (before_slash clean = str ''tmp'' \<or> before_slash clean = str ''etc'' \<and> (wr \<longrightarrow> fs_admin sess)
    \<or> before_slash clean = str ''boot'' \<and> \<not> wr)"
  using assms by (simp add: gateAbsolute_def Let_def split: if_splits)

lemma gate_home:
  assumes "before_slash clean = str ''home''" "uid \<noteq> 0"
  defines "rest \<equiv> (if clean = str ''home'' then [] else TrimPrefix clean (str ''home/''))"
  shows "gateAbsolute uid sess clean wr =
    (if before_slash rest = []
     then (if wr \<and> \<not> fs_admin sess then ([], FSAccess)
           else case sess of Some ss \<Rightarrow> (home_slash @ ss_name ss, FSOK) | None \<Rightarrow> ([], FSNoEntry))
     else if (case sess of Some ss \<Rightarrow> EqualFold (before_slash rest) (ss_name ss) | None \<Rightarrow> False)
     then (home_slash @ rest, FSOK)
     else ([], FSNoEntry))"
  unfolding gateAbsolute_def Let_def assms(1) rest_def by (simp only: dirs_distinct assms(2) if_False if_True simp_thms)

lemma gate_allowed:
  assumes "gateAbsolute uid sess clean wr = (path, FSOK)" "uid \<noteq> 0" "[dot, dot] \<notin> set (split_on slash clean)"
    "\<And>ss. sess = Some ss \<Longrightarrow> plain_name (ss_name ss)"
  shows "\<exists>parts. splitPath path = Inr parts \<and> allowed sess wr parts"
proof (cases "before_slash clean = str ''home''")
  case False
  let ?t = "before_slash clean"
  note g = gate_other [OF assms(1) False]
  have "?t \<noteq> []" "?t \<noteq> [dot]" using g by (auto simp: str_dirs)
  then obtain rest where "splitPath path = Inr (?t # rest)" using split_top [OF refl _ _ assms(3)] g by blast
  then show ?thesis using g by (auto simp: allowed_def)
next
  case True
  let ?rest = "if clean = str ''home'' then [] else TrimPrefix clean (str ''home/'')"
  note g = assms(1) [unfolded gate_home [OF True assms(2)]]
  have r: "[dot, dot] \<notin> set (split_on slash ?rest)"
    using before_slash_cases [OF True]
  proof cases
    case (2 rest)
    then have "clean \<noteq> str ''home''" "HasPrefix clean (str ''home/'')" "drop (length (str ''home/'')) clean = rest"
      by (simp_all add: HasPrefix_def str_dirs(5))
    then have "?rest = rest" by (simp add: TrimPrefix_def)
    moreover have "split_on slash clean = split_on slash (str ''home'') @ split_on slash rest" using 2 by (simp add: split_on_app)
    ultimately show ?thesis using assms(3) by simp
  qed simp
  show ?thesis
  proof (cases "before_slash ?rest = []")
    case own: True
    then obtain ss where ss: "sess = Some ss" "path = home_slash @ ss_name ss"
      using g by (simp split: if_splits option.splits)
    then obtain q where "splitPath path = Inr (str ''home'' # ss_name ss # q)"
      using split_own_home(1) [OF assms(4) [OF ss(1)], of "[]"] by auto
    then show ?thesis using ss(1) by (auto simp: allowed_def EqualFold_def)
  next
    case other: False
    then obtain ss where ss: "sess = Some ss" "EqualFold (before_slash ?rest) (ss_name ss)" "path = home_slash @ ?rest"
      using g by (simp split: if_splits option.splits)
    have "before_slash ?rest \<noteq> [dot]" using fold_dot [of "ss_name ss"] ss(2) assms(4) [OF ss(1)] by (auto simp: plain_name_def)
    then obtain q where "splitPath path = Inr (str ''home'' # before_slash ?rest # q)"
      using split_home [OF refl other _ r] ss(3) by blast
    then show ?thesis using ss by (auto simp: allowed_def)
  qed
qed

lemma authorize_allowed:
  assumes "authorize ss uid raw wr = (path, FSOK)" "uid \<noteq> 0" "\<And>sess. ss uid = Some sess \<Longrightarrow> plain_name (ss_name sess)"
  shows "\<exists>parts. splitPath path = Inr parts \<and> allowed (ss uid) wr parts"
proof -
  have dd: "[dot, dot] \<notin> set (split_on slash raw)" using assms(1,2) by (auto simp: authorize_def hasDotDot_def split: if_splits)
  show ?thesis
  proof (cases "HasPrefix raw [slash]")
    case True
    then obtain clean where c: "raw = slash # clean" by (cases raw) (auto simp: HasPrefix_def)
    then have "TrimPrefix raw [slash] = clean" by (simp add: TrimPrefix_def HasPrefix_def)
    then have "gateAbsolute uid (ss uid) clean wr = (path, FSOK)"
      using assms(1,2) True by (auto simp: authorize_def Let_def split: if_splits option.splits)
    then show ?thesis using gate_allowed [OF _ assms(2)] dd c assms(3) by simp
  next
    case False
    then have "TrimPrefix raw [slash] = raw" by (simp add: TrimPrefix_def)
    then obtain sess where s: "ss uid = Some sess" "path = home_slash @ ss_name sess @ slash # raw"
      using assms(1,2) False by (auto simp: authorize_def Let_def split: if_splits option.splits)
    then obtain q where "splitPath path = Inr (str ''home'' # ss_name sess # q)"
      using split_own_home(2) [OF assms(3) [OF s(1)] dd] by auto
    then show ?thesis using s(1) by (auto simp: allowed_def EqualFold_def)
  qed
qed

section \<open>The backend contract\<close>

text \<open>
  What the server relies on when it builds a read reply: a read returns at most the bytes asked for,
  in a buffer of the same length.
\<close>

locale fs_backend =
  fixes S :: "'s store"
  assumes read_bounded: "st_ReadFile S path off buf s = (Inr (nr, buf'), s') \<Longrightarrow> nr \<le> length buf \<and> length buf' = length buf"
begin

lemma do_read_size:
  assumes "do_read S ss uid payload s = (Answer st body, s')" "LStr payload 0 = Some (raw, plen)"
  shows "length body \<le> 2 + min (unat (Get16 (drop (plen + 8) payload))) (MaxMsg - 16)"
proof -
  obtain path pst where r: "resolveFor ss uid raw False = (path, pst)" by fastforce
  let ?n = "min (unat (Get16 (drop (plen + 8) payload))) (MaxMsg - 16)"
  obtain res s1 where q: "st_ReadFile S path (Get64 (drop plen payload)) (replicate ?n 0) s = (res, s1)" by fastforce
  show ?thesis
  proof (cases res)
    case (Inr x)
    obtain nr rbuf where x: "x = (nr, rbuf)" by fastforce
    have "nr \<le> ?n" using read_bounded [OF q [unfolded Inr x]] by simp
    then show ?thesis using assms r q Inr x by (auto simp: do_read_def Let_def split: if_splits)
  qed (use assms r q in \<open>auto simp: do_read_def fail_with_def Let_def split: if_splits\<close>)
qed

lemma do_read_body: "do_read S ss uid payload s = (Answer st body, s') \<Longrightarrow> length body \<le> 4082"
  using do_read_size [of ss uid payload s st body s'] by (cases "LStr payload 0") (simp add: do_read_def, fastforce)

lemma list_body_size: "length body \<le> 4080 \<Longrightarrow> length (list_body body es) \<le> 4080"
  by (induction body es rule: list_body.induct) (auto simp: AppendLStr_def)

lemma do_list_body: "do_list S ss uid payload s = (Answer st body, s') \<Longrightarrow> length body \<le> 4080"
  by (auto simp: do_list_def fail_with_def Let_def list_body_size split: if_splits prod.splits sum.splits)

lemma small_body:
  "do_stat S ss uid payload s = (Answer st body, s') \<Longrightarrow> length body \<le> 9"
  "do_write S ss uid payload s = (Answer st body, s') \<Longrightarrow> length body \<le> 9"
  "do_path S op ss uid payload s = (Answer st body, s') \<Longrightarrow> length body \<le> 9"
  "do_register S uid payload ss s = (Answer st body, ss', s') \<Longrightarrow> length body \<le> 9"
  by (auto simp: do_stat_def do_write_def do_path_def do_register_def fail_with_def Let_def
      split: if_splits prod.splits sum.splits option.splits)

end

lemma ReadFile_bounded: "ReadFile D path off buf k = (Inr (nr, buf'), k') \<Longrightarrow> nr \<le> length buf \<and> length buf' = length buf"
  by (auto simp: ReadFile_def Let_def sbind_eq_Inr split: if_splits sum.splits option.splits prod.splits)

interpretation kfs_b: fs_backend "kfs_store D" for D
  by unfold_locales (simp add: kfs_store_def ReadFile_bounded)

section \<open>The session table\<close>

definition sessions_typed :: "sessions \<Rightarrow> bool" where
  "sessions_typed ss \<longleftrightarrow> (\<forall>uid sess. ss uid = Some sess \<longrightarrow>
     ss_name sess \<noteq> [] \<and> length (ss_name sess) \<le> 32 \<and> ToLower (ss_name sess) = ss_name sess)"

lemma lower_idem [simp]: "ascii_lower (ascii_lower c) = ascii_lower c"
proof (cases "0x41 \<le> c \<and> c \<le> 0x5A")
  case True
  then have "0x41 \<le> unat c" "unat c \<le> 0x5A" by (simp_all add: word_le_nat_alt)
  then have "unat (c + 0x20) = unat c + 32" by (simp add: unat_word_ariths)
  with \<open>0x41 \<le> unat c\<close> have "\<not> c + 0x20 \<le> 0x5A" by (simp add: word_le_nat_alt)
  then show ?thesis using True by (simp add: ascii_lower_def)
qed (simp add: ascii_lower_def)

lemma registerSession_typed:
  "registerSession payload ss = (st, ss') \<Longrightarrow> sessions_typed ss \<Longrightarrow> sessions_typed ss'"
  by (auto simp: registerSession_def sessions_typed_def ToLower_def split: if_splits option.splits prod.splits)

lemma dispatch_sessions:
  assumes "fs_dispatch S req (ss, s) = (r, ss', s')" "sessions_typed ss"
  shows "sessions_typed ss' \<and> (Get32 (drop 4 req) \<noteq> 0 \<longrightarrow> ss' = ss)"
proof (cases "ParseHeader req")
  case (Some hdr)
  have u: "h_UID hdr = Get32 (drop 4 req)" using Some by (auto simp: ParseHeader_def split: if_splits)
  have reg: "sessions_typed ss1 \<and> (uid \<noteq> 0 \<longrightarrow> ss1 = ss)" if "do_register S uid p ss s = (a, ss1, s1)" for uid p a ss1 s1
    using that assms(2) registerSession_typed
    by (auto simp: do_register_def Let_def split: if_splits prod.splits option.splits sum.splits)
  show ?thesis
    using assms Some u reg by (auto simp: fs_dispatch_def Let_def split: if_splits prod.splits answer.splits)
qed (use assms in \<open>simp add: fs_dispatch_def\<close>)

section \<open>Properties\<close>

lemma allowed_not_other:
  assumes "allowed sess wr parts" "\<And>ss. sess = Some ss \<Longrightarrow> ss_name ss \<noteq> n \<and> ToLower (ss_name ss) = ss_name ss" "ToLower n = n"
  shows "parts \<noteq> str ''home'' # n # q"
proof
  assume p: "parts = str ''home'' # n # q"
  with assms(1) obtain ss where "sess = Some ss" "EqualFold n (ss_name ss)"
    using dirs_distinct by (auto simp: allowed_def)
  then show False using assms(2,3) by (auto simp: EqualFold_def ToLower_def)
qed


definition ex_sessions :: sessions where
  "ex_sessions = [1000 \<mapsto> \<lparr>ss_name = str ''ann'', ss_mask = 0\<rparr>, 1001 \<mapsto> \<lparr>ss_name = str ''bob'', ss_mask = 0\<rparr>]"

lemma ex_sessions_ok: "sessions_typed ex_sessions" "ex_sessions 1000 = Some \<lparr>ss_name = str ''ann'', ss_mask = 0\<rparr>"
  "plain_name (str ''ann'')" "ascii_text (str ''ann'')" "ToLower (str ''bob'') = str ''bob''" "str ''ann'' \<noteq> str ''bob''"
  by (auto simp: sessions_typed_def ex_sessions_def str_def ToLower_def ascii_lower_def plain_name_def ascii_text_def
      split: if_splits)


text \<open>C22: The session table is well-typed and closed to users: along any sequence of requests every registered
  name stays non-empty, at most 32 bytes and in lower case, and requests stamped with a
  user's uid leave the table exactly as it is.\<close>

theorem fs_sessions_typed:
  assumes "serve S reqs (ss, s) = (rs, ss', s')" "sessions_typed ss"
  shows "sessions_typed ss' \<and> ((\<forall>req \<in> set reqs. Get32 (drop 4 req) \<noteq> 0) \<longrightarrow> ss' = ss)"
  using assms
proof (induction reqs arbitrary: ss s rs)
  case (Cons req reqs)
  obtain r ss1 s1 where d: "fs_dispatch S req (ss, s) = (r, ss1, s1)" by (metis prod_cases3)
  note k = dispatch_sessions [OF d Cons.prems(2)]
  show ?case
  proof (cases "length req < CanonicalHeaderLen")
    case True
    then show ?thesis using Cons.IH [of ss s rs] Cons.prems by simp
  next
    case False
    show ?thesis
    proof (cases "r = Crash")
      case True
      then show ?thesis using Cons.prems(1) False d k by simp
    next
      case nocrash: False
      then obtain rs' where "serve S reqs (ss1, s1) = (rs', ss', s')"
        using Cons.prems(1) False d by (cases r) (auto split: prod.splits)
      from Cons.IH [OF this] k show ?thesis by auto
    qed
  qed
qed simp

theorem fs_sessions_typed_witness:
  "\<forall>s. \<exists>rs ss' s'. serve (kfs_store mem_dev) [replicate 30 1] (ex_sessions, s) = (rs, ss', s') \<and>
     sessions_typed ss' \<and> ss' = ex_sessions"
proof
  fix s
  obtain rs ss' s' where "serve (kfs_store mem_dev) [replicate 30 1] (ex_sessions, s) = (rs, ss', s')" by (metis prod_cases3)
  moreover have "Get32 (drop 4 (replicate 30 1)) \<noteq> 0" by (simp add: Get32_def)
  ultimately show "\<exists>rs ss' s'. serve (kfs_store mem_dev) [replicate 30 1] (ex_sessions, s) = (rs, ss', s') \<and>
     sessions_typed ss' \<and> ss' = ex_sessions" using fs_sessions_typed [OF _ ex_sessions_ok(1)] by fastforce
qed

text \<open>A request as a client frames it and the kernel delivers it.\<close>

definition write_request :: "u32 \<Rightarrow> u16 \<Rightarrow> bytes \<Rightarrow> bytes \<Rightarrow> u64 \<Rightarrow> bytes \<Rightarrow> bytes" where
  "write_request uid sq rname raw off data =
     stamp_uid uid (FrameCanonical OpFSWrite sq rname
       (AppendLStr [] raw @ le64 off @ le16 (of_nat (length data)) @ data))"

lemma LStr_path: "length raw < 65536 \<Longrightarrow> LStr (AppendLStr [] raw @ rest) 0 = Some (raw, 2 + length raw)"
  using LStr_framed [of raw "[]" rest] by simp

lemma write_request_dispatch:
  assumes "length rname \<le> 16" "0 \<notin> set rname" "rname \<noteq> []" "length raw < 65536" "length data \<le> 65520"
  shows "fs_dispatch S (write_request uid sq rname raw off data) (ss, s) =
    (let (a, s') =
       (let (path, pst) = authorize ss uid raw True
        in if pst \<noteq> FSOK then (Answer pst [], s)
           else case st_WriteFile S path off data s of
                  (Inl e, s) \<Rightarrow> (fail_with e, s)
                | (Inr _, s) \<Rightarrow>
                    (case st_Stat S path s of
                       (Inl e, s) \<Rightarrow> (fail_with e, s)
                     | (Inr st, s) \<Rightarrow> (Answer FSOK (le32 (si_Size st)), s)))
     in case a of
          Answer status body \<Rightarrow> (Reply (reply_frame OpFSWrite sq status body) rname, ss, s')
        | NoAnswer \<Rightarrow> (Silent, ss, s') | Panicked \<Rightarrow> (Crash, ss, s'))"
proof -
  let ?p = "AppendLStr [] raw @ le64 off @ le16 (of_nat (length data)) @ data"
  have l: "LStr ?p 0 = Some (raw, 2 + length raw)" by (rule LStr_path [OF assms(4)])
  have d: "drop (2 + length raw) ?p = le64 off @ le16 (of_nat (length data)) @ data"
    "drop (2 + length raw + 8) ?p = le16 (of_nat (length data)) @ data"
    "window (2 + length raw + 10) (length data) ?p = data"
    by (simp_all add: AppendLStr_def window_def)
  have n: "unat (of_nat (length data) :: u16) = length data" using assms(5) by (simp add: unat_of_nat take_bit_nat_eq_self)
  have len: "length ?p = 12 + length raw + length data" by (simp add: AppendLStr_def)
  have w: "do_write S ss uid ?p s =
      (let (path, pst) = authorize ss uid raw True
        in if pst \<noteq> FSOK then (Answer pst [], s)
           else case st_WriteFile S path off data s of
                  (Inl e, s) \<Rightarrow> (fail_with e, s)
                | (Inr _, s) \<Rightarrow>
                    (case st_Stat S path s of
                       (Inl e, s) \<Rightarrow> (fail_with e, s)
                     | (Inr st, s) \<Rightarrow> (Answer FSOK (le32 (si_Size st)), s)))"
    unfolding do_write_def l option.case prod.case d Get16_le16 Get64_le64 n Let_def resolveFor_def len
    by (cases "authorize ss uid raw True") simp
  obtain a s' where "do_write S ss uid ?p s = (a, s')" by fastforce
  then have "fs_dispatch S (write_request uid sq rname raw off data) (ss, s) =
      (let (a, s') = do_write S ss uid ?p s in case a of
          Answer status body \<Rightarrow> (Reply (reply_frame OpFSWrite sq status body) rname, ss, s')
        | NoAnswer \<Rightarrow> (Silent, ss, s') | Panicked \<Rightarrow> (Crash, ss, s'))"
    unfolding fs_dispatch_def write_request_def ParseHeader_FrameCanonical [OF assms(1,2)] using assms(3)
    by (cases a) simp_all
  then show ?thesis unfolding w .
qed


text \<open>After a successful write, \<^verbatim>\<open>Stat\<close> finds the file.\<close>

context block_device
begin

lemma Stat_after_write:
  assumes "synced_with k k0" "WriteFile D path off data k = (Inr (), k')"
    "unat off + length data < 2 ^ 63" "length data \<le> 65520"
  obtains st where "Stat path k' = Inr st"
proof -
  obtain p leaf di nd k1 where a: "walkParent k path = Inr (p, leaf)" "findDirent k p leaf = Some di"
    "k_inodes k (d_ino (k_dirents k ! di)) = Some nd" "synced_with k' k1"
    "same_tables k' (k\<lparr>k_inodes := (k_inodes k)(d_ino (k_dirents k ! di) \<mapsto>
       nd\<lparr>i_size := new_size (i_size nd) off data\<rparr>)\<rparr>)"
    by (rule WriteFile_synced [OF assms])
  let ?ino = "d_ino (k_dirents k ! di)" and ?nd = "nd\<lparr>i_size := new_size (i_size nd) off data\<rparr>"
  have t: "k_children k' = k_children k" "k_dirents k' = k_dirents k" "k_inodes k' = (k_inodes k)(?ino \<mapsto> ?nd)"
    using a(5) by (simp_all add: same_tables_def)
  have w: "walkParent k' = walkParent k" "findDirent k' = findDirent k"
    using t a(3) by (auto intro!: walkParent_cong findDirent_cong)
  have "path \<noteq> [slash]" using a(1) by (auto simp: walkParent_def splitPath_def)
  moreover obtain parts where "splitPath path = Inr parts" using a(1) by (auto simp: walkParent_def split: sum.splits)
  ultimately have "\<exists>st. Stat path k' = Inr st" using a t w by (simp add: Stat_def Let_def)
  then show thesis using that by blast
qed

end

definition ex_tables :: "memDevice KFS" where
  "ex_tables =
     (let T = put_inode rootInode (emptyKFS disk16 0 [] 0);
          T = new_entry RootIno (str ''tmp'') \<lparr>i_ino = 2, i_uid = 0, i_kind = KindDir, i_size = 0\<rparr> T
      in new_entry 2 (str ''a'') \<lparr>i_ino = 3, i_uid = 0, i_kind = KindFile, i_size = 0\<rparr> T)"

lemmas table_defs = new_entry_def link_dirent_def set_inode_def children_of_def put_inode_def emptyKFS_def rootInode_def
  walkParent_def splitPath_def findDirent_def Let_def

text \<open>A volume with one file in the scratch directory.\<close>

lemma run_tmp:
  obtains k k0 where "kfs_reach mem_dev disk16 k" "mem.synced_with k k0" "same_tables k ex_tables" "k_wOff k + 4000 \<le> k_logEnd k"
proof -
  let ?T0 = "put_inode rootInode (emptyKFS disk16 0 [] 0)"
  let ?T1 = "new_entry RootIno (str ''tmp'') \<lparr>i_ino = 2, i_uid = 0, i_kind = KindDir, i_size = 0\<rparr> ?T0"
  have b: "16 * 512 \<le> length (mem_buf disk16)" "\<forall>b\<in>set (drop (512 + 35) (mem_buf disk16)). b = 0"
    by (simp_all add: newMem_def)
  obtain d' k k0 where f: "FormatKFS mem_dev disk16 = (Inr (), d')" "MountKFS mem_dev d' = Inr k"
    "mem.synced_with k k0" "same_tables k (put_inode rootInode (emptyKFS d' 0 [] 0))"
    "k_wOff k = LogStart + 35" "k_logEnd k = length (mem_buf disk16)"
    by (rule mem.fresh_synced [OF disk16_blank(1) b])
  have r: "kfs_reach mem_dev disk16 k" by (rule kfs_reach.boot [OF f(1,2)])
  have st: "same_tables k ?T0" using f(4) by (simp add: same_tables_def put_inode_def emptyKFS_def rootInode_def Let_def)
  have e: "k_logEnd k = 8192" by (simp add: f(6) newMem_def)
  have t0: "walkParent ?T0 (str ''/tmp'') = Inr (RootIno, str ''tmp'')" "findDirent ?T0 RootIno (str ''tmp'') = None" "k_nextIno ?T0 = 2"
    by (simp_all add: table_defs str_def)
  obtain k1 k2 where k1: "kfs_reach mem_dev disk16 k1" "mem.synced_with k1 k2" "same_tables k1 ?T1"
      "k_wOff k1 \<le> k_wOff k + 68 + length (str ''tmp'')" "k_logEnd k1 = k_logEnd k"
    by (rule mem.Mkdir_run [OF r f(3) st t0(1,2)]) (use f(5) e t0(3) in \<open>simp_all add: str_def\<close>)
  have t1: "walkParent ?T1 (str ''/tmp/a'') = Inr (2, str ''a'')" "findDirent ?T1 2 (str ''a'') = None" "k_nextIno ?T1 = 3"
    by (simp_all add: table_defs str_def)
  obtain k3 k4 where "kfs_reach mem_dev disk16 k3" "mem.synced_with k3 k4" "same_tables k3 ex_tables"
      "k_wOff k3 \<le> k_wOff k1 + 68 + length (str ''a'')" "k_logEnd k3 = k_logEnd k1"
    by (rule mem.Create_run [OF k1(1-3) t1(1,2)])
       (use f(5) e k1(4,5) t1(3) in \<open>simp_all add: str_def ex_tables_def\<close>)
  then show ?thesis using that f(5) e k1(4,5) by (simp add: str_def)
qed


section \<open>Reply sizes\<close>

definition read_request :: "u32 \<Rightarrow> u16 \<Rightarrow> bytes \<Rightarrow> bytes \<Rightarrow> u64 \<Rightarrow> u16 \<Rightarrow> bytes" where
  "read_request uid sq rname raw off cnt =
     stamp_uid uid (FrameCanonical OpFSRead sq rname (AppendLStr [] raw @ le64 off @ le16 cnt))"

lemma read_request_dispatch:
  assumes "length rname \<le> 16" "0 \<notin> set rname" "rname \<noteq> []" "length raw < 65536"
  shows "fs_dispatch S (read_request uid sq rname raw off cnt) (ss, s) =
    (let (a, s') =
       (let (path, pst) = authorize ss uid raw False
        in if pst \<noteq> FSOK then (Answer pst [], s)
           else case st_ReadFile S path off (replicate (min (unat cnt) 4080) 0) s of
                  (Inl e, s) \<Rightarrow> (fail_with e, s)
                | (Inr (nr, rbuf), s) \<Rightarrow> (Answer FSOK (le16 (of_nat nr) @ take nr rbuf), s))
     in case a of
          Answer status body \<Rightarrow> (Reply (reply_frame OpFSRead sq status body) rname, ss, s')
        | NoAnswer \<Rightarrow> (Silent, ss, s') | Panicked \<Rightarrow> (Crash, ss, s'))"
proof -
  let ?p = "AppendLStr [] raw @ le64 off @ le16 cnt"
  have l: "LStr ?p 0 = Some (raw, 2 + length raw)" by (rule LStr_path [OF assms(4)])
  have d: "drop (2 + length raw) ?p = le64 off @ le16 cnt" "drop (2 + length raw + 8) ?p = le16 cnt"
    by (simp_all add: AppendLStr_def)
  have len: "length ?p = 12 + length raw" by (simp add: AppendLStr_def)
  have w: "do_read S ss uid ?p s =
      (let (path, pst) = authorize ss uid raw False
        in if pst \<noteq> FSOK then (Answer pst [], s)
           else case st_ReadFile S path off (replicate (min (unat cnt) 4080) 0) s of
                  (Inl e, s) \<Rightarrow> (fail_with e, s)
                | (Inr (nr, rbuf), s) \<Rightarrow> (Answer FSOK (le16 (of_nat nr) @ take nr rbuf), s))"
    unfolding do_read_def l option.case prod.case d Get64_le64 Let_def resolveFor_def len
    by (cases "authorize ss uid raw False") simp
  obtain a s' where "do_read S ss uid ?p s = (a, s')" by fastforce
  then have "fs_dispatch S (read_request uid sq rname raw off cnt) (ss, s) =
      (let (a, s') = do_read S ss uid ?p s in case a of
          Answer status body \<Rightarrow> (Reply (reply_frame OpFSRead sq status body) rname, ss, s')
        | NoAnswer \<Rightarrow> (Silent, ss, s') | Panicked \<Rightarrow> (Crash, ss, s'))"
    unfolding fs_dispatch_def read_request_def ParseHeader_FrameCanonical [OF assms(1,2)] using assms(3)
    by (cases a) simp_all
  then show ?thesis unfolding w .
qed

lemma dispatch_body:
  assumes "fs_dispatch S req (ss, s) = (Reply rep inbox, ss', s')"
  obtains hdr st body where "ParseHeader req = Some hdr" "rep = reply_frame (h_Op hdr) (h_Seq hdr) st body"
    "h_Op hdr = OpFSRegister \<and> do_register S (h_UID hdr) (drop 24 req) ss s = (Answer st body, ss', s') \<or>
     h_Op hdr = OpFSStat \<and> do_stat S ss (h_UID hdr) (drop 24 req) s = (Answer st body, s') \<or>
     h_Op hdr = OpFSList \<and> do_list S ss (h_UID hdr) (drop 24 req) s = (Answer st body, s') \<or>
     h_Op hdr = OpFSRead \<and> do_read S ss (h_UID hdr) (drop 24 req) s = (Answer st body, s') \<or>
     h_Op hdr = OpFSWrite \<and> do_write S ss (h_UID hdr) (drop 24 req) s = (Answer st body, s') \<or>
     do_path S (h_Op hdr) ss (h_UID hdr) (drop 24 req) s = (Answer st body, s')"
  using assms
  by (auto simp: fs_dispatch_def Let_def split: option.splits if_splits prod.splits answer.splits)

text \<open>C33: Reply sizes.  Every reply of the server over the log-structured filesystem is at most 4110 bytes; replies other than to
  reads and listings are at most 37 bytes, and the reply to a read of at most 4066 bytes fits the 4096-byte datagram.\<close>

theorem fs_reply_bounds:
  assumes "fs_dispatch (kfs_store D) req (ss, k) = (Reply rep inbox, ss', k')" "ParseHeader req = Some hdr"
  shows "length rep \<le> 4110 \<and> (h_Op hdr \<notin> {OpFSList, OpFSRead} \<longrightarrow> length rep \<le> 37) \<and>
    (\<forall>raw plen. h_Op hdr = OpFSRead \<longrightarrow> LStr (drop CanonicalHeaderLen req) 0 = Some (raw, plen) \<longrightarrow>
       unat (Get16 (drop (CanonicalHeaderLen + plen + 8) req)) \<le> 4066 \<longrightarrow> length rep \<le> MaxMsg)"
proof -
  obtain st body where b: "rep = reply_frame (h_Op hdr) (h_Seq hdr) st body"
    "h_Op hdr = OpFSRegister \<and> do_register (kfs_store D) (h_UID hdr) (drop 24 req) ss k = (Answer st body, ss', k') \<or>
     h_Op hdr = OpFSStat \<and> do_stat (kfs_store D) ss (h_UID hdr) (drop 24 req) k = (Answer st body, k') \<or>
     h_Op hdr = OpFSList \<and> do_list (kfs_store D) ss (h_UID hdr) (drop 24 req) k = (Answer st body, k') \<or>
     h_Op hdr = OpFSRead \<and> do_read (kfs_store D) ss (h_UID hdr) (drop 24 req) k = (Answer st body, k') \<or>
     h_Op hdr = OpFSWrite \<and> do_write (kfs_store D) ss (h_UID hdr) (drop 24 req) k = (Answer st body, k') \<or>
     do_path (kfs_store D) (h_Op hdr) ss (h_UID hdr) (drop 24 req) k = (Answer st body, k')"
    by (rule dispatch_body [OF assms(1)]) (use assms(2) in auto)
  consider "length body \<le> 9" | "h_Op hdr = OpFSList" "length body \<le> 4080"
    | "h_Op hdr = OpFSRead" "do_read (kfs_store D) ss (h_UID hdr) (drop 24 req) k = (Answer st body, k')"
    using b(2) by (auto dest: kfs_b.small_body kfs_b.do_list_body)
  then show ?thesis
  proof cases
    case 3
    have "length body \<le> 2 + min (unat (Get16 (drop (24 + plen + 8) req))) 4080" if "LStr (drop 24 req) 0 = Some (raw, plen)" for raw plen
      using kfs_b.do_read_size [OF 3(2) that] by (simp add: add_ac)
    then show ?thesis using kfs_b.do_read_body [OF 3(2)] 3(1) by (fastforce simp: b(1))
  qed (use b(1) in auto)
qed

text \<open>A volume with a file of 4080 bytes in the scratch directory.\<close>

lemma run_big:
  obtains k buf k' where "kfs_reach mem_dev disk16 k"
    "ReadFile mem_dev (str ''/tmp/a'') 0 (replicate 4080 0) k = (Inr (4080, buf), k')"
proof -
  obtain k k0 where k: "kfs_reach mem_dev disk16 k" "mem.synced_with k k0" "same_tables k ex_tables" "k_wOff k + 4000 \<le> k_logEnd k"
    by (rule run_tmp)
  let ?nd = "\<lparr>i_ino = 3, i_uid = 0, i_kind = KindFile, i_size = 0\<rparr>"
  have w: "walkParent k (str ''/tmp/a'') = Inr (2, str ''a'')" "findDirent k 2 (str ''a'') = Some 1"
    "d_ino (k_dirents k ! 1) = 3" "k_inodes k (d_ino (k_dirents k ! 1)) = Some ?nd"
    using same_tables_walk [OF k(3)] k(3) by (simp_all add: same_tables_def ex_tables_def table_defs str_def)
  obtain k1 where k1: "WriteFile mem_dev (str ''/tmp/a'') 4079 [7] k = (Inr (), k1)"
    by (rule mem.WriteFile_progress [OF k(2) w(1,2,4), of "[7]" 4079]) (use k(4) in simp_all)
  have sz: "new_size 0 4079 [7] = 4080" by (simp add: new_size_def Let_def)
  have r: "kfs_reach mem_dev disk16 k1"
    by (rule kfs_reach.step [OF k(1) kfs_step.step_write [OF k1]]) simp_all
  show ?thesis
  proof (rule mem.WriteFile_synced [OF k(2) k1])
    fix p leaf di nd k2
    assume a: "walkParent k (str ''/tmp/a'') = Inr (p, leaf)" "findDirent k p leaf = Some di"
      "k_inodes k (d_ino (k_dirents k ! di)) = Some nd" "mem.synced_with k1 k2"
      "same_tables k1 (k\<lparr>k_inodes := (k_inodes k)(d_ino (k_dirents k ! di) \<mapsto> nd\<lparr>i_size := new_size (i_size nd) 4079 [7]\<rparr>)\<rparr>)"
    have e: "p = 2" "leaf = str ''a''" "di = 1" "nd = ?nd" using a(1-3) w by auto
    have t: "k_children k1 = k_children k" "k_dirents k1 = k_dirents k" "k_inodes k1 = (k_inodes k)(3 \<mapsto> ?nd\<lparr>i_size := 4080\<rparr>)"
      using a(5) w(3) sz by (simp_all add: same_tables_def e)
    have w1: "walkParent k1 = walkParent k" "findDirent k1 = findDirent k"
      using t w(3,4) by (auto intro!: walkParent_cong findDirent_cong)
    have f: "walkParent k1 (str ''/tmp/a'') = Inr (2, str ''a'')" "findDirent k1 2 (str ''a'') = Some 1"
      "k_inodes k1 (d_ino (k_dirents k1 ! 1)) = Some (?nd\<lparr>i_size := 4080\<rparr>)"
      using w t w1 by simp_all
    obtain k3 where "ReadFile mem_dev (str ''/tmp/a'') 0 (replicate 4080 0) k1 = (Inr (4080, go_copy (replicate 4080 0) 0
        (window 0 4080 (content (data_of k2 (d_ino (k_dirents k1 ! 1))) 4080))), k3)"
      by (rule mem.ReadFile_synced [OF a(4) f, of 0 "replicate 4080 0"]) simp_all
    then show thesis by (rule that [OF r])
  qed simp_all
qed

text \<open>A read request for at least 4080 bytes of a file that has them is answered with a datagram longer than the
  4096 bytes the kernel transports, so the answer is lost: the server clamps the count to the datagram size
  less 16 but puts 30 bytes in front of the data.\<close>

theorem fs_read_reply_lost:
  assumes "authorize ss uid raw False = (path, FSOK)" "ReadFile D path off (replicate 4080 0) k = (Inr (4080, buf), k')"
    and "length rname \<le> 16" "0 \<notin> set rname" "rname \<noteq> []" "length raw < 65536" "4080 \<le> unat cnt"
  shows "\<exists>rep. fs_dispatch (kfs_store D) (read_request uid sq rname raw off cnt) (ss, k) = (Reply rep rname, ss, k') \<and>
    length rep = 4110 \<and> MaxMsg < length rep"
proof -
  have "min (unat cnt) 4080 = 4080" using assms(7) by simp
  moreover have "length buf = 4080" using ReadFile_bounded [OF assms(2)] by simp
  ultimately show ?thesis
    unfolding read_request_dispatch [OF assms(3-6)] using assms(1,2) by (simp add: kfs_store_def)
qed

lemma authorize_tmp: "authorize ss 1000 (str ''/tmp/a'') False = (str ''/tmp/a'', FSOK)"
  by (cases "ss 1000")
     (simp_all add: authorize_def gateAbsolute_def hasDotDot_def HasPrefix_def TrimPrefix_def str_def before_slash_def)

lemma ex_rname: "length (str ''r'') \<le> 16" "0 \<notin> set (str ''r'')" "str ''r'' \<noteq> []" "length (str ''/tmp/a'') < 65536"
  by (simp_all add: str_def)

theorem fs_read_reply_lost_witness:
  "\<exists>k rep k'. kfs_reach mem_dev disk16 k \<and>
     fs_dispatch (kfs_store mem_dev) (read_request 1000 9 (str ''r'') (str ''/tmp/a'') 0 4096) (ex_sessions, k) =
       (Reply rep (str ''r''), ex_sessions, k') \<and> length rep > MaxMsg"
proof -
  obtain k buf k' where "kfs_reach mem_dev disk16 k"
    "ReadFile mem_dev (str ''/tmp/a'') 0 (replicate 4080 0) k = (Inr (4080, buf), k')" by (rule run_big)
  with fs_read_reply_lost [OF authorize_tmp this(2) ex_rname, of 4096] show ?thesis by fastforce
qed

theorem fs_reply_bounds_witness:
  "\<exists>k rep k'. kfs_reach mem_dev disk16 k \<and>
     fs_dispatch (kfs_store mem_dev) (read_request 1000 9 (str ''r'') (str ''/tmp/a'') 0 4096) (ex_sessions, k) =
       (Reply rep (str ''r''), ex_sessions, k') \<and> length rep \<le> 4110"
proof -
  obtain k buf k' where k: "kfs_reach mem_dev disk16 k"
    "ReadFile mem_dev (str ''/tmp/a'') 0 (replicate 4080 0) k = (Inr (4080, buf), k')" by (rule run_big)
  obtain rep where "fs_dispatch (kfs_store mem_dev) (read_request 1000 9 (str ''r'') (str ''/tmp/a'') 0 4096) (ex_sessions, k) =
       (Reply rep (str ''r''), ex_sessions, k')"
    unfolding read_request_dispatch [OF ex_rname] using k(2) authorize_tmp by (simp add: kfs_store_def)
  with fs_reply_bounds [OF this] k(1) show ?thesis
    unfolding read_request_def ParseHeader_FrameCanonical [OF ex_rname(1,2)] by fastforce
qed

end
