(* ===== verification/Fs_Block.thy ===== *)
theory Fs_Block
  imports Kfs_Device
begin

text \<open>
  The block transport of the file service (\<^verbatim>\<open>services/fs/block.go\<close>): a window of memory shared by the
  guest and the backend, with a request mailbox, a completion slot and a data area, the guest's side
  \<^verbatim>\<open>BlockWindow\<close> and the backend \<^verbatim>\<open>RamDisk\<close>.  The state holds both sides; the guest polls,
  and each poll gives the backend a turn first.  A poll that never sees its completion is the result None.
\<close>

section \<open>The window\<close>

abbreviation (input) bwMagic :: u32 where "bwMagic \<equiv> 0x574B4C42"
abbreviation (input) bwBlkSize :: u32 where "bwBlkSize \<equiv> 512"
abbreviation (input) bwMaxSectors :: u32 where "bwMaxSectors \<equiv> 8"
abbreviation (input) bwDataOff :: nat where "bwDataOff \<equiv> 0x1000"
abbreviation (input) bwWindowMin :: nat where "bwWindowMin \<equiv> 0x2000"
abbreviation (input) bwOpRead :: u64 where "bwOpRead \<equiv> 1"
abbreviation (input) bwOpWrite :: u64 where "bwOpWrite \<equiv> 2"

record BlockWindow =
  bw_mem :: bytes
  bw_req :: u32
  rd_Disk :: bytes
  rd_served :: u32

definition NewBlockWindow :: "bytes \<Rightarrow> bytes \<Rightarrow> ferr + BlockWindow" where
  "NewBlockWindow mem disk =
     (if length mem < bwWindowMin then Inl ErrBlockWindow
      else if Get32 mem \<noteq> bwMagic \<or> Get32 (drop 4 mem) \<noteq> bwBlkSize then Inl ErrBlockWindow
      else Inr \<lparr>bw_mem = mem, bw_req = Get32 (drop 0x10 mem), rd_Disk = disk, rd_served = 0\<rparr>)"

definition NewRamDisk :: "nat \<Rightarrow> ferr + BlockWindow" where
  "NewRamDisk numBlocks =
     (let mem = replicate bwWindowMin 0;
          mem = Put32 mem 0 bwMagic;
          mem = Put32 mem 4 bwBlkSize;
          mem = Put64 mem 8 (of_nat numBlocks)
      in NewBlockWindow mem (replicate (numBlocks * 512) 0))"

definition bw_Geometry :: "BlockWindow \<Rightarrow> u32 \<times> u64" where
  "bw_Geometry w = (Get32 (drop 4 (bw_mem w)), Get64 (drop 8 (bw_mem w)))"

section \<open>The backend\<close>

text \<open>
  One turn of \<^verbatim>\<open>serveWindow\<close>: nothing when no request is new; else the transfer, with the bounds Go
  checks (signed 64-bit arithmetic), and the completion.
\<close>

definition serve_turn :: "BlockWindow \<Rightarrow> ferr + BlockWindow" where
  "serve_turn w =
     (let mem = bw_mem w; nxt = Get32 (drop 0x10 mem)
      in if nxt = rd_served w then Inr w
         else
           let op = Get64 (drop 0x18 mem); lba = Get64 (drop 0x20 mem);
               count = Get32 (drop 0x28 mem); off = Get64 (drop 0x30 mem);
               n = (ucast count :: u64) * 512;
               mlo = sint off; mhi = sint (off + n);
               dlo = sint (lba * 512); dhi = sint ((lba + ucast count) * 512);
               done = (\<lambda>st m. Put32 (Put32 m 0x38 nxt) 0x3c st)
           in if op = bwOpRead \<or> op = bwOpWrite
              then
                if \<not> (0 \<le> mlo \<and> mlo \<le> mhi \<and> mhi \<le> int (length mem) \<and> 0 \<le> dlo \<and> dlo \<le> dhi \<and> dhi \<le> int (length (rd_Disk w)))
                then Inl GoPanic
                else if op = bwOpRead
                then Inr (w\<lparr>bw_mem := done 0 (go_copy mem (nat mlo)
                            (take (nat (mhi - mlo)) (window (nat dlo) (nat (dhi - dlo)) (rd_Disk w)))), rd_served := nxt\<rparr>)
                else Inr (w\<lparr>bw_mem := done 0 mem, rd_Disk := go_copy (rd_Disk w) (nat dlo)
                            (take (nat (dhi - dlo)) (window (nat mlo) (nat (mhi - mlo)) mem)), rd_served := nxt\<rparr>)
              else Inr (w\<lparr>bw_mem := done (- 1) mem, rd_served := nxt\<rparr>))"

section \<open>The guest\<close>

partial_function (option) bw_poll :: "BlockWindow \<Rightarrow> ((ferr + u32) \<times> BlockWindow) option" where
  "bw_poll w =
     (case serve_turn w of
        Inl e \<Rightarrow> Some (Inl e, w)
      | Inr w \<Rightarrow>
          if Get32 (drop 0x38 (bw_mem w)) = bw_req w then Some (Inr (Get32 (drop 0x3c (bw_mem w))), w)
          else bw_poll w)"

definition Request :: "u64 \<Rightarrow> u64 \<Rightarrow> u32 \<Rightarrow> BlockWindow \<Rightarrow> ((ferr + u32) \<times> BlockWindow) option" where
  "Request op lba count w =
     (if count = 0 \<or> count > bwMaxSectors then Some (Inl ErrSectorCount, w)
      else if lba + ucast count > Get64 (drop 8 (bw_mem w)) then Some (Inl ErrLbaRange, w)
      else
        let m = bw_mem w;
            m = Put64 m 0x18 op;
            m = Put64 m 0x20 lba;
            m = Put32 m 0x28 count;
            m = Put64 m 0x30 (of_nat bwDataOff);
            nxt = Get32 (drop 0x10 m) + 1;
            m = Put32 m 0x10 nxt
        in bw_poll (w\<lparr>bw_mem := m, bw_req := nxt\<rparr>))"

text \<open>
  The loops of \<^verbatim>\<open>Read\<close> and \<^verbatim>\<open>Write\<close>, in at most eight sectors at a time; counters are 32 bits wide.  A block
  size of zero is a division by zero.
\<close>

partial_function (option) bw_read_loop :: "u32 \<Rightarrow> u64 \<Rightarrow> u32 \<Rightarrow> bytes \<Rightarrow> BlockWindow \<Rightarrow> ((ferr + bytes) \<times> BlockWindow) option" where
  "bw_read_loop bs lba k buf w =
     (if k < of_nat (length buf)
      then if bs = 0 then Some (Inl GoPanic, w)
      else
        let count = of_nat (length buf) - k;
            sectors = (count + bs - 1) div bs;
            sectors = (if sectors > bwMaxSectors then bwMaxSectors else sectors)
        in case Request bwOpRead (lba + ucast (k div bs)) sectors w of
             None \<Rightarrow> None
           | Some (Inl e, w) \<Rightarrow> Some (Inl e, w)
           | Some (Inr st, w) \<Rightarrow>
               if sint st < 0 then Some (Inl ErrBlockRead, w)
               else let n = sectors * bs
                    in if bwDataOff + unat n > length (bw_mem w) then Some (Inl GoPanic, w)
                       else bw_read_loop bs lba (k + n) (go_copy buf (unat k) (window bwDataOff (unat n) (bw_mem w))) w
      else Some (Inr buf, w))"

partial_function (option) bw_write_loop :: "u32 \<Rightarrow> u64 \<Rightarrow> u32 \<Rightarrow> bytes \<Rightarrow> BlockWindow \<Rightarrow> ((ferr + unit) \<times> BlockWindow) option" where
  "bw_write_loop bs lba k buf w =
     (if k < of_nat (length buf)
      then
        let chunk = of_nat (length buf) - k;
            chunk = (if chunk > bwMaxSectors * bs then bwMaxSectors * bs else chunk)
        in if bwDataOff + unat chunk > length (bw_mem w) \<or> bs = 0 then Some (Inl GoPanic, w)
           else
             let w = w\<lparr>bw_mem := go_copy (bw_mem w) bwDataOff (take (unat chunk) (drop (unat k) buf))\<rparr>
             in case Request bwOpWrite (lba + ucast (k div bs)) (chunk div bs) w of
                  None \<Rightarrow> None
                | Some (Inl e, w) \<Rightarrow> Some (Inl e, w)
                | Some (Inr st, w) \<Rightarrow>
                    if sint st < 0 then Some (Inl ErrBlockWrite, w)
                    else bw_write_loop bs lba (k + chunk) buf w
      else Some (Inr (), w))"

definition bw_Read :: "BlockWindow \<Rightarrow> u64 \<Rightarrow> bytes \<Rightarrow> ((ferr + bytes) \<times> BlockWindow) option" where
  "bw_Read w lba buf = bw_read_loop (fst (bw_Geometry w)) lba 0 buf w"

definition bw_Write :: "BlockWindow \<Rightarrow> u64 \<Rightarrow> bytes \<Rightarrow> ((ferr + unit) \<times> BlockWindow) option" where
  "bw_Write w lba buf =
     (let bs = fst (bw_Geometry w)
      in if bs = 0 then Some (Inl GoPanic, w)
         else if length buf mod unat bs \<noteq> 0 then Some (Inl ErrNotAligned, w)
         else bw_write_loop bs lba 0 buf w)"

section \<open>Fields of the window\<close>

lemmas field_simps' = Put32_def Put64_def Get_copy_other Get_put_same

section \<open>A well-formed window\<close>

definition win_ok :: "BlockWindow \<Rightarrow> bool" where
  "win_ok w \<longleftrightarrow> length (bw_mem w) = bwWindowMin \<and> Get32 (drop 4 (bw_mem w)) = 512 \<and>
     Get64 (drop 8 (bw_mem w)) = of_nat (length (rd_Disk w) div 512) \<and>
     512 dvd length (rd_Disk w) \<and> length (rd_Disk w) < 2 ^ 32 \<and> Get32 (drop 0x10 (bw_mem w)) = rd_served w"

definition posted :: "u64 \<Rightarrow> u64 \<Rightarrow> u32 \<Rightarrow> BlockWindow \<Rightarrow> BlockWindow" where
  "posted op lba count w =
     (let m = Put64 (Put32 (Put64 (Put64 (bw_mem w) 0x18 op) 0x20 lba) 0x28 count) 0x30 (of_nat bwDataOff)
      in w\<lparr>bw_mem := Put32 m 0x10 (rd_served w + 1), bw_req := rd_served w + 1\<rparr>)"

lemma posted_fields:
  fixes op lba :: u64 and count :: u32
  assumes "win_ok w"
  defines "m \<equiv> bw_mem (posted op lba count w)"
  shows "length m = bwWindowMin" "Get32 (drop 4 m) = 512" "Get64 (drop 8 m) = of_nat (length (rd_Disk w) div 512)"
    "Get32 (drop 0x10 m) = rd_served w + 1" "Get64 (drop 0x18 m) = op" "Get64 (drop 0x20 m) = lba"
    "Get32 (drop 0x28 m) = count" "Get64 (drop 0x30 m) = 0x1000"
    "bw_req (posted op lba count w) = rd_served w + 1" "rd_Disk (posted op lba count w) = rd_Disk w"
    "rd_served (posted op lba count w) = rd_served w" "window bwDataOff n m = window bwDataOff n (bw_mem w)"
proof -
  have l: "length (bw_mem w) = 0x2000" using assms(1) by (simp add: win_ok_def)
  show "length m = bwWindowMin" "Get32 (drop 4 m) = 512" "Get64 (drop 8 m) = of_nat (length (rd_Disk w) div 512)"
    "Get32 (drop 0x10 m) = rd_served w + 1" "Get64 (drop 0x18 m) = op" "Get64 (drop 0x20 m) = lba"
    "Get32 (drop 0x28 m) = count" "Get64 (drop 0x30 m) = 0x1000"
    "bw_req (posted op lba count w) = rd_served w + 1" "rd_Disk (posted op lba count w) = rd_Disk w"
    "rd_served (posted op lba count w) = rd_served w"
    using assms(1) by (simp_all add: m_def posted_def Let_def win_ok_def field_simps')
  have d: "drop bwDataOff (go_copy a p x) = drop bwDataOff a" if "p + length x \<le> bwDataOff" "p + length x \<le> length a" for a p and x :: bytes
    using that by (simp add: go_copy_def)
  show "window bwDataOff n m = window bwDataOff n (bw_mem w)"
    by (simp add: window_def m_def posted_def Let_def Put32_def Put64_def d l)
qed

text \<open>The request arithmetic stays small: sectors of a disk below 4 GiB.\<close>

lemma request_bounds:
  fixes lba :: u64 and count :: u32
  assumes "unat lba + unat count \<le> d div 512" "512 dvd d" "d < 2 ^ 32" "unat count \<le> 8"
  shows "sint (lba * 512) = int (unat lba * 512)" "sint ((lba + ucast count) * 512) = int ((unat lba + unat count) * 512)"
    "sint (0x1000 + (ucast count :: u64) * 512) = int (0x1000 + unat count * 512)" "sint (0x1000 :: u64) = 0x1000"
    "unat (lba + ucast count) = unat lba + unat count"
proof -
  have d: "(unat lba + unat count) * 512 \<le> d" using assms(1,2) by (metis dvd_div_mult_self mult_le_mono1)
  have c: "unat (ucast count :: u64) = unat count" using assms(4) by (simp add: unsigned_ucast_eq take_bit_nat_eq_self)
  show s: "unat (lba + ucast count) = unat lba + unat count"
    using d assms(3) by (simp add: unat_word_ariths c)
  have l: "unat (lba * 512) = unat lba * 512" using d assms(3) by (simp add: unat_word_ariths)
  have h: "unat ((lba + ucast count) * 512) = (unat lba + unat count) * 512"
    using d assms(3) by (simp only: unat_word_ariths(2) s) simp
  have n: "unat (0x1000 + (ucast count :: u64) * 512) = 0x1000 + unat count * 512"
    using assms(4) by (simp add: unat_word_ariths c)
  show "sint (lba * 512) = int (unat lba * 512)" using d assms(3) l by (subst sint_small) simp_all
  show "sint ((lba + ucast count) * 512) = int ((unat lba + unat count) * 512)"
    using d assms(3) h by (subst sint_small) simp_all
  show "sint (0x1000 + (ucast count :: u64) * 512) = int (0x1000 + unat count * 512)"
    using assms(4) n by (subst sint_small) simp_all
  show "sint (0x1000 :: u64) = 0x1000" by simp
qed

section \<open>One request\<close>

lemma Request_posted:
  assumes "win_ok w" "0 < count" "count \<le> 8" "unat lba + unat count \<le> length (rd_Disk w) div 512"
  shows "Request op lba count w = bw_poll (posted op lba count w)"
proof -
  have c: "unat count \<le> 8" using assms(3) by (simp add: word_le_nat_alt)
  have d: "512 dvd length (rd_Disk w)" "length (rd_Disk w) < 2 ^ 32" and g: "Get64 (drop 8 (bw_mem w)) = of_nat (length (rd_Disk w) div 512)"
    and l: "length (bw_mem w) = 0x2000" and r: "Get32 (drop 0x10 (bw_mem w)) = rd_served w"
    using assms(1) by (simp_all add: win_ok_def)
  have "unat (of_nat (length (rd_Disk w) div 512) :: u64) = length (rd_Disk w) div 512"
    using d(2) by (simp add: unat_of_nat take_bit_nat_eq_self)
  then have "\<not> lba + ucast count > Get64 (drop 8 (bw_mem w))"
    using request_bounds(5) [OF assms(4) d c] assms(4) by (simp add: word_less_nat_alt g)
  moreover have "count \<noteq> 0" "\<not> count > 8" using assms(2,3) by auto
  moreover have "Get32 (drop 0x10 (Put64 (Put32 (Put64 (Put64 (bw_mem w) 0x18 op) 0x20 lba) 0x28 count) 0x30 (of_nat bwDataOff))) = rd_served w"
    using l r by (simp add: field_simps')
  ultimately show ?thesis unfolding Request_def posted_def Let_def by simp
qed

lemma done_fields:
  fixes nxt st :: u32
  assumes "length m = bwWindowMin"
  defines "m' \<equiv> Put32 (Put32 m 0x38 nxt) 0x3c st"
  shows "length m' = bwWindowMin" "Get32 (drop 4 m') = Get32 (drop 4 m)" "Get64 (drop 8 m') = Get64 (drop 8 m)"
    "Get32 (drop 0x10 m') = Get32 (drop 0x10 m)" "Get32 (drop 0x38 m') = nxt" "Get32 (drop 0x3c m') = st"
    "n \<le> 4096 \<Longrightarrow> window bwDataOff n m' = window bwDataOff n m"
  using assms(1) by (simp_all add: m'_def field_simps' window_go_copy_other)

lemma Request_read:
  assumes "win_ok w" "0 < count" "count \<le> 8" "unat lba + unat count \<le> length (rd_Disk w) div 512"
  obtains w' where "Request bwOpRead lba count w = Some (Inr 0, w')" "win_ok w'" "rd_Disk w' = rd_Disk w"
    "window bwDataOff (unat count * 512) (bw_mem w') = window (unat lba * 512) (unat count * 512) (rd_Disk w)"
proof -
  let ?p = "posted bwOpRead lba count w" and ?n = "unat count * 512"
  let ?d = "window (unat lba * 512) ?n (rd_Disk w)"
  let ?m = "go_copy (bw_mem ?p) bwDataOff ?d"
  let ?w = "?p\<lparr>bw_mem := Put32 (Put32 ?m 0x38 (rd_served w + 1)) 0x3c 0, rd_served := rd_served w + 1\<rparr>"
  have c: "unat count \<le> 8" using assms(3) by (simp add: word_le_nat_alt)
  have d: "512 dvd length (rd_Disk w)" "length (rd_Disk w) < 2 ^ 32" using assms(1) by (simp_all add: win_ok_def)
  note b = request_bounds [OF assms(4) d c] and f = posted_fields [where op = bwOpRead and lba = lba and count = count, OF assms(1)]
  have fit: "(unat lba + unat count) * 512 \<le> length (rd_Disk w)" using assms(4) d(1) by (metis dvd_div_mult_self mult_le_mono1)
  have ld: "length ?d = ?n" using fit by simp
  have lm: "length ?m = bwWindowMin" using f(1) by simp
  have e: "nat (int ((a + c) * 512) - int (a * 512)) = c * 512" "nat (int (0x1000 + c) - 0x1000) = c" for a c :: nat
    by (simp_all add: algebra_simps)
  have "serve_turn ?p = Inr ?w"
    using fit c ld by (simp add: serve_turn_def f b e Let_def del: of_nat_add of_nat_mult distrib_right_numeral)
  moreover have m: "length (bw_mem ?w) = bwWindowMin" "Get32 (drop 4 (bw_mem ?w)) = 512"
    "Get64 (drop 8 (bw_mem ?w)) = of_nat (length (rd_Disk w) div 512)" "Get32 (drop 0x10 (bw_mem ?w)) = rd_served w + 1"
    "Get32 (drop 0x38 (bw_mem ?w)) = rd_served w + 1" "Get32 (drop 0x3c (bw_mem ?w)) = 0"
    using done_fields [OF lm] f c ld by (simp_all add: Get_copy_other)
  ultimately have "bw_poll ?p = Some (Inr 0, ?w)" by (subst bw_poll.simps) (simp add: f)
  moreover have "window bwDataOff ?n (bw_mem ?w) = ?d"
    using done_fields(7) [OF lm, of ?n] c ld f(1) window_go_copy [of bwDataOff ?d "bw_mem ?p"] by (simp add: window_def)
  moreover have "win_ok ?w" using m d f by (simp add: win_ok_def)
  ultimately show ?thesis using that [of ?w] Request_posted [OF assms] f(10) by simp
qed

lemma Request_write:
  assumes "win_ok w" "0 < count" "count \<le> 8" "unat lba + unat count \<le> length (rd_Disk w) div 512"
  obtains w' where "Request bwOpWrite lba count w = Some (Inr 0, w')" "win_ok w'"
    "rd_Disk w' = go_copy (rd_Disk w) (unat lba * 512) (window bwDataOff (unat count * 512) (bw_mem w))"
proof -
  let ?p = "posted bwOpWrite lba count w" and ?n = "unat count * 512"
  let ?d = "window bwDataOff ?n (bw_mem w)"
  let ?w = "?p\<lparr>bw_mem := Put32 (Put32 (bw_mem ?p) 0x38 (rd_served w + 1)) 0x3c 0,
     rd_Disk := go_copy (rd_Disk w) (unat lba * 512) ?d, rd_served := rd_served w + 1\<rparr>"
  have c: "unat count \<le> 8" using assms(3) by (simp add: word_le_nat_alt)
  have d: "512 dvd length (rd_Disk w)" "length (rd_Disk w) < 2 ^ 32" using assms(1) by (simp_all add: win_ok_def)
  note b = request_bounds [OF assms(4) d c] and f = posted_fields [where op = bwOpWrite and lba = lba and count = count, OF assms(1)]
  have fit: "(unat lba + unat count) * 512 \<le> length (rd_Disk w)" using assms(4) d(1) by (metis dvd_div_mult_self mult_le_mono1)
  have e: "nat (int ((a + c) * 512) - int (a * 512)) = c * 512" "nat (int (0x1000 + c) - 0x1000) = c" for a c :: nat
    by (simp_all add: algebra_simps)
  have ld: "length ?d = ?n" using c assms(1) by (simp add: win_ok_def)
  have "serve_turn ?p = Inr ?w"
    using fit c ld by (simp add: serve_turn_def f b e Let_def del: of_nat_add of_nat_mult distrib_right_numeral)
  moreover have m: "length (bw_mem ?w) = bwWindowMin" "Get32 (drop 4 (bw_mem ?w)) = 512"
    "Get64 (drop 8 (bw_mem ?w)) = of_nat (length (rd_Disk w) div 512)" "Get32 (drop 0x10 (bw_mem ?w)) = rd_served w + 1"
    "Get32 (drop 0x38 (bw_mem ?w)) = rd_served w + 1" "Get32 (drop 0x3c (bw_mem ?w)) = 0"
    using done_fields [OF f(1)] f by simp_all
  ultimately have "bw_poll ?p = Some (Inr 0, ?w)" by (subst bw_poll.simps) (simp add: f)
  moreover have "length (go_copy (rd_Disk w) (unat lba * 512) ?d) = length (rd_Disk w)" using fit by simp
  then have "win_ok ?w" using m d f by (simp add: win_ok_def)
  ultimately show ?thesis using that [of ?w] Request_posted [OF assms] by simp
qed

section \<open>Reading and writing\<close>

lemma chunk_words:
  fixes i k :: nat
  assumes "i < k" "512 * k < 2 ^ 32"
  shows "(of_nat (512 * i) :: u32) < of_nat (512 * k)"
    "((of_nat (512 * k) :: u32) - of_nat (512 * i) + 512 - 1) div 512 = of_nat (k - i)"
    "(of_nat (512 * k) :: u32) - of_nat (512 * i) = of_nat (512 * (k - i))"
    "(of_nat (512 * i) :: u32) div 512 = of_nat i" "unat (of_nat (512 * i) :: u32) = 512 * i"
    "unat (of_nat i :: u32) = i" "unat (of_nat (k - i) :: u32) = k - i" "unat (of_nat (512 * (k - i)) :: u32) = 512 * (k - i)"
proof -
  have u: "unat (of_nat n :: u32) = n" if "n < 2 ^ 32" for n using that by (simp add: unat_of_nat take_bit_nat_eq_self)
  have l: "512 * i < 2 ^ 32" "i < 2 ^ 32" "k - i < 2 ^ 32" "512 * (k - i) < 2 ^ 32" "512 * (k - i) + 511 < 2 ^ 32"
    using assms by simp_all
  show s: "unat (of_nat (512 * i) :: u32) = 512 * i" "unat (of_nat i :: u32) = i" "unat (of_nat (k - i) :: u32) = k - i"
    "unat (of_nat (512 * (k - i)) :: u32) = 512 * (k - i)"
    by (rule u [OF l(1)], rule u [OF l(2)], rule u [OF l(3)], rule u [OF l(4)])
  have sk: "unat (of_nat (512 * k) :: u32) = 512 * k" by (rule u [OF assms(2)])
  show "(of_nat (512 * i) :: u32) < of_nat (512 * k)" using assms(1) by (simp only: word_less_nat_alt s sk)
  show d: "(of_nat (512 * k) :: u32) - of_nat (512 * i) = of_nat (512 * (k - i))"
  proof -
    have "512 * k = 512 * (k - i) + 512 * i" using assms(1) by simp
    then show ?thesis by (metis of_nat_add add_diff_cancel_right')
  qed
  show "(of_nat (512 * i) :: u32) div 512 = of_nat i"
    using s by (simp add: word_unat_eq_iff unat_div_distrib)
  have "(of_nat (512 * (k - i)) :: u32) + 512 - 1 = of_nat (512 * (k - i) + 511)" by simp
  moreover have "unat (of_nat (512 * (k - i) + 511) :: u32) = 512 * (k - i) + 511" by (rule u [OF l(5)])
  ultimately show "((of_nat (512 * k) :: u32) - of_nat (512 * i) + 512 - 1) div 512 = of_nat (k - i)"
    unfolding d by (simp only: word_unat_eq_iff unat_div_distrib s) simp
qed

lemma sector_lba:
  assumes "unat (lba :: u64) + k \<le> n" "i < k" "n < 2 ^ 32"
  shows "unat (lba + ucast (of_nat i :: u32)) = unat lba + i"
proof -
  have "unat (of_nat i :: u32) = i" using assms by (simp add: unat_of_nat take_bit_nat_eq_self)
  then have "unat (ucast (of_nat i :: u32) :: u64) = i" using assms by (simp add: unsigned_ucast_eq take_bit_nat_eq_self)
  then show ?thesis using assms by (simp add: unat_word_ariths)
qed

text \<open>One chunk is \<^term>\<open>min 8 (k - i)\<close> sectors.\<close>

lemma chunk_count:
  assumes "i < (k :: nat)" "512 * k < 2 ^ 32"
  shows "(if (of_nat (k - i) :: u32) > bwMaxSectors then bwMaxSectors else of_nat (k - i)) = of_nat (min 8 (k - i))"
    "0 < (of_nat (min 8 (k - i)) :: u32)" "(of_nat (min 8 (k - i)) :: u32) \<le> 8" "unat (of_nat (min 8 (k - i)) :: u32) = min 8 (k - i)"
    "(of_nat (512 * i) :: u32) + of_nat (min 8 (k - i)) * 512 = of_nat (512 * (i + min 8 (k - i)))"
    "unat ((of_nat (min 8 (k - i)) :: u32) * 512) = min 8 (k - i) * 512"
proof -
  show u: "unat (of_nat (min 8 (k - i)) :: u32) = min 8 (k - i)" by (simp add: unat_of_nat take_bit_nat_eq_self min_def)
  note s = chunk_words(7) [OF assms]
  show "(if (of_nat (k - i) :: u32) > bwMaxSectors then bwMaxSectors else of_nat (k - i)) = of_nat (min 8 (k - i))"
    using s by (simp add: word_less_nat_alt min_def)
  show "0 < (of_nat (min 8 (k - i)) :: u32)" "(of_nat (min 8 (k - i)) :: u32) \<le> 8"
    using assms(1) by (simp_all only: word_less_nat_alt word_le_nat_alt u) simp_all
  show "(of_nat (512 * i) :: u32) + of_nat (min 8 (k - i)) * 512 = of_nat (512 * (i + min 8 (k - i)))"
    by (simp add: algebra_simps)
  show "unat ((of_nat (min 8 (k - i)) :: u32) * 512) = min 8 (k - i) * 512"
    by (simp only: unat_word_ariths(2) u) (simp add: min_def)
qed

lemma read_loop:
  assumes "win_ok w" "length buf = 512 * k" "i \<le> k" "unat lba + k \<le> length (rd_Disk w) div 512"
  shows "\<exists>w'. bw_read_loop 512 lba (of_nat (512 * i)) buf w =
      Some (Inr (take (512 * i) buf @ window ((unat lba + i) * 512) (512 * (k - i)) (rd_Disk w)), w') \<and>
    win_ok w' \<and> rd_Disk w' = rd_Disk w"
  using assms
proof (induction "k - i" arbitrary: i buf w rule: less_induct)
  case less
  have d: "512 dvd length (rd_Disk w)" "length (rd_Disk w) < 2 ^ 32" using less.prems(1) by (simp_all add: win_ok_def)
  then have fit: "(unat lba + k) * 512 \<le> length (rd_Disk w)" using less.prems(4) by (metis dvd_div_mult_self mult_le_mono1)
  then have k: "512 * k < 2 ^ 32" using d(2) by (simp add: algebra_simps)
  show ?case
  proof (cases "i < k")
    case False
    then have "i = k" using less.prems(3) by simp
    then show ?thesis using less.prems(1,2) by (subst bw_read_loop.simps) simp
  next
    case True
    let ?j = "min 8 (k - i)" and ?l = "lba + ucast (of_nat i :: u32)"
    note c = chunk_words [OF True k] and cc = chunk_count [OF True k]
    have l: "unat ?l = unat lba + i" using sector_lba [OF less.prems(4) True] d(2) by simp
    have "unat ?l + unat (of_nat ?j :: u32) \<le> length (rd_Disk w) div 512" using less.prems(4) True unfolding l cc(4) by simp
    from Request_read [OF less.prems(1) cc(2,3) this] obtain w' where w': "Request bwOpRead ?l (of_nat ?j) w = Some (Inr 0, w')"
      "win_ok w'" "rd_Disk w' = rd_Disk w" "window bwDataOff (?j * 512) (bw_mem w') = window ((unat lba + i) * 512) (?j * 512) (rd_Disk w)"
      unfolding l cc(4) .
    let ?buf = "go_copy buf (512 * i) (window ((unat lba + i) * 512) (?j * 512) (rd_Disk w))"
    have lw: "length (bw_mem w') = 0x2000" using w'(2) by (simp add: win_ok_def)
    have step: "bw_read_loop 512 lba (of_nat (512 * i)) buf w = bw_read_loop 512 lba (of_nat (512 * (i + ?j))) ?buf w'"
      by (subst bw_read_loop.simps) (simp only: less.prems(2) c(1,2,4,5) cc Let_def w'(1,4) lw option.case prod.case sum.case if_True, simp)
    have lb: "length ?buf = 512 * k" using less.prems(2,3) by simp
    have "k - (i + ?j) < k - i" "i + ?j \<le> k" using True by auto
    from less.hyps [OF this(1) w'(2) lb this(2)] less.prems(4) obtain w2 where
      w2: "bw_read_loop 512 lba (of_nat (512 * (i + ?j))) ?buf w' =
        Some (Inr (take (512 * (i + ?j)) ?buf @ window ((unat lba + (i + ?j)) * 512) (512 * (k - (i + ?j))) (rd_Disk w)), w2)"
        "win_ok w2" "rd_Disk w2 = rd_Disk w" by (auto simp: w'(3))
    have lr: "length (window ((unat lba + i) * 512) (?j * 512) (rd_Disk w)) = ?j * 512" using fit True by (intro length_window) auto
    have "512 * i + ?j * 512 \<le> length buf" using less.prems(2) True by auto
    then have "take (512 * (i + ?j)) ?buf = take (512 * i) buf @ window ((unat lba + i) * 512) (?j * 512) (rd_Disk w)"
      using lr by (simp add: go_copy_exact algebra_simps)
    moreover have "window ((unat lba + i) * 512) (512 * (k - i)) (rd_Disk w) = window ((unat lba + i) * 512) (?j * 512) (rd_Disk w) @
        window ((unat lba + (i + ?j)) * 512) (512 * (k - (i + ?j))) (rd_Disk w)"
    proof -
      have "512 * (k - i) = ?j * 512 + 512 * (k - (i + ?j))" by auto
      then show ?thesis by (simp add: window_append_split algebra_simps)
    qed
    ultimately show ?thesis using step w2 by simp
  qed
qed

lemma chunk_bytes:
  assumes "i < (k :: nat)" "512 * k < 2 ^ 32"
  shows "(if (of_nat (512 * (k - i)) :: u32) > bwMaxSectors * 512 then bwMaxSectors * 512 else of_nat (512 * (k - i))) =
      of_nat (512 * min 8 (k - i))"
    "(of_nat (512 * min 8 (k - i)) :: u32) div 512 = of_nat (min 8 (k - i))"
    "unat (of_nat (512 * min 8 (k - i)) :: u32) = 512 * min 8 (k - i)"
    "(of_nat (512 * i) :: u32) + of_nat (512 * min 8 (k - i)) = of_nat (512 * (i + min 8 (k - i)))"
proof -
  have u: "unat (of_nat n :: u32) = n" if "n < 2 ^ 32" for n using that by (simp add: unat_of_nat take_bit_nat_eq_self)
  show b: "unat (of_nat (512 * min 8 (k - i)) :: u32) = 512 * min 8 (k - i)" by (rule u) (simp add: min_def)
  show "(if (of_nat (512 * (k - i)) :: u32) > bwMaxSectors * 512 then bwMaxSectors * 512 else of_nat (512 * (k - i))) =
      of_nat (512 * min 8 (k - i))"
    using chunk_words(8) [OF assms] by (simp only: word_less_nat_alt) (simp add: min_def)
  show "(of_nat (512 * min 8 (k - i)) :: u32) div 512 = of_nat (min 8 (k - i))"
    by (simp only: word_unat_eq_iff unat_div_distrib b chunk_count(4) [OF assms]) simp
  show "(of_nat (512 * i) :: u32) + of_nat (512 * min 8 (k - i)) = of_nat (512 * (i + min 8 (k - i)))"
    by (simp add: algebra_simps)
qed

lemma staged_ok:
  assumes "win_ok w" "length x \<le> 4096"
  shows "win_ok (w\<lparr>bw_mem := go_copy (bw_mem w) bwDataOff x\<rparr>)"
    "window bwDataOff (length x) (go_copy (bw_mem w) bwDataOff x) = x"
  using assms window_go_copy [of bwDataOff x "bw_mem w"] by (simp_all add: win_ok_def Get_copy_other window_def)

lemma write_loop:
  assumes "win_ok w" "length buf = 512 * k" "i \<le> k" "unat lba + k \<le> length (rd_Disk w) div 512"
  shows "\<exists>w'. bw_write_loop 512 lba (of_nat (512 * i)) buf w = Some (Inr (), w') \<and> win_ok w' \<and>
    rd_Disk w' = go_copy (rd_Disk w) ((unat lba + i) * 512) (drop (512 * i) buf)"
  using assms
proof (induction "k - i" arbitrary: i w rule: less_induct)
  case less
  have d: "512 dvd length (rd_Disk w)" "length (rd_Disk w) < 2 ^ 32" using less.prems(1) by (simp_all add: win_ok_def)
  then have fit: "(unat lba + k) * 512 \<le> length (rd_Disk w)" using less.prems(4) by (metis dvd_div_mult_self mult_le_mono1)
  then have k: "512 * k < 2 ^ 32" using d(2) by (simp add: algebra_simps)
  show ?case
  proof (cases "i < k")
    case False
    then have "i = k" using less.prems(3) by simp
    then show ?thesis using less.prems(1,2) by (subst bw_write_loop.simps) simp
  next
    case True
    let ?j = "min 8 (k - i)" and ?l = "lba + ucast (of_nat i :: u32)"
    let ?x = "take (512 * ?j) (drop (512 * i) buf)"
    let ?w = "w\<lparr>bw_mem := go_copy (bw_mem w) bwDataOff ?x\<rparr>"
    note c = chunk_words [OF True k] and cc = chunk_count [OF True k] and cb = chunk_bytes [OF True k]
    have lx: "length ?x = ?j * 512" using less.prems(2) True by auto
    then have "length ?x \<le> 4096" by auto
    note st = staged_ok [OF less.prems(1) this]
    have l: "unat ?l = unat lba + i" using sector_lba [OF less.prems(4) True] d(2) by simp
    have "unat ?l + unat (of_nat ?j :: u32) \<le> length (rd_Disk ?w) div 512" using less.prems(4) True unfolding l cc(4) by simp
    from Request_write [OF st(1) cc(2,3) this] obtain w' where w': "Request bwOpWrite ?l (of_nat ?j) ?w = Some (Inr 0, w')"
      "win_ok w'" "rd_Disk w' = go_copy (rd_Disk ?w) ((unat lba + i) * 512) (window bwDataOff (?j * 512) (bw_mem ?w))"
      unfolding l cc(4) .
    then have dk: "rd_Disk w' = go_copy (rd_Disk w) ((unat lba + i) * 512) ?x" using st(2) lx by simp
    have lw: "length (bw_mem w) = 0x2000" using less.prems(1) by (simp add: win_ok_def)
    have j4: "\<not> 4096 + 512 * ?j > 0x2000" by simp
    have step: "bw_write_loop 512 lba (of_nat (512 * i)) buf w = bw_write_loop 512 lba (of_nat (512 * (i + ?j))) buf w'"
      by (subst bw_write_loop.simps)
         (simp only: less.prems(2) c(1,3,4,5) cb Let_def lw j4 w'(1) option.case prod.case sum.case if_True, simp)
    have dl: "length (rd_Disk w') = length (rd_Disk w)" using fit True by (simp add: dk algebra_simps)
    have "k - (i + ?j) < k - i" "i + ?j \<le> k" using True by auto
    from less.hyps [OF this(1) w'(2) less.prems(2) this(2)] less.prems(4) dl obtain w2 where
      w2: "bw_write_loop 512 lba (of_nat (512 * (i + ?j))) buf w' = Some (Inr (), w2)" "win_ok w2"
        "rd_Disk w2 = go_copy (rd_Disk w') ((unat lba + (i + ?j)) * 512) (drop (512 * (i + ?j)) buf)" by auto
    have "drop (512 * i) buf = ?x @ drop (512 * (i + ?j)) buf"
      using append_take_drop_id [of "512 * ?j" "drop (512 * i) buf"] by (simp add: algebra_simps)
    moreover have "(unat lba + i) * 512 + length ?x + length (drop (512 * (i + ?j)) buf) \<le> length (rd_Disk w)"
      using fit True less.prems(2) unfolding lx by (simp add: algebra_simps)
    ultimately have "rd_Disk w2 = go_copy (rd_Disk w) ((unat lba + i) * 512) (drop (512 * i) buf)"
      using go_copy_append [of "(unat lba + i) * 512" ?x "drop (512 * (i + ?j)) buf" "rd_Disk w"] lx
      unfolding w2(3) dk by (simp add: algebra_simps)
    then show ?thesis using step w2 by simp
  qed
qed

section \<open>The window is a block device\<close>

text \<open>The transport as a device; on a well-formed window a request always completes.\<close>

definition win_dev :: "BlockWindow Device" where
  "win_dev = \<lparr>
     dRead = (\<lambda>w lba buf. case bw_Read w lba buf of None \<Rightarrow> (Inl ErrBlockWindow, w) | Some r \<Rightarrow> r),
     dWrite = (\<lambda>w lba buf. case bw_Write w lba buf of None \<Rightarrow> (Inl ErrBlockWindow, w) | Some r \<Rightarrow> r),
     dGeometry = bw_Geometry\<rparr>"

lemma bw_Read_returns:
  assumes "win_ok w" "length buf = 512 * k" "unat lba + k \<le> length (rd_Disk w) div 512"
  obtains w' where "bw_Read w lba buf = Some (Inr (window (unat lba * 512) (length buf) (rd_Disk w)), w')"
    "win_ok w'" "rd_Disk w' = rd_Disk w"
proof -
  have g: "fst (bw_Geometry w) = 512" using assms(1) by (simp add: bw_Geometry_def win_ok_def)
  from read_loop [OF assms(1,2) le0 assms(3)] show ?thesis using that assms(2) by (auto simp: bw_Read_def g)
qed

lemma bw_Write_returns:
  assumes "win_ok w" "length buf = 512 * k" "unat lba + k \<le> length (rd_Disk w) div 512"
  obtains w' where "bw_Write w lba buf = Some (Inr (), w')" "win_ok w'"
    "rd_Disk w' = go_copy (rd_Disk w) (unat lba * 512) buf"
proof -
  have g: "fst (bw_Geometry w) = 512" using assms(1) by (simp add: bw_Geometry_def win_ok_def)
  from write_loop [OF assms(1,2) le0 assms(3)] show ?thesis using that assms(2) by (auto simp: bw_Write_def g)
qed

lemma sectors_fit:
  assumes "512 dvd d" "l * 512 + 512 * k \<le> d" shows "l + k \<le> d div (512 :: nat)"
  using assms by (simp add: less_eq_div_iff_mult_less_eq algebra_simps)

interpretation win: block_device win_dev win_ok rd_Disk
proof unfold_locales
  fix w and buf :: bytes and k and lba :: u64
  assume a: "win_ok w" "length buf = 512 * k" "0 < k" "unat lba * 512 + length buf \<le> length (rd_Disk w)"
  have f: "unat lba + k \<le> length (rd_Disk w) div 512"
    by (rule sectors_fit) (use a in \<open>simp_all add: win_ok_def\<close>)
  show "\<exists>d'. dRead win_dev w lba buf = (Inr (window (unat lba * 512) (length buf) (rd_Disk w)), d') \<and>
      win_ok d' \<and> rd_Disk d' = rd_Disk w"
    by (rule bw_Read_returns [OF a(1,2) f]) (simp add: win_dev_def)
  show "\<exists>d'. dWrite win_dev w lba buf = (Inr (), d') \<and> win_ok d' \<and> rd_Disk d' = go_copy (rd_Disk w) (unat lba * 512) buf"
    by (rule bw_Write_returns [OF a(1,2) f]) (simp add: win_dev_def)
qed (simp_all add: win_ok_def win_dev_def bw_Geometry_def)

lemma NewRamDisk_ok:
  assumes "n * 512 < 2 ^ 32"
  obtains w where "NewRamDisk n = Inr w" "win_ok w" "rd_Disk w = replicate (n * 512) 0"
proof -
  let ?m = "Put64 (Put32 (Put32 (replicate bwWindowMin 0) 0 bwMagic) 4 bwBlkSize) 8 (of_nat n)"
  have f: "length ?m = bwWindowMin" "Get32 ?m = bwMagic" "Get32 (drop 4 ?m) = 512" "Get64 (drop 8 ?m) = of_nat n"
    "Get32 (drop 0x10 ?m) = 0"
    using Get_copy_other(1) [of _ _ _ 0] Get_put_same(1) [of 0 "replicate bwWindowMin 0" bwMagic]
    by (simp_all add: field_simps') (simp add: Get32_def)
  show ?thesis
    by (rule that [of "\<lparr>bw_mem = ?m, bw_req = 0, rd_Disk = replicate (n * 512) 0, rd_served = 0\<rparr>"])
       (use assms f in \<open>simp_all add: NewRamDisk_def NewBlockWindow_def win_ok_def Let_def\<close>)
qed

section \<open>Properties\<close>

text \<open>
  C31: The window refines a byte array.  On a well-formed window a sector-aligned transfer inside the disk always
  completes, however many mailbox requests it takes: a read returns exactly the bytes of the disk and changes none, a
  write changes exactly the bytes of its range, and the window stays well-formed.
\<close>

theorem window_transfers:
  assumes "win_ok w" "length buf = 512 * k" "unat lba + k \<le> length (rd_Disk w) div 512"
  shows "(\<exists>w'. bw_Read w lba buf = Some (Inr (window (unat lba * 512) (length buf) (rd_Disk w)), w') \<and>
      win_ok w' \<and> rd_Disk w' = rd_Disk w) \<and>
    (\<exists>w'. bw_Write w lba buf = Some (Inr (), w') \<and> win_ok w' \<and> rd_Disk w' = go_copy (rd_Disk w) (unat lba * 512) buf)"
  using bw_Read_returns [OF assms] bw_Write_returns [OF assms] by metis

theorem window_transfers_witness:
  "\<exists>w w'. NewRamDisk 20 = Inr w \<and> bw_Write w 3 (replicate 8192 7) = Some (Inr (), w') \<and>
     rd_Disk w' = go_copy (replicate 10240 0) 1536 (replicate 8192 7)"
proof -
  obtain w where w: "NewRamDisk 20 = Inr w" "win_ok w" "rd_Disk w = replicate (20 * 512) 0"
    by (rule NewRamDisk_ok [of 20]) simp_all
  have "length (replicate 8192 (7 :: byte)) = 512 * 16" "unat (3 :: u64) + 16 \<le> length (rd_Disk w) div 512"
    by (simp_all add: w(3))
  from window_transfers [OF w(2) this] w show ?thesis by auto
qed

end
