(* ===== verification/Fs_Import.thy ===== *)
theory Fs_Import
  imports Kfs_Device
begin

text \<open>
  The block transport the file service runs on (\<^verbatim>\<open>services/fs/blkimport.go\<close>) over the kernel's RAM disk
  (\<^verbatim>\<open>core/devblk.cc\<close>, reached through the imports of \<^verbatim>\<open>core/engine.cc\<close>).  The virtio driver is a
  parameter: \<^verbatim>\<open>vrw\<close> for its transfers and \<^verbatim>\<open>vsec\<close> for its size.
\<close>

section \<open>The kernel's block backend\<close>

abbreviation (input) BLK_SECT :: nat where "BLK_SECT \<equiv> 512"
abbreviation (input) ramDiskBlocks :: nat where "ramDiskBlocks \<equiv> 32768"

text \<open>
  The backend's state, whether the calling session holds the capability \<^verbatim>\<open>SCHED_CAP_FSADM\<close>, and the virtio
  device when there is one.
\<close>

record 'v devblk =
  db_used :: bool
  db_disk :: "bytes option"
  db_nblocks :: u64
  db_fsadm :: bool
  db_virtio :: "'v option"

type_synonym 'v virtio_rw = "'v \<Rightarrow> bool \<Rightarrow> u64 \<Rightarrow> bytes \<Rightarrow> u32 \<Rightarrow> u32 \<times> bytes \<times> 'v"

definition devblk_init :: "'v devblk \<Rightarrow> 'v devblk" where
  "devblk_init dv = dv\<lparr>db_used := False, db_disk := None\<rparr>"

text \<open>\<^verbatim>\<open>alloc\<close> is whether \<^verbatim>\<open>mm_alloc\<close> finds the memory.\<close>

definition devblk_attach :: "bool \<Rightarrow> 'v devblk \<Rightarrow> bool \<times> 'v devblk" where
  "devblk_attach alloc dv =
     (if db_used dv then (True, dv)
      else case db_disk dv of
          Some disk \<Rightarrow> (True, dv\<lparr>db_used := True\<rparr>)
        | None \<Rightarrow>
            let dv = dv\<lparr>db_nblocks := of_nat ramDiskBlocks\<rparr>
            in if \<not> alloc then (False, dv)
               else (True, dv\<lparr>db_disk := Some (replicate (ramDiskBlocks * BLK_SECT) 0), db_used := True\<rparr>))"

definition devblk_total_sectors :: "('v \<Rightarrow> u64) \<Rightarrow> 'v devblk \<Rightarrow> u64" where
  "devblk_total_sectors vsec dv = (case db_virtio dv of Some v \<Rightarrow> vsec v | None \<Rightarrow> db_nblocks dv)"

text \<open>
  One transfer of \<^verbatim>\<open>count\<close> sectors between \<^verbatim>\<open>buf\<close> and the disk; the result is the return code, the buffer
  and the backend.
\<close>

definition devblk_rw :: "'v virtio_rw \<Rightarrow> bool \<Rightarrow> u64 \<Rightarrow> bytes \<Rightarrow> u32 \<Rightarrow> 'v devblk \<Rightarrow> u32 \<times> bytes \<times> 'v devblk" where
  "devblk_rw vrw put lba buf count dv =
     (if \<not> db_fsadm dv then (- 1, buf, dv)
      else if count = 0 \<or> count > 128 then (- 1, buf, dv)
      else if unat lba + unat count \<ge> 2 ^ 64 then (- 1, buf, dv)
      else
        let end_lba = lba + ucast count
        in case db_virtio dv of
             Some v \<Rightarrow> (case vrw v put lba buf count of (rc, buf, v) \<Rightarrow> (rc, buf, dv\<lparr>db_virtio := Some v\<rparr>))
           | None \<Rightarrow>
               (case db_disk dv of
                  None \<Rightarrow> (- 1, buf, dv)
                | Some disk \<Rightarrow>
                    if end_lba > db_nblocks dv then (- 1, buf, dv)
                    else
                      let p = unat lba * BLK_SECT; n = unat count * BLK_SECT
                      in if put then (0, buf, dv\<lparr>db_disk := Some (go_copy disk p (take n buf))\<rparr>)
                         else (0, go_copy buf 0 (window p n disk), dv)))"

section \<open>The imports\<close>

text \<open>
  \<^verbatim>\<open>kern_blk_read\<close> and \<^verbatim>\<open>kern_blk_write\<close>: the guest's arguments are 32 bits wide and read as unsigned.  The
  buffer lies inside the guest's memory, so the range check passes.
\<close>

definition owned_blk_rw :: "'v virtio_rw \<Rightarrow> bool \<Rightarrow> u32 \<Rightarrow> bytes \<Rightarrow> u32 \<Rightarrow> 'v devblk \<Rightarrow> u32 \<times> bytes \<times> 'v devblk" where
  "owned_blk_rw vrw put lba buf count dv =
     (if db_fsadm dv then devblk_rw vrw put (ucast lba) buf count dv else (- 1, buf, dv))"

definition owned_blk_geometry :: "('v \<Rightarrow> u64) \<Rightarrow> 'v devblk \<Rightarrow> bytes \<Rightarrow> u32 \<times> bytes" where
  "owned_blk_geometry vsec dv p =
     (let p = Put64 p 0 (devblk_total_sectors vsec dv);
          p = Put32 p 8 512
      in (0, go_copy p 12 [0, 0, 0, 0]))"

section \<open>The guest's device\<close>

abbreviation (input) blkDevMaxSectors :: nat where "blkDevMaxSectors \<equiv> 8"
abbreviation (input) defaultNumBlocks :: u32 where "defaultNumBlocks \<equiv> 32768"

record 'v importedBlock =
  ib_numBlocks :: u32
  ib_kern :: "'v devblk"

text \<open>The loop of \<^verbatim>\<open>xfer\<close>, at most eight sectors a call; \<^verbatim>\<open>put\<close> chooses the import.\<close>

function xfer_loop :: "'v virtio_rw \<Rightarrow> bool \<Rightarrow> u64 \<Rightarrow> nat \<Rightarrow> bytes \<Rightarrow> 'v importedBlock \<Rightarrow> (ferr + bytes) \<times> 'v importedBlock" where
  "xfer_loop vrw put lba k buf b =
     (if k < length buf
      then
        let chunk = min (length buf - k) (blkDevMaxSectors * 512);
            lbaNow = lba + of_nat (k div 512);
            (rc, s, dv) = owned_blk_rw vrw put (ucast lbaNow) (window k chunk buf) (of_nat (chunk div 512)) (ib_kern b);
            buf = go_copy buf k s;
            b = b\<lparr>ib_kern := dv\<rparr>
        in if rc \<noteq> 0 then (Inl ErrBlkIO, b) else xfer_loop vrw put lba (k + chunk) buf b
      else (Inr buf, b))"
  by pat_completeness auto
termination
  by (relation "measure (\<lambda>(vrw, put, lba, k, buf, b). length buf - k)") auto

declare xfer_loop.simps [simp del]

definition xfer :: "'v virtio_rw \<Rightarrow> bool \<Rightarrow> 'v importedBlock \<Rightarrow> u64 \<Rightarrow> bytes \<Rightarrow> (ferr + bytes) \<times> 'v importedBlock" where
  "xfer vrw put b lba buf =
     (if length buf mod 512 \<noteq> 0 \<or> length buf = 0 then (Inl ErrNotAligned, b)
      else xfer_loop vrw put lba 0 buf b)"

definition ib_Read :: "'v virtio_rw \<Rightarrow> 'v importedBlock \<Rightarrow> u64 \<Rightarrow> bytes \<Rightarrow> (ferr + bytes) \<times> 'v importedBlock" where
  "ib_Read vrw b lba buf = xfer vrw False b lba buf"

definition ib_Write :: "'v virtio_rw \<Rightarrow> 'v importedBlock \<Rightarrow> u64 \<Rightarrow> bytes \<Rightarrow> (ferr + unit) \<times> 'v importedBlock" where
  "ib_Write vrw b lba buf = apfst (map_sum id (\<lambda>_. ())) (xfer vrw True b lba buf)"

definition ib_Geometry :: "'v importedBlock \<Rightarrow> u32 \<times> u64" where
  "ib_Geometry b = (512, ucast (ib_numBlocks b))"

definition ib_dev :: "'v virtio_rw \<Rightarrow> 'v importedBlock Device" where
  "ib_dev vrw = \<lparr>dRead = ib_Read vrw, dWrite = ib_Write vrw, dGeometry = ib_Geometry\<rparr>"

definition queryDiskSize :: "('v \<Rightarrow> u64) \<Rightarrow> 'v devblk \<Rightarrow> u32" where
  "queryDiskSize vsec dv =
     (let (rc, g) = owned_blk_geometry vsec dv (replicate 16 0)
      in if rc \<noteq> 0 then 0 else Get32 g)"

definition attachDevice :: "('v \<Rightarrow> u64) \<Rightarrow> 'v devblk \<Rightarrow> 'v importedBlock" where
  "attachDevice vsec dv =
     (let n = queryDiskSize vsec dv
      in if 0 < n \<and> n \<noteq> defaultNumBlocks then \<lparr>ib_numBlocks = n, ib_kern = dv\<rparr>
         else \<lparr>ib_numBlocks = defaultNumBlocks, ib_kern = dv\<rparr>)"

section \<open>The transport is a block device\<close>

text \<open>A privileged session on the RAM disk, with the size the kernel reports.\<close>

definition ib_img :: "'v importedBlock \<Rightarrow> bytes" where
  "ib_img b = the (db_disk (ib_kern b))"

definition ib_ok :: "'v importedBlock \<Rightarrow> bool" where
  "ib_ok b \<longleftrightarrow> db_fsadm (ib_kern b) \<and> db_virtio (ib_kern b) = None \<and> db_disk (ib_kern b) \<noteq> None \<and>
     length (ib_img b) = unat (ib_numBlocks b) * 512 \<and> db_nblocks (ib_kern b) = ucast (ib_numBlocks b)"

lemma unat_u32_less: "unat (x :: u32) < 4294967296"
proof -
  have "unat x < 2 ^ LENGTH(32)" by (rule unsigned_less)
  then show ?thesis by simp
qed

lemma unat_u32_u64: "unat (ucast (x :: u32) :: u64) = unat x"
  using unat_u32_less [of x] by (simp add: unsigned_ucast_eq take_bit_nat_eq_self)

lemma devblk_rw_ram:
  assumes "ib_ok b" "0 < count" "count \<le> 128" "unat lba + unat count \<le> unat (ib_numBlocks b)"
  shows "owned_blk_rw vrw put lba buf count (ib_kern b) =
     (0, if put then buf else go_copy buf 0 (window (unat lba * 512) (unat count * 512) (ib_img b)),
      if put then (ib_kern b)\<lparr>db_disk := Some (go_copy (ib_img b) (unat lba * 512) (take (unat count * 512) buf))\<rparr>
      else ib_kern b)"
proof -
  have nb: "unat (ib_numBlocks b) < 2 ^ 32" using unat_u32_less [of "ib_numBlocks b"] by simp
  note u = unat_u32_u64
  have s: "unat ((ucast lba :: u64) + ucast count) = unat lba + unat count"
    using assms(4) nb by (simp add: unat_word_ariths u)
  have "\<not> (ucast lba :: u64) + ucast count > ucast (ib_numBlocks b)"
    using assms(4) by (simp only: word_less_nat_alt s u not_less)
  moreover have "\<not> (2 :: nat) ^ 64 \<le> unat lba + unat count" using assms(4) nb by simp
  moreover have "count \<noteq> 0" "\<not> count > 128" using assms(2,3) by auto
  ultimately show ?thesis
    using assms(1) by (auto simp: owned_blk_rw_def devblk_rw_def ib_ok_def ib_img_def u Let_def)
qed

lemma go_copy_same: "k + n \<le> length xs \<Longrightarrow> go_copy xs k (window k n xs) = xs"
  by (rule nth_equalityI) (auto simp: go_copy_nth window_nth)

text \<open>One call of the loop moves \<^term>\<open>min 8 (k - i)\<close> sectors.\<close>

lemma xfer_chunk:
  fixes lba :: u64
  assumes "ib_ok b" "length buf = 512 * k" "i < k" "unat lba + k \<le> unat (ib_numBlocks b)"
  defines "j \<equiv> min 8 (k - i)" and "p \<equiv> (unat lba + i) * 512"
  shows "xfer_loop vrw False lba (512 * i) buf b =
      xfer_loop vrw False lba (512 * (i + j)) (go_copy buf (512 * i) (window p (512 * j) (ib_img b))) b"
    "xfer_loop vrw True lba (512 * i) buf b =
      xfer_loop vrw True lba (512 * (i + j)) buf
        (b\<lparr>ib_kern := (ib_kern b)\<lparr>db_disk := Some (go_copy (ib_img b) p (window (512 * i) (512 * j) buf))\<rparr>\<rparr>)"
proof -
  let ?l = "ucast (lba + of_nat i) :: u32" and ?s = "window (512 * i) (512 * j) buf"
  have nb: "unat (ib_numBlocks b) < 2 ^ 32" using unat_u32_less [of "ib_numBlocks b"] by simp
  have j: "0 < j" "j \<le> 8" "i + j \<le> k" using assms(3) by (auto simp: j_def)
  have uj: "unat (of_nat j :: u32) = j" using j by (simp add: unat_of_nat take_bit_nat_eq_self)
  have "unat (lba + of_nat i) = unat lba + i"
    using assms(3,4) nb by (simp add: unat_word_ariths unat_of_nat take_bit_nat_eq_self)
  then have ul: "unat ?l = unat lba + i"
    using assms(3,4) nb by (simp add: unsigned_ucast_eq take_bit_nat_eq_self)
  have c: "(0 :: u32) < of_nat j" "(of_nat j :: u32) \<le> 128" "unat ?l + unat (of_nat j :: u32) \<le> unat (ib_numBlocks b)"
    using j assms(4) by (simp_all only: word_less_nat_alt word_le_nat_alt uj ul) simp_all
  have m: "min (length buf - 512 * i) (8 * 512) = 512 * j"
    unfolding assms(2) diff_mult_distrib2 [symmetric] by (simp add: j_def min_def)
  have ls: "length ?s = 512 * j" using assms(2) j by simp
  have w: "length (window p (512 * j) (ib_img b)) = 512 * j"
    using assms(1,4) j nb by (intro length_window) (simp add: ib_ok_def p_def)
  have x: "(512 * i < length buf) = True" "512 * j div 512 = j" "512 * i div 512 = i" using assms(2,3) by simp_all
  note call = devblk_rw_ram [OF assms(1) c, of vrw, unfolded ul uj, folded p_def]
  have rd: "go_copy ?s 0 (window p (j * 512) (ib_img b)) = window p (512 * j) (ib_img b)"
    using ls w by (simp add: mult.commute)
  have pb: "go_copy buf (512 * i) ?s = buf" by (rule go_copy_same) (use assms(2) j in simp)
  have tk: "take (j * 512) ?s = ?s" using ls by simp
  show "xfer_loop vrw False lba (512 * i) buf b =
      xfer_loop vrw False lba (512 * (i + j)) (go_copy buf (512 * i) (window p (512 * j) (ib_img b))) b"
    by (subst xfer_loop.simps) (simp only: m x Let_def call rd prod.case if_False if_True add_mult_distrib2, simp)
  show "xfer_loop vrw True lba (512 * i) buf b =
      xfer_loop vrw True lba (512 * (i + j)) buf
        (b\<lparr>ib_kern := (ib_kern b)\<lparr>db_disk := Some (go_copy (ib_img b) p ?s)\<rparr>\<rparr>)"
    by (subst xfer_loop.simps) (simp only: m x Let_def call tk pb prod.case if_False if_True add_mult_distrib2, simp)
qed

lemma xfer_read:
  assumes "ib_ok b" "length buf = 512 * k" "i \<le> k" "unat lba + k \<le> unat (ib_numBlocks b)"
  shows "xfer_loop vrw False lba (512 * i) buf b =
    (Inr (take (512 * i) buf @ window ((unat lba + i) * 512) (512 * (k - i)) (ib_img b)), b)"
  using assms(2,3)
proof (induction "k - i" arbitrary: i buf rule: less_induct)
  case less
  show ?case
  proof (cases "i < k")
    case False
    then show ?thesis using less.prems by (subst xfer_loop.simps) simp
  next
    case True
    let ?j = "min 8 (k - i)" and ?p = "(unat lba + i) * 512"
    let ?x = "window ?p (512 * ?j) (ib_img b)" and ?r = "window ((unat lba + (i + ?j)) * 512) (512 * (k - (i + ?j))) (ib_img b)"
    let ?buf = "go_copy buf (512 * i) ?x"
    have lx: "length ?x = 512 * ?j" using assms(1,4) True by (intro length_window) (simp add: ib_ok_def)
    have lb: "length ?buf = 512 * k" using less.prems by simp
    have "take (512 * (i + ?j)) ?buf = take (512 * i) buf @ ?x"
      using lx less.prems True by (simp add: go_copy_exact add_mult_distrib2)
    moreover have "?x @ ?r = window ?p (512 * (k - i)) (ib_img b)"
      using window_append_split [of ?p "512 * ?j" "512 * (k - (i + ?j))" "ib_img b"] True
      by (simp add: algebra_simps)
    moreover have "xfer_loop vrw False lba (512 * (i + ?j)) ?buf b = (Inr (take (512 * (i + ?j)) ?buf @ ?r), b)"
      by (rule less.hyps [OF _ lb]) (use True in auto)
    ultimately show ?thesis using xfer_chunk(1) [OF assms(1) less.prems(1) True assms(4)] by simp
  qed
qed

lemma xfer_write:
  assumes "ib_ok b" "length buf = 512 * k" "i \<le> k" "unat lba + k \<le> unat (ib_numBlocks b)"
  shows "\<exists>b'. xfer_loop vrw True lba (512 * i) buf b = (Inr buf, b') \<and> ib_ok b' \<and>
    ib_img b' = go_copy (ib_img b) ((unat lba + i) * 512) (drop (512 * i) buf)"
  using assms
proof (induction "k - i" arbitrary: i b rule: less_induct)
  case less
  show ?case
  proof (cases "i < k")
    case False
    then show ?thesis using less.prems by (subst xfer_loop.simps) simp
  next
    case True
    let ?j = "min 8 (k - i)" and ?p = "(unat lba + i) * 512"
    let ?x = "window (512 * i) (512 * ?j) buf"
    let ?b = "b\<lparr>ib_kern := (ib_kern b)\<lparr>db_disk := Some (go_copy (ib_img b) ?p ?x)\<rparr>\<rparr>"
    have lx: "length ?x = 512 * ?j" using less.prems(2) True by (intro length_window) simp
    have sz: "length (ib_img b) = unat (ib_numBlocks b) * 512" using less.prems(1) by (simp add: ib_ok_def)
    have ok: "ib_ok ?b" using less.prems(1,4) True by (simp add: ib_ok_def ib_img_def)
    have im: "ib_img ?b = go_copy (ib_img b) ?p ?x" by (simp add: ib_img_def)
    have "k - (i + ?j) < k - i" "i + ?j \<le> k" using True by auto
    from less.hyps [OF this(1) ok less.prems(2) this(2)] less.prems(4) obtain b2 where
      b2: "xfer_loop vrw True lba (512 * (i + ?j)) buf ?b = (Inr buf, b2)" "ib_ok b2"
        "ib_img b2 = go_copy (ib_img ?b) ((unat lba + (i + ?j)) * 512) (drop (512 * (i + ?j)) buf)" by auto
    have "?x @ drop (512 * (i + ?j)) buf = drop (512 * i) buf"
      using append_take_drop_id [of "512 * ?j" "drop (512 * i) buf"] by (simp add: window_def algebra_simps)
    moreover have "?p + length ?x + length (drop (512 * (i + ?j)) buf) \<le> length (ib_img b)"
      using less.prems(2,4) True unfolding lx sz by (simp add: algebra_simps)
    moreover have "(unat lba + (i + ?j)) * 512 = ?p + length ?x" unfolding lx by (simp add: algebra_simps)
    ultimately have "ib_img b2 = go_copy (ib_img b) ?p (drop (512 * i) buf)"
      using go_copy_append [of ?p ?x "drop (512 * (i + ?j)) buf" "ib_img b"] unfolding b2(3) im by argo
    then show ?thesis using xfer_chunk(2) [OF less.prems(1,2) True less.prems(4)] b2 by simp
  qed
qed

interpretation imp: block_device "ib_dev vrw" ib_ok ib_img for vrw :: "'v virtio_rw"
proof unfold_locales
  fix b :: "'v importedBlock" and buf :: bytes and k and lba :: u64
  assume a: "ib_ok b" "length buf = 512 * k" "0 < k" "unat lba * 512 + length buf \<le> length (ib_img b)"
  have f: "unat lba + k \<le> unat (ib_numBlocks b)" using a by (simp add: ib_ok_def)
  have x: "xfer vrw put b lba buf = xfer_loop vrw put lba 0 buf b" for put using a by (simp add: xfer_def)
  show "\<exists>d'. dRead (ib_dev vrw) b lba buf = (Inr (window (unat lba * 512) (length buf) (ib_img b)), d') \<and>
      ib_ok d' \<and> ib_img d' = ib_img b"
    using xfer_read [OF a(1,2) le0 f, of vrw] a by (simp add: ib_dev_def ib_Read_def x)
  show "\<exists>d'. dWrite (ib_dev vrw) b lba buf = (Inr (), d') \<and> ib_ok d' \<and> ib_img d' = go_copy (ib_img b) (unat lba * 512) buf"
    using xfer_write [OF a(1,2) le0 f, of vrw] by (auto simp: ib_dev_def ib_Write_def x)
next
  fix b :: "'v importedBlock" assume a: "ib_ok b"
  have "of_nat (unat (ib_numBlocks b)) = (ucast (ib_numBlocks b) :: u64)" by simp
  then show "dGeometry (ib_dev vrw) b = (512, of_nat (length (ib_img b) div 512))"
    using a by (simp add: ib_ok_def ib_dev_def ib_Geometry_def)
  show "512 dvd length (ib_img b)" "length (ib_img b) < 2 ^ 63"
    using a unat_u32_less [of "ib_numBlocks b"] by (simp_all add: ib_ok_def)
qed

text \<open>The kernel's fresh RAM disk, seen by a privileged session.\<close>

lemma attached_ok:
  assumes "devblk_attach True (devblk_init dv) = (r, dv')" "db_fsadm dv" "db_virtio dv = None"
  shows "r" "ib_ok (attachDevice vsec dv')" "ib_img (attachDevice vsec dv') = replicate (32768 * 512) 0"
proof -
  have d: "r" "db_fsadm dv'" "db_virtio dv' = None" "db_disk dv' = Some (replicate (32768 * 512) 0)" "db_nblocks dv' = 32768"
    using assms by (auto simp: devblk_attach_def devblk_init_def Let_def)
  have "le64 32768 = [0, 0x80, 0, 0, 0, 0, 0, 0]" by code_simp
  then have "Put64 (replicate 16 0) 0 32768 = [0, 0x80, 0, 0, 0, 0, 0, 0] @ replicate 8 (0 :: byte)"
    by (simp add: Put64_def go_copy_def)
  then have "Get32 (go_copy (Put32 (Put64 (replicate 16 0) 0 32768) 8 512) 12 [0, 0, 0, 0 :: byte]) = 32768"
    by (simp add: Put32_def go_copy_def Get32_def)
  then have "queryDiskSize vsec dv' = 32768"
    by (simp add: d queryDiskSize_def owned_blk_geometry_def devblk_total_sectors_def)
  then have a: "attachDevice vsec dv' = \<lparr>ib_numBlocks = 32768, ib_kern = dv'\<rparr>" by (simp add: attachDevice_def)
  show "r" by (rule d(1))
  show "ib_ok (attachDevice vsec dv')" "ib_img (attachDevice vsec dv') = replicate (32768 * 512) 0"
    by (simp_all add: d a ib_ok_def ib_img_def)
qed

end
