(* ===== verification/Fs_Main.thy ===== *)
theory Fs_Main
  imports Fs_Server_Props Fs_Import Kfs_Properties
begin

text \<open>
  The start of the file service (\<^verbatim>\<open>services/fs/main.go\<close>, \<^verbatim>\<open>services/fs/blank.go\<close>): mount the volume, format the device
  only when every byte of it is zero or when asked to, and serve.  Failure of the scan to end is the result None.
\<close>

section \<open>Is the device blank?\<close>

abbreviation (input) blankScanChunk :: u64 where "blankScanChunk \<equiv> 8"

text \<open>The scan; \<^verbatim>\<open>store\<close> is the array behind the buffer that successive reads share.\<close>

partial_function (option) blank_loop :: "'d Device \<Rightarrow> u32 \<Rightarrow> u64 \<Rightarrow> u64 \<Rightarrow> bytes \<Rightarrow> 'd \<Rightarrow> ((ferr + bool) \<times> 'd) option" where
  "blank_loop D bs numBlocks lba store d =
     (if lba < numBlocks
      then
        let n = (if numBlocks - lba < blankScanChunk then numBlocks - lba else blankScanChunk);
            need = unat n * unat bs;
            store = (if length store < need then replicate need 0 else store)
        in case dRead D d lba (take need store) of
             (Inl e, d) \<Rightarrow> Some (Inl e, d)
           | (Inr buf, d) \<Rightarrow>
               if list_ex (\<lambda>b. b \<noteq> 0) buf then Some (Inr False, d)
               else blank_loop D bs numBlocks (lba + blankScanChunk) (go_copy store 0 buf) d
      else Some (Inr True, d))"

definition deviceIsBlank :: "'d Device \<Rightarrow> 'd \<Rightarrow> ((ferr + bool) \<times> 'd) option" where
  "deviceIsBlank D d =
     (let (bs, numBlocks) = dGeometry D d
      in if bs = 0 \<or> numBlocks = 0 then Some (Inl ErrBlankBadGeometry, d)
         else blank_loop D bs numBlocks 0 [] d)"

section \<open>Start-up\<close>

text \<open>
  How the start ends: serving a filesystem, or one of the exits; \<^verbatim>\<open>Crashed\<close> is a run-time panic.
\<close>

datatype 'd boot =
    Serving "'d Volume KFS" | Refused 'd | CreateFailed 'd | MkfsDone 'd | MkfsFailed 'd | NoPort 'd | Crashed 'd

fun vol_inner :: "'d Volume \<Rightarrow> 'd" where
  "vol_inner (Bare d) = d"
| "vol_inner (Shifted s) = Inner s"

definition boot_refused :: "'d Device \<Rightarrow> bool \<Rightarrow> 'd \<Rightarrow> 'd boot" where
  "boot_refused D mkfs d =
     (if mkfs
      then case FormatKFS D d of
          (Inl e, d) \<Rightarrow> if e = GoPanic then Crashed d else MkfsFailed d
        | (Inr _, d) \<Rightarrow> MkfsDone d
      else Refused d)"

definition fs_boot :: "'d Device \<Rightarrow> bool \<Rightarrow> 'd \<Rightarrow> 'd boot option" where
  "fs_boot D mkfs d =
     (case mountAuto D d of
        Inr k \<Rightarrow> Some (Serving k)
      | Inl (e, v) \<Rightarrow>
          if e = GoPanic then Some (Crashed (vol_inner v))
          else case deviceIsBlank D (vol_inner v) of
              None \<Rightarrow> None
            | Some (r, d) \<Rightarrow>
                if r = Inl GoPanic then Some (Crashed d)
                else if r = Inr True
                then case FormatKFS D d of
                    (Inl e, d) \<Rightarrow> Some (if e = GoPanic then Crashed d else CreateFailed d)
                  | (Inr _, d) \<Rightarrow>
                      (case mountAuto D d of
                         Inr k \<Rightarrow> Some (Serving k)
                       | Inl (e, v) \<Rightarrow>
                           Some (if e = GoPanic then Crashed (vol_inner v) else boot_refused D mkfs (vol_inner v)))
                else Some (boot_refused D mkfs d))"

text \<open>
  \<^verbatim>\<open>main\<close>: \<^verbatim>\<open>bound\<close> is whether the service port could be bound, \<^verbatim>\<open>mkfs\<close> whether the first argument is
  \<^verbatim>\<open>mkfs\<close>, and \<^verbatim>\<open>reqs\<close> the datagrams that arrive; the second result is what serving them gives.
\<close>

definition fs_main :: "'d Device \<Rightarrow> bool \<Rightarrow> bool \<Rightarrow> bytes list \<Rightarrow> 'd \<Rightarrow>
    ('d boot \<times> (fs_reply list \<times> sessions \<times> 'd Volume KFS) option) option" where
  "fs_main D bound mkfs reqs d =
     (if \<not> bound then Some (NoPort d, None)
      else case fs_boot D mkfs d of
          None \<Rightarrow> None
        | Some (Serving k) \<Rightarrow> Some (Serving k, Some (ServeFSOn (kfs_store (vol_dev D)) reqs k))
        | Some out \<Rightarrow> Some (out, None))"

fun boot_dev :: "'d boot \<Rightarrow> 'd" where
  "boot_dev (Serving k) = vol_inner (k_dev k)"
| "boot_dev (Refused d) = d"
| "boot_dev (CreateFailed d) = d"
| "boot_dev (MkfsDone d) = d"
| "boot_dev (MkfsFailed d) = d"
| "boot_dev (NoPort d) = d"
| "boot_dev (Crashed d) = d"

section \<open>The scan\<close>

context block_device
begin

lemma blank_chunk:
  assumes "dok d" "8 * i < length (img d) div 512"
  defines "n \<equiv> length (img d) div 512"
  shows "(of_nat (8 * i) :: u64) < of_nat n"
    "unat (if (of_nat n :: u64) - of_nat (8 * i) < 8 then of_nat n - of_nat (8 * i) else 8 :: u64) = min 8 (n - 8 * i)"
    "unat (of_nat (8 * i) :: u64) = 8 * i" "(of_nat (8 * i) :: u64) + 8 = of_nat (8 * (i + 1))"
    "(8 * i + min 8 (n - 8 * i)) * 512 \<le> length (img d)"
proof -
  have b: "n * 512 = length (img d)" "n < 2 ^ 62" using whole [OF assms(1)] bounded [OF assms(1)] by (auto simp: n_def)
  have u: "unat (of_nat x :: u64) = x" if "x \<le> n" for x using that b by (simp add: unat_of_nat take_bit_nat_eq_self)
  have i: "8 * i < n" using assms(2) by (simp add: n_def)
  show s: "unat (of_nat (8 * i) :: u64) = 8 * i" by (rule u) (use i in simp)
  show "(of_nat (8 * i) :: u64) < of_nat n" using i by (simp only: word_less_nat_alt s u order_refl)
  have "(of_nat n :: u64) - of_nat (8 * i) = of_nat (n - 8 * i)" using i by (simp add: of_nat_diff)
  then show "unat (if (of_nat n :: u64) - of_nat (8 * i) < 8 then of_nat n - of_nat (8 * i) else 8 :: u64) = min 8 (n - 8 * i)"
    using u [of "n - 8 * i"] by (simp add: word_less_nat_alt min_def)
  show "(of_nat (8 * i) :: u64) + 8 = of_nat (8 * (i + 1))" by simp
  have "8 * i + min 8 (n - 8 * i) \<le> n" using i by simp
  then show "(8 * i + min 8 (n - 8 * i)) * 512 \<le> length (img d)" unfolding b(1) [symmetric] by (rule mult_le_mono1)
qed

lemma blank_loop_img:
  assumes "dok d" "8 * i \<le> length (img d) div 512 + 7"
  shows "\<exists>d'. blank_loop D 512 (of_nat (length (img d) div 512)) (of_nat (8 * i)) store d =
      Some (Inr (\<forall>b \<in> set (drop (8 * i * 512) (img d)). b = 0), d') \<and> dok d' \<and> img d' = img d"
  using assms
proof (induction "length (img d) div 512 + 8 - 8 * i" arbitrary: i store d rule: less_induct)
  case less
  let ?I = "img d" and ?n = "length (img d) div 512"
  have whole': "?n * 512 = length ?I" using whole [OF less.prems(1)] by simp
  show ?case
  proof (cases "8 * i < ?n")
    case False
    then have "length ?I \<le> 8 * i * 512" using mult_le_mono1 [of ?n "8 * i" 512] whole' by simp
    moreover have "?n < 2 ^ 62" "8 * i < 2 ^ 63" using bounded [OF less.prems(1)] less.prems(2) by auto
    then have "\<not> (of_nat (8 * i) :: u64) < of_nat ?n"
      using False by (simp only: word_less_nat_alt unat_of_nat) (simp add: take_bit_nat_eq_self)
    ultimately show ?thesis using less.prems(1) by (subst blank_loop.simps) simp
  next
    case True
    note c = blank_chunk [OF less.prems(1) True]
    let ?j = "min 8 (?n - 8 * i)"
    let ?need = "?j * 512" and ?w = "window (8 * i * 512) (?j * 512) ?I"
    let ?st = "if length store < ?need then replicate ?need 0 else store"
    have l: "length (take ?need ?st) = 512 * ?j" by auto
    have j: "0 < ?j" using True by simp
    have f: "unat (of_nat (8 * i) :: u64) * 512 + length (take ?need ?st) \<le> length ?I"
      using c(5) unfolding c(3) l by (simp add: algebra_simps)
    from read [OF less.prems(1) l j f] obtain d' where
      d': "dRead D d (of_nat (8 * i)) (take ?need ?st) = (Inr ?w, d')" "dok d'" "img d' = ?I"
      unfolding c(3) l by (auto simp: mult.commute)
    have split: "drop (8 * i * 512) ?I = ?w @ drop (8 * (i + 1) * 512) ?I"
    proof (cases "8 \<le> ?n - 8 * i")
      case True
      then show ?thesis using append_take_drop_id [of 4096 "drop (8 * i * 512) ?I"] by (simp add: window_def algebra_simps)
    next
      case False
      then have "length ?I \<le> 8 * (i + 1) * 512" using mult_le_mono1 [of ?n "8 * (i + 1)" 512] whole' by simp
      moreover have "length (drop (8 * i * 512) ?I) \<le> ?j * 512"
        using False whole' by (simp add: diff_mult_distrib)
      ultimately show ?thesis by (simp add: window_def)
    qed
    have b: "unat (512 :: u32) = 512" by simp
    have step: "blank_loop D 512 (of_nat ?n) (of_nat (8 * i)) store d =
        (if list_ex (\<lambda>b. b \<noteq> 0) ?w then Some (Inr False, d')
         else blank_loop D 512 (of_nat ?n) (of_nat (8 * (i + 1))) (go_copy ?st 0 ?w) d')"
      by (subst blank_loop.simps) (simp only: c(1,2,4) Let_def if_True b d'(1) prod.case sum.case)
    show ?thesis
    proof (cases "list_ex (\<lambda>b. b \<noteq> 0) ?w")
      case True
      then show ?thesis using step d' split by (auto simp: list_ex_iff)
    next
      case False
      have "length (img d') div 512 + 8 - 8 * (i + 1) < ?n + 8 - 8 * i" "8 * (i + 1) \<le> length (img d') div 512 + 7"
        using \<open>8 * i < ?n\<close> d'(3) by simp_all
      from less.hyps [OF this(1) d'(2) this(2), of "go_copy ?st 0 ?w"] show ?thesis
        using False step split d'(3) by (auto simp: list_ex_iff)
    qed
  qed
qed

lemma deviceIsBlank_img:
  assumes "dok d" "512 \<le> length (img d)"
  obtains d' where "deviceIsBlank D d = Some (Inr (\<forall>b \<in> set (img d). b = 0), d')" "dok d'" "img d' = img d"
proof -
  have "0 < length (img d) div 512" using assms(2) by (simp add: div_greater_zero_iff)
  moreover have "unat (of_nat (length (img d) div 512) :: u64) * 512 = length (img d)" by (rule unat_blocks [OF assms(1)])
  ultimately have "(of_nat (length (img d) div 512) :: u64) \<noteq> 0" using assms(2) by auto
  then show ?thesis
    using that blank_loop_img [OF assms(1), of 0 "[]"] by (auto simp: deviceIsBlank_def geometry [OF assms(1)])
qed

end

section \<open>Mounting leaves the device as it was\<close>

context block_device
begin

text \<open>A device wrapped in a constructor is the same device.\<close>

lemma wrapped_device:
  assumes "\<And>d lba buf. dRead D' (f d) lba buf = apsnd f (dRead D d lba buf)"
    "\<And>d lba buf. dWrite D' (f d) lba buf = apsnd f (dWrite D d lba buf)"
    "\<And>d. dGeometry D' (f d) = dGeometry D d" "\<And>d. img' (f d) = img d"
  shows "block_device D' (\<lambda>v. \<exists>d. v = f d \<and> dok d) img'"
proof
  fix v and buf :: bytes and k :: nat and lba :: u64
  assume "\<exists>d. v = f d \<and> dok d" and k: "length buf = 512 * k" "0 < k" and l: "unat lba * 512 + length buf \<le> length (img' v)"
  then obtain d where v: "v = f d" "dok d" by blast
  show "\<exists>d'. dRead D' v lba buf = (Inr (window (unat lba * 512) (length buf) (img' v)), d') \<and>
      (\<exists>d. d' = f d \<and> dok d) \<and> img' d' = img' v"
    using read [OF v(2) k] l v by (fastforce simp: assms)
  show "\<exists>d'. dWrite D' v lba buf = (Inr (), d') \<and> (\<exists>d. d' = f d \<and> dok d) \<and> img' d' = go_copy (img' v) (unat lba * 512) buf"
    using put [OF v(2) k] l v by (fastforce simp: assms)
qed (use geometry whole bounded in \<open>auto simp: assms\<close>)

lemma Mount_bare:
  assumes "dok d" "512 \<le> length (img d)"
  obtains d' where "dok d'" "img d' = img d"
    "(\<exists>e. MountKFS (vol_dev D) (Bare d) = Inl (e, Bare d')) \<or> (\<exists>k. MountKFS (vol_dev D) (Bare d) = Inr k \<and> k_dev k = Bare d')"
proof -
  have B: "block_device (vol_dev D) (\<lambda>v. \<exists>d. v = Bare d \<and> dok d) (vol_img img)" by (rule wrapped_device) simp_all
  show ?thesis
    by (rule block_device.MountKFS_img [OF B, of "Bare d"])
       (use assms that mount_view_dev in \<open>fastforce split: if_splits prod.splits sum.splits\<close>)+
qed

lemma Mount_shifted:
  assumes "off_above dok img b pre s" "512 \<le> length (off_img img s)"
  obtains s' where "off_above dok img b pre s'" "off_img img s' = off_img img s"
    "(\<exists>e. MountKFS (vol_dev D) (Shifted s) = Inl (e, Shifted s')) \<or> (\<exists>k. MountKFS (vol_dev D) (Shifted s) = Inr k \<and> k_dev k = Shifted s')"
proof -
  have B: "block_device (vol_dev D) (\<lambda>v. \<exists>s. v = Shifted s \<and> off_above dok img b pre s) (vol_img img)"
    by (rule block_device.wrapped_device [OF off_above_device]) simp_all
  show ?thesis
    by (rule block_device.MountKFS_img [OF B, of "Shifted s"])
       (use assms that mount_view_dev in \<open>fastforce split: if_splits prod.splits sum.splits\<close>)+
qed

lemma off_above_img:
  assumes "off_above dok img b pre s" "off_above dok img b pre s'" "off_img img s' = off_img img s"
  shows "img (Inner s') = img (Inner s)"
  using assms append_take_drop_id [of "unat b * 512" "img (Inner s')"] append_take_drop_id [of "unat b * 512" "img (Inner s)"]
  by (simp add: off_above_def off_img_def)

lemma mountAuto_img:
  assumes "dok d" "1024 \<le> length (img d)"
  obtains v where "dok (vol_inner v)" "img (vol_inner v) = img d"
    "(\<exists>e. mountAuto D d = Inl (e, v)) \<or> (\<exists>k. mountAuto D d = Inr k \<and> k_dev k = v)"
proof -
  let ?s = "length (img d) div 1024"
  from FindVolume_img [OF assms] obtain d' where d': "dok d'" "img d' = img d"
    "FindVolume D d = (if ParseSuperblock (window 0 512 (img d)) \<noteq> None then Inr (Bare d')
       else if ParseSuperblock (window (?s * 512) 512 (img d)) \<noteq> None then Inr (Shifted (NewOffset d' (of_nat ?s)))
       else Inl (ErrBadSB, d'))" .
  consider "FindVolume D d = Inr (Bare d')" | "FindVolume D d = Inr (Shifted (NewOffset d' (of_nat ?s)))"
    | "FindVolume D d = Inl (ErrBadSB, d')" using d'(3) by presburger
  then show ?thesis
  proof cases
    case 1
    have "512 \<le> length (img d')" using assms(2) d'(2) by simp
    from Mount_bare [OF d'(1) this] obtain d2 where "dok d2" "img d2 = img d'"
      "(\<exists>e. MountKFS (vol_dev D) (Bare d') = Inl (e, Bare d2)) \<or> (\<exists>k. MountKFS (vol_dev D) (Bare d') = Inr k \<and> k_dev k = Bare d2)" .
    then show ?thesis using that [of "Bare d2"] 1 d'(2) by (simp add: mountAuto_def)
  next
    case 2
    let ?o = "NewOffset d' (of_nat ?s)"
    have u: "unat (of_nat ?s :: u64) = ?s"
      using bounded [OF assms(1)] by (simp add: unat_of_nat take_bit_nat_eq_self)
    have l: "?s * 512 + 512 \<le> length (img d)" using assms(2) by linarith
    have "off_above dok img (of_nat ?s) (take (?s * 512) (img d)) ?o"
      using d' l u by (simp add: off_above_def off_inv_def NewOffset_def)
    moreover have "512 \<le> length (off_img img ?o)" using l d'(2) u by (simp add: off_img_def NewOffset_def)
    ultimately obtain s' where s': "off_above dok img (of_nat ?s) (take (?s * 512) (img d)) s'" "off_img img s' = off_img img ?o"
      "(\<exists>e. MountKFS (vol_dev D) (Shifted ?o) = Inl (e, Shifted s')) \<or> (\<exists>k. MountKFS (vol_dev D) (Shifted ?o) = Inr k \<and> k_dev k = Shifted s')"
      by (rule Mount_shifted)
    have "img (Inner s') = img d'"
      using off_above_img [OF \<open>off_above dok img (of_nat ?s) (take (?s * 512) (img d)) ?o\<close> s'(1,2)] by (simp add: NewOffset_def)
    then show ?thesis using that [of "Shifted s'"] 2 s' d'(2) by (simp add: mountAuto_def off_above_def off_inv_def)
  next
    case 3
    then show ?thesis using that [of "Bare d'"] d' by (simp add: mountAuto_def)
  qed
qed

text \<open>The start on a device that holds data.\<close>

lemma boot_keeps:
  assumes "dok d" "1024 \<le> length (img d)" "\<exists>b \<in> set (img d). b \<noteq> 0"
  obtains out where "fs_boot D False d = Some out" "img (boot_dev out) = img d"
    "(\<exists>k. out = Serving k) \<or> (\<exists>d'. out = Refused d') \<or> (\<exists>d'. out = Crashed d')"
proof -
  from mountAuto_img [OF assms(1,2)] obtain v where v: "dok (vol_inner v)" "img (vol_inner v) = img d"
    "(\<exists>e. mountAuto D d = Inl (e, v)) \<or> (\<exists>k. mountAuto D d = Inr k \<and> k_dev k = v)" .
  have "512 \<le> length (img (vol_inner v))" using assms(2) v(2) by simp
  from deviceIsBlank_img [OF v(1) this] obtain d' where
    d': "deviceIsBlank D (vol_inner v) = Some (Inr (\<forall>b \<in> set (img (vol_inner v)). b = 0), d')" "dok d'" "img d' = img (vol_inner v)" .
  have "\<not> (\<forall>b \<in> set (img (vol_inner v)). b = 0)" using assms(3) v(2) by auto
  then have nb: "deviceIsBlank D (vol_inner v) = Some (Inr False, d')" using d'(1) by simp
  show ?thesis
  proof (cases "mountAuto D d")
    case (Inr k)
    then show ?thesis using v that [of "Serving k"] by (auto simp: fs_boot_def)
  next
    case (Inl x)
    then obtain e where e: "mountAuto D d = Inl (e, v)" using v(3) by auto
    show ?thesis
    proof (cases "e = GoPanic")
      case True
      then show ?thesis using e v that [of "Crashed (vol_inner v)"] by (auto simp: fs_boot_def)
    next
      case False
      then show ?thesis using e v(2) d'(3) nb that [of "Refused d'"] by (auto simp: fs_boot_def boot_refused_def)
    qed
  qed
qed

end

section \<open>The first start on a blank device\<close>

context block_device
begin

lemma boot_blank:
  assumes "dok d" "16 * 512 \<le> length (img d)" "\<forall>b \<in> set (img d). b = 0"
  obtains k k0 where "fs_boot D mkfs d = Some (Serving k)"
    "block_device.synced_with (vol_inv dok img) (vol_img img) k k0"
    "same_tables k (put_inode rootInode (emptyKFS (k_dev k) 0 [] 0))"
    "k_wOff k = LogStart + 35" "k_logEnd k = length (img d)"
proof -
  let ?n = "length (img d)"
  have im: "img d = replicate ?n 0" using assms(3) by (intro replicate_eqI) auto
  have none: "ParseSuperblock (window a 512 (img d)) = None" if "a + 512 \<le> ?n" for a
  proof -
    have "window a 512 (img d) = replicate 512 0" by (subst im) (use that in \<open>simp add: window_def min_def\<close>)
    moreover have "window 0 4 (replicate 512 (0 :: byte)) = [0, 0, 0, 0]" by (simp add: window_def) (simp add: eval_nat_numeral)
    ultimately show ?thesis by (simp add: ParseSuperblock_def str_def)
  qed
  have n0: "ParseSuperblock (window 0 512 (img d)) = None" "ParseSuperblock (window (?n div 1024 * 512) 512 (img d)) = None"
    by (rule none, use assms(2) in linarith)+
  have "1024 \<le> ?n" using assms(2) by simp
  from FindVolume_img [OF assms(1) this] n0 obtain d1 where d1: "dok d1" "img d1 = img d"
    "FindVolume D d = Inl (ErrBadSB, d1)" by (metis (no_types, lifting))
  have "512 \<le> length (img d1)" using assms(2) d1(2) by simp
  from deviceIsBlank_img [OF d1(1) this] assms(3) d1(2) obtain d2 where
    d2: "deviceIsBlank D d1 = Some (Inr True, d2)" "dok d2" "img d2 = img d" by auto
  have l2: "16 * 512 \<le> length (img d2)" using assms(2) d2(3) by simp
  from FormatKFS_img [OF d2(2) l2] obtain d3 where d3: "FormatKFS D d2 = (Inr (), d3)" "dok d3"
    "img d3 = EncodeSuperblock \<lparr>BlockSize = 512, NumBlocks = of_nat (?n div 512),
       LogSector = LogStartSector, Version = FormatVersion\<rparr> @ frames fresh_log @ drop (512 + 35) (img d)"
    unfolding d2(3) by metis
  have z: "drop (512 + 35) (img d) = replicate (?n - 547) 0" by (subst im) simp
  have l3: "length (img d3) = ?n" using assms(2) by (simp add: d3(3) length_fresh_log)
  have sb: "ParseSuperblock (window 0 512 (img d3)) \<noteq> None"
    by (simp add: d3(3) window_def ParseSuperblock_def EncodeSuperblock_layout str_def)
  have "1024 \<le> length (img d3)" using assms(2) l3 by simp
  from FindVolume_img [OF d3(2) this] sb obtain d4 where d4: "dok d4" "img d4 = img d3" "FindVolume D d3 = Inr (Bare d4)"
    by (metis (no_types, lifting))
  obtain k k0 where k: "MountKFS (vol_dev D) (Bare d4) = Inr k" "block_device.synced_with (vol_inv dok img) (vol_img img) k k0"
    "same_tables k (put_inode rootInode (emptyKFS (Bare d4) 0 [] 0))" "k_wOff k = LogStart + 35" "k_logEnd k = length (vol_img img (Bare d4))"
    by (rule block_device.fresh_mount [OF vol_block_device, of "Bare d4" "?n - 547"])
       (use d4(1,2) l3 assms(2) d3(3) z in simp_all)
  show ?thesis
    by (rule that [of k k0])
       (use d1(3) d2(1) d3(1) d4(2,3) k l3 in \<open>simp_all add: fs_boot_def mountAuto_def same_tables_def put_inode_def emptyKFS_def rootInode_def Let_def\<close>)
qed

end

text \<open>The tables the standard directories make, one entry at a time.\<close>

definition std_dir :: "u32 \<Rightarrow> kfsInode" where
  "std_dir n = \<lparr>i_ino = n, i_uid = 0, i_kind = KindDir, i_size = 0\<rparr>"

fun std_tables :: "nat \<Rightarrow> 'd \<Rightarrow> 'd KFS" where
  "std_tables 0 d = put_inode rootInode (emptyKFS d 0 [] 0)"
| "std_tables (Suc i) d =
    (let (p, leaf, n) = [(RootIno, str ''etc'', 2), (RootIno, str ''home'', 3), (RootIno, str ''tmp'', 4),
        (RootIno, str ''boot'', 5), (5, str ''modules'', 6)] ! i
     in new_entry p leaf (std_dir n) (std_tables i d))"

lemma Stat_same:
  assumes "same_tables k T" shows "Stat path k = Stat path T"
proof -
  have e: "k_dirents k = k_dirents T" "k_inodes k = k_inodes T" using assms by (simp_all add: same_tables_def)
  show ?thesis unfolding Stat_def same_tables_walk [OF assms] e by (rule refl)
qed

lemma std_T:
  "std_tables 1 d = new_entry RootIno (str ''etc'') (std_dir 2) (std_tables 0 d)"
  "std_tables 2 d = new_entry RootIno (str ''home'') (std_dir 3) (std_tables 1 d)"
  "std_tables 3 d = new_entry RootIno (str ''tmp'') (std_dir 4) (std_tables 2 d)"
  "std_tables 4 d = new_entry RootIno (str ''boot'') (std_dir 5) (std_tables 3 d)"
  "std_tables 5 d = new_entry 5 (str ''modules'') (std_dir 6) (std_tables 4 d)"
  by (simp_all add: eval_nat_numeral)

lemma std_fields:
  "k_children (std_tables 0 d) = [1 \<mapsto> []]"
  "k_children (std_tables 1 d) = [1 \<mapsto> [0], 2 \<mapsto> []]"
  "k_children (std_tables 2 d) = [1 \<mapsto> [0, 1], 2 \<mapsto> [], 3 \<mapsto> []]"
  "k_children (std_tables 3 d) = [1 \<mapsto> [0, 1, 2], 2 \<mapsto> [], 3 \<mapsto> [], 4 \<mapsto> []]"
  "k_children (std_tables 4 d) = [1 \<mapsto> [0, 1, 2, 3], 2 \<mapsto> [], 3 \<mapsto> [], 4 \<mapsto> [], 5 \<mapsto> []]"
  "k_children (std_tables 5 d) = [1 \<mapsto> [0, 1, 2, 3], 2 \<mapsto> [], 3 \<mapsto> [], 4 \<mapsto> [], 5 \<mapsto> [4], 6 \<mapsto> []]"
  "k_inodes (std_tables 0 d) = [1 \<mapsto> rootInode]"
  "k_inodes (std_tables 1 d) = [1 \<mapsto> rootInode, 2 \<mapsto> std_dir 2]"
  "k_inodes (std_tables 2 d) = [1 \<mapsto> rootInode, 2 \<mapsto> std_dir 2, 3 \<mapsto> std_dir 3]"
  "k_inodes (std_tables 3 d) = [1 \<mapsto> rootInode, 2 \<mapsto> std_dir 2, 3 \<mapsto> std_dir 3, 4 \<mapsto> std_dir 4]"
  "k_inodes (std_tables 4 d) = [1 \<mapsto> rootInode, 2 \<mapsto> std_dir 2, 3 \<mapsto> std_dir 3, 4 \<mapsto> std_dir 4, 5 \<mapsto> std_dir 5]"
  "k_inodes (std_tables 5 d) = [1 \<mapsto> rootInode, 2 \<mapsto> std_dir 2, 3 \<mapsto> std_dir 3, 4 \<mapsto> std_dir 4, 5 \<mapsto> std_dir 5, 6 \<mapsto> std_dir 6]"
  by (simp_all add: std_T std_dir_def new_entry_def link_dirent_def set_inode_def children_of_def put_inode_def emptyKFS_def
      rootInode_def Let_def fun_eq_iff)

definition std_ent :: "u32 \<Rightarrow> bytes \<Rightarrow> u32 \<Rightarrow> kfsDirent" where
  "std_ent p n i = \<lparr>d_parent = p, d_name = n, d_ino = i, d_dead = False\<rparr>"

lemma std_dirents:
  "k_dirents (std_tables 0 d) = []"
  "k_dirents (std_tables 1 d) = [std_ent 1 (str ''etc'') 2]"
  "k_dirents (std_tables 2 d) = [std_ent 1 (str ''etc'') 2, std_ent 1 (str ''home'') 3]"
  "k_dirents (std_tables 3 d) = [std_ent 1 (str ''etc'') 2, std_ent 1 (str ''home'') 3, std_ent 1 (str ''tmp'') 4]"
  "k_dirents (std_tables 4 d) = [std_ent 1 (str ''etc'') 2, std_ent 1 (str ''home'') 3, std_ent 1 (str ''tmp'') 4, std_ent 1 (str ''boot'') 5]"
  "k_dirents (std_tables 5 d) = [std_ent 1 (str ''etc'') 2, std_ent 1 (str ''home'') 3, std_ent 1 (str ''tmp'') 4, std_ent 1 (str ''boot'') 5,
     std_ent 5 (str ''modules'') 6]"
  by (simp_all add: std_T std_dir_def std_ent_def new_entry_def link_dirent_def set_inode_def put_inode_def emptyKFS_def
      rootInode_def Let_def)

lemma std_split:
  "splitPath (str ''/etc'') = Inr [str ''etc'']" "splitPath (str ''/home'') = Inr [str ''home'']"
  "splitPath (str ''/tmp'') = Inr [str ''tmp'']" "splitPath (str ''/boot'') = Inr [str ''boot'']"
  "splitPath (str ''/boot/modules'') = Inr [str ''boot'', str ''modules'']"
  "splitPath (str ''/etc/motd'') = Inr [str ''etc'', str ''motd'']"
  by (simp_all add: splitPath_def str_def)

lemma std_names:
  "str ''etc'' \<noteq> str ''home''" "str ''etc'' \<noteq> str ''tmp''" "str ''etc'' \<noteq> str ''boot''" "str ''home'' \<noteq> str ''tmp''"
  "str ''home'' \<noteq> str ''boot''" "str ''tmp'' \<noteq> str ''boot''" "str ''modules'' \<noteq> str ''motd''"
  by (simp_all add: str_def)

lemmas std_simps = std_fields std_dirents std_ent_def std_names std_names [symmetric] std_split std_dir_def rootInode_def findDirent_def
  children_of_def walkParent_def

lemma std_walk:
  "walkParent (std_tables 0 d) (str ''/etc'') = Inr (RootIno, str ''etc'')"
  "walkParent (std_tables 1 d) (str ''/home'') = Inr (RootIno, str ''home'')"
  "walkParent (std_tables 2 d) (str ''/tmp'') = Inr (RootIno, str ''tmp'')"
  "walkParent (std_tables 3 d) (str ''/boot'') = Inr (RootIno, str ''boot'')"
  "walkParent (std_tables 4 d) (str ''/boot/modules'') = Inr (5, str ''modules'')"
  "walkParent (std_tables 5 d) (str ''/etc/motd'') = Inr (2, str ''motd'')"
  by (simp_all add: std_simps del: std_tables.simps One_nat_def)

lemma std_absent:
  "findDirent (std_tables 0 d) RootIno (str ''etc'') = None"
  "findDirent (std_tables 1 d) RootIno (str ''home'') = None"
  "findDirent (std_tables 2 d) RootIno (str ''tmp'') = None"
  "findDirent (std_tables 3 d) RootIno (str ''boot'') = None"
  "findDirent (std_tables 4 d) 5 (str ''modules'') = None"
  "findDirent (std_tables 5 d) 2 (str ''motd'') = None"
  by (simp_all add: std_simps del: std_tables.simps One_nat_def)

lemma std_next:
  "k_nextIno (std_tables 0 d) = 2" "k_nextIno (std_tables 1 d) = 3" "k_nextIno (std_tables 2 d) = 4"
  "k_nextIno (std_tables 3 d) = 5" "k_nextIno (std_tables 4 d) = 6" "k_nextIno (std_tables 5 d) = 7"
  by (simp_all add: std_T std_dir_def new_entry_def link_dirent_def set_inode_def put_inode_def emptyKFS_def rootInode_def Let_def)

declare std_tables.simps [simp del]

lemma Stat_absent:
  assumes "walkParent T path = Inr (p, leaf)" "findDirent T p leaf = None" "splitPath path = Inr parts" "path \<noteq> [slash]"
  shows "Stat path T = Inl ErrNoEntry"
  using assms by (simp add: Stat_def)

context block_device
begin

lemma ensure_fresh:
  assumes "synced_with k k0" "same_tables k T" "walkParent T path = Inr (p, leaf)" "findDirent T p leaf = None"
    "splitPath path = Inr parts" "path \<noteq> [slash]" "length path \<le> 65520" "k_nextIno T \<noteq> NOT 0" "k_wOff k + 68 + length leaf \<le> k_logEnd k"
  obtains k' k1 where "ensure_dir (kfs_store D) path k = (Inr (), k')" "synced_with k' k1"
    "same_tables k' (new_entry p leaf (std_dir (k_nextIno T)) T)" "k_wOff k' \<le> k_wOff k + 68 + length leaf" "k_logEnd k' = k_logEnd k"
proof -
  have st: "Stat path k = Inl ErrNoEntry" using Stat_same [OF assms(2)] Stat_absent [OF assms(3-6)] by simp
  obtain k' k1 where m: "Mkdir D path k = (Inr (), k')" "synced_with k' k1"
    "same_tables k' (new_entry p leaf \<lparr>i_ino = k_nextIno T, i_uid = 0, i_kind = KindDir, i_size = 0\<rparr> T)"
    "k_wOff k' \<le> k_wOff k + 68 + length leaf" "k_logEnd k' = k_logEnd k"
    by (rule Mkdir_fresh [OF assms(1-4,8,7,9)])
  show ?thesis
    by (rule that [OF _ m(2)]) (use m in \<open>simp_all add: ensure_dir_def kfs_store_def st best_effort_def std_dir_def\<close>)
qed

text \<open>On the tables of a fresh volume the five standard directories are made.\<close>

lemma ensure_standard:
  assumes "synced_with k k0" "same_tables k (std_tables 0 d)" "k_wOff k + 1000 \<le> k_logEnd k"
  obtains k' k1 where "ensure_dirs (kfs_store D) standard_dirs k = (Inr (), k')" "synced_with k' k1"
    "same_tables k' (std_tables 5 d)" "k_wOff k' \<le> k_wOff k + 400" "k_logEnd k' = k_logEnd k"
proof -
  note l = str_def
  obtain k1 s1 where 1: "ensure_dir (kfs_store D) (str ''/etc'') k = (Inr (), k1)" "synced_with k1 s1"
    "same_tables k1 (std_tables 1 d)" "k_wOff k1 \<le> k_wOff k + 68 + length (str ''etc'')" "k_logEnd k1 = k_logEnd k"
    unfolding std_T(1)
    by (rule ensure_fresh [OF assms(1,2) std_walk(1) std_absent(1) std_split(1)]) (use assms(3) in \<open>simp_all add: std_next(1) l\<close>)
  obtain k2 s2 where 2: "ensure_dir (kfs_store D) (str ''/home'') k1 = (Inr (), k2)" "synced_with k2 s2"
    "same_tables k2 (std_tables 2 d)" "k_wOff k2 \<le> k_wOff k1 + 68 + length (str ''home'')" "k_logEnd k2 = k_logEnd k1"
    unfolding std_T(2)
    by (rule ensure_fresh [OF 1(2,3) std_walk(2) std_absent(2) std_split(2)]) (use assms(3) 1(4,5) in \<open>simp_all add: std_next(2) l del: One_nat_def\<close>)
  obtain k3 s3 where 3: "ensure_dir (kfs_store D) (str ''/tmp'') k2 = (Inr (), k3)" "synced_with k3 s3"
    "same_tables k3 (std_tables 3 d)" "k_wOff k3 \<le> k_wOff k2 + 68 + length (str ''tmp'')" "k_logEnd k3 = k_logEnd k2"
    unfolding std_T(3)
    by (rule ensure_fresh [OF 2(2,3) std_walk(3) std_absent(3) std_split(3)]) (use assms(3) 1(4,5) 2(4,5) in \<open>simp_all add: std_next(3) l\<close>)
  obtain k4 s4 where 4: "ensure_dir (kfs_store D) (str ''/boot'') k3 = (Inr (), k4)" "synced_with k4 s4"
    "same_tables k4 (std_tables 4 d)" "k_wOff k4 \<le> k_wOff k3 + 68 + length (str ''boot'')" "k_logEnd k4 = k_logEnd k3"
    unfolding std_T(4)
    by (rule ensure_fresh [OF 3(2,3) std_walk(4) std_absent(4) std_split(4)]) (use assms(3) 1(4,5) 2(4,5) 3(4,5) in \<open>simp_all add: std_next(4) l\<close>)
  obtain k5 s5 where 5: "ensure_dir (kfs_store D) (str ''/boot/modules'') k4 = (Inr (), k5)" "synced_with k5 s5"
    "same_tables k5 (std_tables 5 d)" "k_wOff k5 \<le> k_wOff k4 + 68 + length (str ''modules'')" "k_logEnd k5 = k_logEnd k4"
    unfolding std_T(5)
    by (rule ensure_fresh [OF 4(2,3) std_walk(5) std_absent(5) std_split(5)])
       (use assms(3) 1(4,5) 2(4,5) 3(4,5) 4(4,5) in \<open>simp_all add: std_next(5) l\<close>)
  show ?thesis
    by (rule that [OF _ 5(2,3)]) (use 1(1,4,5) 2(1,4,5) 3(1,4,5) 4(1,4,5) 5(1,4,5) in \<open>simp_all add: standard_dirs_def l\<close>)
qed

end

text \<open>The welcome file, and the tables once it is written.\<close>

definition std_motd :: "u32 \<Rightarrow> 'd \<Rightarrow> 'd KFS" where
  "std_motd n d = (let T = new_entry 2 (str ''motd'') \<lparr>i_ino = 7, i_uid = 0, i_kind = KindFile, i_size = 0\<rparr> (std_tables 5 d)
     in T\<lparr>k_inodes := (k_inodes T)(7 \<mapsto> \<lparr>i_ino = 7, i_uid = 0, i_kind = KindFile, i_size = n\<rparr>)\<rparr>)"

lemma motd_fields:
  "k_children (std_motd n d) = [1 \<mapsto> [0, 1, 2, 3], 2 \<mapsto> [5], 3 \<mapsto> [], 4 \<mapsto> [], 5 \<mapsto> [4], 6 \<mapsto> []]"
  "k_inodes (std_motd n d) = [1 \<mapsto> rootInode, 2 \<mapsto> std_dir 2, 3 \<mapsto> std_dir 3, 4 \<mapsto> std_dir 4, 5 \<mapsto> std_dir 5, 6 \<mapsto> std_dir 6,
     7 \<mapsto> \<lparr>i_ino = 7, i_uid = 0, i_kind = KindFile, i_size = n\<rparr>]"
  "k_dirents (std_motd n d) = [std_ent 1 (str ''etc'') 2, std_ent 1 (str ''home'') 3, std_ent 1 (str ''tmp'') 4, std_ent 1 (str ''boot'') 5,
     std_ent 5 (str ''modules'') 6, std_ent 2 (str ''motd'') 7]"
  "k_nextIno (std_motd n d) = 8"
  by (simp_all add: std_motd_def new_entry_def link_dirent_def set_inode_def children_of_def std_fields std_dirents std_ent_def
      Let_def fun_eq_iff)

lemma motd_walk:
  "walkParent (std_motd n d) (str ''/etc/motd'') = Inr (2, str ''motd'')" "findDirent (std_motd n d) 2 (str ''motd'') = Some 5"
  by (simp_all add: motd_fields std_simps)

lemma motd_Stat:
  assumes "path \<in> set standard_dirs"
  shows "\<exists>si. Stat path (std_motd n d) = Inr si \<and> si_Attr si = attrDir"
proof -
  have ne: "path \<noteq> [slash]" using assms by (auto simp: standard_dirs_def str_def)
  from assms show ?thesis
    unfolding standard_dirs_def by (auto simp: Stat_def ne motd_fields std_simps Let_def)
qed

lemma length_motd: "length motd = 38"
  by (simp add: motd_def str_def)

context block_device
begin

lemma first_start:
  assumes "synced_with k k0" "same_tables k (std_tables 0 d)" "k_wOff k + 1000 \<le> k_logEnd k"
  obtains k' k1 k2 where "ensureStandardDirs (kfs_store D) k = (Inr (), k')" "synced_with k' k1"
    "\<forall>path \<in> set standard_dirs. \<exists>si. Stat path k' = Inr si \<and> si_Attr si = attrDir"
    "ReadFile D (str ''/etc/motd'') 0 (replicate (length motd) 0) k' = (Inr (length motd, motd), k2)"
proof -
  let ?p = "str ''/etc/motd''" and ?nd = "\<lparr>i_ino = 7, i_uid = 0, i_kind = KindFile, i_size = 0\<rparr>"
  obtain k5 s5 where 5: "ensure_dirs (kfs_store D) standard_dirs k = (Inr (), k5)" "synced_with k5 s5"
    "same_tables k5 (std_tables 5 d)" "k_wOff k5 \<le> k_wOff k + 400" "k_logEnd k5 = k_logEnd k"
    by (rule ensure_standard [OF assms])
  have st: "Stat ?p k5 = Inl ErrNoEntry"
    unfolding Stat_same [OF 5(3)] by (rule Stat_absent [OF std_walk(6) std_absent(6) std_split(6)]) (simp add: str_def)
  obtain k6 s6 where 6: "Create D ?p k5 = (Inr (), k6)" "synced_with k6 s6"
    "same_tables k6 (new_entry 2 (str ''motd'') \<lparr>i_ino = k_nextIno (std_tables 5 d), i_uid = 0, i_kind = KindFile, i_size = 0\<rparr> (std_tables 5 d))"
    "k_wOff k6 \<le> k_wOff k5 + 68 + length (str ''motd'')" "k_logEnd k6 = k_logEnd k5"
    by (rule Create_fresh [OF 5(2,3) std_walk(6) std_absent(6)]) (use assms(3) 5(4,5) in \<open>simp_all add: std_next(6) str_def\<close>)
  have t6: "same_tables k6 (std_motd 0 d)"
    using 6(3) by (auto simp: std_next(6) std_motd_def same_tables_def new_entry_def set_inode_def link_dirent_def Let_def)
  have w6: "walkParent k6 ?p = Inr (2, str ''motd'')" "findDirent k6 2 (str ''motd'') = Some 5" "d_ino (k_dirents k6 ! 5) = 7"
      "k_inodes k6 7 = Some ?nd"
    using same_tables_walk [OF t6] motd_walk [of 0 d] t6 by (simp_all add: same_tables_def motd_fields std_ent_def)
  obtain k' where w: "WriteFile D ?p 0 motd k6 = (Inr (), k')"
    by (rule WriteFile_progress [OF 6(2) w6(1,2), of ?nd motd 0])
       (use assms(3) 5(4,5) 6(4,5) w6 in \<open>simp_all add: length_motd str_def\<close>)
  obtain s' where s': "synced_with k' s'" and t': "same_tables k' (k6\<lparr>k_inodes := (k_inodes k6)(7 \<mapsto>
       ?nd\<lparr>i_size := new_size 0 0 motd\<rparr>)\<rparr>)"
    by (rule WriteFile_synced [OF 6(2) w]) (use w6 in \<open>auto simp: length_motd\<close>)
  have t: "same_tables k' (std_motd (new_size 0 0 motd) d)"
    using t' t6 by (simp add: same_tables_def motd_fields)
  obtain k2 where r: "ReadFile D ?p 0 (replicate (length motd) 0) k' = (Inr (length motd, motd), k2)"
    using read_after_write [OF 6(2) w _ _ _] length_motd by fastforce
  have "ensureStandardDirs (kfs_store D) k = (Inr (), k')"
    using 5(1) 6(1) w st by (simp add: ensureStandardDirs_def kfs_store_def best_effort_def)
  then show ?thesis by (rule that [OF _ s' _ r]) (use motd_Stat Stat_same [OF t] in auto)
qed

end

section \<open>Properties\<close>

text \<open>
  The blank scan decides emptiness exactly.  On a whole-sector device of at least one sector the scan ends and
  answers True precisely when every byte of the device is zero; the device is left as it was.
\<close>

theorem deviceIsBlank_exact:
  assumes "block_device D dok img" "dok d" "512 \<le> length (img d)"
  shows "\<exists>d'. deviceIsBlank D d = Some (Inr (img d = replicate (length (img d)) 0), d') \<and> img d' = img d"
proof -
  have e: "(\<forall>b \<in> set (img d). b = 0) \<longleftrightarrow> img d = replicate (length (img d)) 0"
    by (metis in_set_replicate replicate_eqI)
  show ?thesis
    by (rule block_device.deviceIsBlank_img [OF assms]) (auto simp: e)
qed

theorem deviceIsBlank_exact_witness:
  "\<exists>d'. deviceIsBlank mem_dev (newMem 512 9) = Some (Inr True, d')"
proof -
  have "mem_inv (newMem 512 9)" "512 \<le> length (mem_buf (newMem 512 9))" "mem_buf (newMem 512 9) = replicate 4608 0"
    by (simp_all add: mem_inv_newMem) (simp_all add: newMem_def)
  then show ?thesis using deviceIsBlank_exact [OF mem.block_device_axioms, of "newMem 512 9"] by auto
qed

text \<open>
  C7: The service never destroys storage it did not create.  On a device that holds any non-zero byte, and
  without the explicit request to format, the start ends, it ends in serving a mounted volume, in refusal or in a
  panic of the mount, and every byte of the device is as before.
\<close>

theorem fs_boot_keeps_data:
  assumes "block_device D dok img" "dok d" "1024 \<le> length (img d)" "\<exists>b \<in> set (img d). b \<noteq> 0"
  shows "\<exists>out. fs_boot D False d = Some out \<and> img (boot_dev out) = img d \<and>
    ((\<exists>k. out = Serving k) \<or> (\<exists>d'. out = Refused d') \<or> (\<exists>d'. out = Crashed d'))"
  by (rule block_device.boot_keeps [OF assms]) blast

theorem fs_boot_keeps_data_witness:
  "\<exists>out. fs_boot mem_dev False \<lparr>mem_bs = 512, mem_n = 2, mem_buf = 1 # replicate 1023 0\<rparr> = Some out \<and>
     mem_buf (boot_dev out) = 1 # replicate 1023 0"
proof -
  let ?d = "\<lparr>mem_bs = 512, mem_n = 2, mem_buf = 1 # replicate 1023 0\<rparr>"
  have "mem_inv ?d" "1024 \<le> length (mem_buf ?d)" "\<exists>b \<in> set (mem_buf ?d). b \<noteq> 0" by (simp_all add: mem_inv_def)
  from fs_boot_keeps_data [OF mem.block_device_axioms this] show ?thesis by auto
qed

text \<open>
  C8: The first boot, end to end.  On the kernel's fresh RAM disk, for a session that holds the raw block
  capability, the service finds the device blank, formats it, mounts the empty volume, makes the standard directories
  and serves; every standard directory is there and the welcome file reads back.
\<close>

theorem fs_main_first_boot:
  fixes dv :: "'v devblk" and vrw :: "'v virtio_rw"
  assumes "devblk_attach True (devblk_init dv) = (r, dv')" "db_fsadm dv" "db_virtio dv = None"
  shows "\<exists>k k' k2. fs_main (ib_dev vrw) True mkfs [] (attachDevice vsec dv') = Some (Serving k, Some ([], Map.empty, k')) \<and>
    (\<forall>path \<in> set standard_dirs. \<exists>si. Stat path k' = Inr si \<and> si_Attr si = attrDir) \<and>
    ReadFile (vol_dev (ib_dev vrw)) (str ''/etc/motd'') 0 (replicate (length motd) 0) k' = (Inr (length motd, motd), k2)"
proof -
  let ?D = "ib_dev vrw" and ?d = "attachDevice vsec dv'"
  note a = attached_ok [OF assms]
  obtain k k0 where k: "fs_boot ?D mkfs ?d = Some (Serving k)"
    "block_device.synced_with (vol_inv ib_ok ib_img) (vol_img ib_img) k k0"
    "same_tables k (put_inode rootInode (emptyKFS (k_dev k) 0 [] 0))" "k_wOff k = LogStart + 35" "k_logEnd k = length (ib_img ?d)"
    by (rule imp.boot_blank [OF a(2), where mkfs = mkfs and vrw = vrw]) (use a(3) in simp_all)
  have t: "same_tables k (std_tables 0 (k_dev k))" using k(3) by (simp add: std_tables.simps)
  have sp: "k_wOff k + 1000 \<le> k_logEnd k" using k(4,5) a(3) by simp
  obtain k' k1 k2 where s: "ensureStandardDirs (kfs_store (vol_dev ?D)) k = (Inr (), k')"
    "block_device.synced_with (vol_inv ib_ok ib_img) (vol_img ib_img) k' k1"
    "\<forall>path \<in> set standard_dirs. \<exists>si. Stat path k' = Inr si \<and> si_Attr si = attrDir"
    "ReadFile (vol_dev ?D) (str ''/etc/motd'') 0 (replicate (length motd) 0) k' = (Inr (length motd, motd), k2)"
    by (rule block_device.first_start [OF imp.vol_block_device [where vrw = vrw] k(2) t sp])
  have "fs_main ?D True mkfs [] ?d = Some (Serving k, Some ([], Map.empty, k'))"
    using k(1) s(1) by (simp add: fs_main_def ServeFSOn_def)
  with s(3,4) show ?thesis by blast
qed

definition kernel0 :: "unit devblk" where
  "kernel0 = \<lparr>db_used = False, db_disk = None, db_nblocks = 0, db_fsadm = True, db_virtio = None\<rparr>"

theorem fs_main_first_boot_witness:
  "\<exists>dv' k k'. devblk_attach True (devblk_init kernel0) = (True, dv') \<and>
     fs_main (ib_dev (\<lambda>v put lba buf n. (- 1, buf, v))) True False [] (attachDevice (\<lambda>v. 0) dv') = Some (Serving k, Some ([], Map.empty, k'))"
proof -
  obtain r dv' where a: "devblk_attach True (devblk_init kernel0) = (r, dv')" by fastforce
  have k: "db_fsadm kernel0" "db_virtio kernel0 = None" by (simp_all add: kernel0_def)
  have "r" by (rule attached_ok(1) [OF a k])
  with a fs_main_first_boot [OF a k, where vrw = "\<lambda>v put lba buf n. (- 1, buf, v)" and mkfs = False and vsec = "\<lambda>v. 0"]
  show ?thesis by auto
qed

text \<open>
  Raw block access is a capability.  A session without it gets an error from every transfer, and neither its
  buffer nor the kernel's disk changes; with it, a transfer the kernel accepts on the RAM disk stays inside the disk.
\<close>

theorem blk_capability:
  "(\<not> db_fsadm dv \<longrightarrow> owned_blk_rw vrw put lba buf count dv = (- 1, buf, dv)) \<and>
   (owned_blk_rw vrw put lba buf count dv = (0, buf', dv') \<and> db_virtio dv = None \<longrightarrow>
     unat lba + unat count \<le> unat (db_nblocks dv) \<and> db_fsadm dv \<and>
     (\<not> put \<longrightarrow> dv' = dv) \<and> (put \<longrightarrow> buf' = buf))"
proof -
  have s: "unat ((ucast lba :: u64) + ucast count) = unat lba + unat count"
    using unat_u32_less [of lba] unat_u32_less [of count] by (simp add: unat_word_ariths unat_u32_u64)
  have le: "\<not> db_nblocks dv < ucast lba + ucast count \<longleftrightarrow> unat lba + unat count \<le> unat (db_nblocks dv)"
    by (simp only: word_less_nat_alt s not_less)
  show ?thesis
    using le by (auto simp: owned_blk_rw_def devblk_rw_def Let_def split: if_splits option.splits)
qed

theorem blk_capability_witness:
  "owned_blk_rw (\<lambda>v put lba buf n. (- 1, buf, v)) True 0 [1] 1 (kernel0\<lparr>db_fsadm := False\<rparr>) = (- 1, [1], kernel0\<lparr>db_fsadm := False\<rparr>)"
  using blk_capability [of "kernel0\<lparr>db_fsadm := False\<rparr>"] by simp

end
