(* ===== verification/Net_Wire.thy ===== *)
theory Net_Wire
  imports Prelude
begin

text \<open>
  The wire formats of the network service: big-endian fields (\<^verbatim>\<open>be.go\<close>), Ethernet
  frames and hardware addresses (\<^verbatim>\<open>eth.go\<close>), ARP packets and IPv4 addresses
  (\<^verbatim>\<open>arp.go\<close>), IPv4 and ICMP (\<^verbatim>\<open>ip.go\<close>), UDP datagrams
  (\<^verbatim>\<open>udp.go\<close>) and TCP segments (\<^verbatim>\<open>tcp.go\<close>), all under
  \<^verbatim>\<open>services/net\<close>.
\<close>

section \<open>Big-endian fields\<close>

definition be16 :: "u16 \<Rightarrow> bytes" where
  "be16 v = [ucast (drop_bit 8 v), ucast v]"

definition be32 :: "u32 \<Rightarrow> bytes" where
  "be32 v = [ucast (drop_bit 24 v), ucast (drop_bit 16 v), ucast (drop_bit 8 v), ucast v]"

text \<open>The code writes into a slice \<^verbatim>\<open>out[i:j]\<close>; here the offset is an argument.\<close>

definition BePut16 :: "bytes \<Rightarrow> nat \<Rightarrow> u16 \<Rightarrow> bytes" where
  "BePut16 b off v = go_copy b off (be16 v)"

definition BePut32 :: "bytes \<Rightarrow> nat \<Rightarrow> u32 \<Rightarrow> bytes" where
  "BePut32 b off v = go_copy b off (be32 v)"

definition BeGet16 :: "bytes \<Rightarrow> u16" where
  "BeGet16 b = push_bit 8 (ucast (b ! 0)) OR ucast (b ! 1)"

definition BeGet32 :: "bytes \<Rightarrow> u32" where
  "BeGet32 b = push_bit 24 (ucast (b ! 0)) OR push_bit 16 (ucast (b ! 1)) OR
     push_bit 8 (ucast (b ! 2)) OR ucast (b ! 3)"

section \<open>Ethernet\<close>

datatype nerr = ErrShortFrame | ErrBadMac | ErrBadMacOctet | ErrBadMacDigit | ErrBadARP
  | ErrBadIP | ErrBadIPOctet | ErrBadIPDigit | ErrIPv4 | ErrTooBig | ErrBadICMP | ErrUDP | ErrTCP
  | ErrArpTimeout | ErrNoRoute | ErrNoReply | ErrPortInUse | ErrNoPending | ErrClosedNet
  | ErrRingTooSmall | Deadlock

type_synonym MAC = bytes
type_synonym IP4 = bytes

abbreviation (input) EthHdrLen :: nat where "EthHdrLen \<equiv> 14"
abbreviation (input) EthMinLen :: nat where "EthMinLen \<equiv> 60"
abbreviation (input) EthPayloadM :: nat where "EthPayloadM \<equiv> 1512"
abbreviation (input) EthTypeARP :: u16 where "EthTypeARP \<equiv> 0x0806"
abbreviation (input) EthTypeIPv4 :: u16 where "EthTypeIPv4 \<equiv> 0x0800"

definition BroadcastMAC :: MAC where
  "BroadcastMAC = [0xff, 0xff, 0xff, 0xff, 0xff, 0xff]"

definition IsBroadcast :: "MAC \<Rightarrow> bool" where
  "IsBroadcast m \<longleftrightarrow> m = BroadcastMAC"

definition hexdigits :: bytes where
  "hexdigits = str ''0123456789abcdef''"

definition hexVal :: "byte \<Rightarrow> byte option" where
  "hexVal c =
     (if 0x30 \<le> c \<and> c \<le> 0x39 then Some (c - 0x30)
      else if 0x61 \<le> c \<and> c \<le> 0x66 then Some (c - 0x61 + 10)
      else if 0x41 \<le> c \<and> c \<le> 0x46 then Some (c - 0x41 + 10)
      else None)"

text \<open>\<^verbatim>\<open>MAC.String\<close>: two digits per byte, a colon after all but the last.\<close>

fun MAC_String :: "MAC \<Rightarrow> bytes" where
  "MAC_String [] = []"
| "MAC_String [b] = [hexdigits ! unat (drop_bit 4 b), hexdigits ! unat (b AND 0xf)]"
| "MAC_String (b # bs) = [hexdigits ! unat (drop_bit 4 b), hexdigits ! unat (b AND 0xf), 0x3A] @ MAC_String bs"

text \<open>\<^verbatim>\<open>bytes.Split\<close> at a one-byte separator.\<close>

fun bsplit :: "byte \<Rightarrow> bytes \<Rightarrow> bytes list" where
  "bsplit sep [] = [[]]"
| "bsplit sep (x # xs) =
     (if x = sep then [] # bsplit sep xs
      else case bsplit sep xs of [] \<Rightarrow> [[x]] | y # ys \<Rightarrow> (x # y) # ys)"

fun mac_octets :: "bytes list \<Rightarrow> nerr + bytes" where
  "mac_octets [] = Inr []"
| "mac_octets (p # ps) =
     (if length p \<noteq> 2 then Inl ErrBadMacOctet
      else case (hexVal (p ! 0), hexVal (p ! 1)) of
        (Some hi, Some lo) \<Rightarrow>
          (case mac_octets ps of Inl e \<Rightarrow> Inl e | Inr bs \<Rightarrow> Inr ((push_bit 4 hi OR lo) # bs))
      | _ \<Rightarrow> Inl ErrBadMacDigit)"

definition ParseMAC :: "bytes \<Rightarrow> nerr + MAC" where
  "ParseMAC s =
     (let parts = bsplit 0x3A s
      in if length parts \<noteq> 6 then Inl ErrBadMac else mac_octets parts)"

record EthFrame =
  eDst :: MAC
  eSrc :: MAC
  eType :: u16
  ePayload :: bytes

definition ParseEth :: "bytes \<Rightarrow> nerr + EthFrame" where
  "ParseEth raw =
     (if length raw < EthHdrLen then Inl ErrShortFrame
      else Inr \<lparr>eDst = window 0 6 raw, eSrc = window 6 6 raw, eType = BeGet16 (drop 12 raw),
                ePayload = drop EthHdrLen raw\<rparr>)"

definition BuildEth :: "MAC \<Rightarrow> MAC \<Rightarrow> u16 \<Rightarrow> bytes \<Rightarrow> bytes" where
  "BuildEth dst src ethertype payload =
     (let n = EthHdrLen + length payload;
          n = (if n < EthMinLen then EthMinLen else n);
          out = replicate n 0;
          out = go_copy out 0 dst;
          out = go_copy out 6 src;
          out = BePut16 out 12 ethertype;
          out = go_copy out EthHdrLen payload
      in out)"

section \<open>ARP and IPv4 addresses\<close>

abbreviation (input) ARPHwEther :: u16 where "ARPHwEther \<equiv> 1"
abbreviation (input) ARPProtoIPv4 :: u16 where "ARPProtoIPv4 \<equiv> 0x0800"
abbreviation (input) ARPLen :: nat where "ARPLen \<equiv> 28"
abbreviation (input) ARPOpRequest :: u16 where "ARPOpRequest \<equiv> 1"
abbreviation (input) ARPOpReply :: u16 where "ARPOpReply \<equiv> 2"

record ARPPacket =
  Oper :: u16
  SrcMAC :: MAC
  SrcIP :: IP4
  DstMAC :: MAC
  DstIP :: IP4

definition ParseARP :: "bytes \<Rightarrow> nerr + ARPPacket" where
  "ParseARP p =
     (if length p < ARPLen then Inl ErrShortFrame
      else if BeGet16 p \<noteq> ARPHwEther \<or> BeGet16 (drop 2 p) \<noteq> ARPProtoIPv4 \<or> p ! 4 \<noteq> 6 \<or> p ! 5 \<noteq> 4
      then Inl ErrBadARP
      else Inr \<lparr>Oper = BeGet16 (drop 6 p), SrcMAC = window 8 6 p, SrcIP = window 14 4 p,
                DstMAC = window 18 6 p, DstIP = window 24 4 p\<rparr>)"

definition ARP_Build :: "ARPPacket \<Rightarrow> bytes" where
  "ARP_Build a =
     (let p = replicate ARPLen 0;
          p = BePut16 p 0 ARPHwEther;
          p = BePut16 p 2 ARPProtoIPv4;
          p = p[4 := 6, 5 := 4];
          p = BePut16 p 6 (Oper a);
          p = go_copy p 8 (SrcMAC a);
          p = go_copy p 14 (SrcIP a);
          p = go_copy p 18 (DstMAC a);
          p = go_copy p 24 (DstIP a)
      in p)"

text \<open>\<^verbatim>\<open>uitoa64\<close> fills its array from the end; the digits come out in order.\<close>

fun uitoa_loop :: "nat \<Rightarrow> bytes \<Rightarrow> bytes" where
  "uitoa_loop v acc = (if v = 0 then acc else uitoa_loop (v div 10) (of_nat (0x30 + v mod 10) # acc))"

declare uitoa_loop.simps [simp del]

definition uitoa64 :: "u64 \<Rightarrow> bytes" where
  "uitoa64 v = (if v = 0 then [0x30] else uitoa_loop (unat v) [])"

definition IP4_String :: "IP4 \<Rightarrow> bytes" where
  "IP4_String ip = uitoa64 (ucast (ip ! 0)) @ [0x2E] @ uitoa64 (ucast (ip ! 1)) @ [0x2E] @
     uitoa64 (ucast (ip ! 2)) @ [0x2E] @ uitoa64 (ucast (ip ! 3))"

fun ip_digits :: "nat \<Rightarrow> bytes \<Rightarrow> nat option" where
  "ip_digits v [] = Some v"
| "ip_digits v (c # cs) =
     (if c < 0x30 \<or> c > 0x39 then None else ip_digits (v * 10 + unat (c - 0x30)) cs)"

fun ip_octets :: "bytes list \<Rightarrow> nerr + bytes" where
  "ip_octets [] = Inr []"
| "ip_octets (p # ps) =
     (if length p = 0 \<or> length p > 3 then Inl ErrBadIPOctet
      else case ip_digits 0 p of
        None \<Rightarrow> Inl ErrBadIPDigit
      | Some v \<Rightarrow>
          if v > 255 then Inl ErrBadIPOctet
          else case ip_octets ps of Inl e \<Rightarrow> Inl e | Inr bs \<Rightarrow> Inr (of_nat v # bs))"

definition ParseIP :: "bytes \<Rightarrow> nerr + IP4" where
  "ParseIP s =
     (let parts = bsplit 0x2E s
      in if length parts \<noteq> 4 then Inl ErrBadIP else ip_octets parts)"

section \<open>IPv4 and ICMP\<close>

abbreviation (input) IP4HdrLen :: nat where "IP4HdrLen \<equiv> 20"
abbreviation (input) IP4ProtoICMP :: byte where "IP4ProtoICMP \<equiv> 1"
abbreviation (input) IP4ProtoUDP :: byte where "IP4ProtoUDP \<equiv> 17"
abbreviation (input) IP4ProtoTCP :: byte where "IP4ProtoTCP \<equiv> 6"

record IP4Packet =
  pSrc :: IP4
  pDst :: IP4
  pProto :: byte
  pTTL :: byte
  pPayload :: bytes

text \<open>The 32-bit sum of the 16-bit words, a trailing byte counting as the high half.\<close>

fun word_sum :: "u32 \<Rightarrow> bytes \<Rightarrow> u32" where
  "word_sum s [] = s"
| "word_sum s [b] = s + push_bit 8 (ucast b)"
| "word_sum s (b # c # bs) = word_sum (s + ucast (BeGet16 [b, c])) bs"

text \<open>\<^verbatim>\<open>for sum>>16 != 0 { sum = sum&0xffff + sum>>16 }\<close>.\<close>

function fold16 :: "u32 \<Rightarrow> u32" where
  "fold16 s = (if drop_bit 16 s \<noteq> 0 then fold16 ((s AND 0xffff) + drop_bit 16 s) else s)"
  by pat_completeness auto

lemma u32_split: "unat (s AND 0xffff :: u32) = unat s mod 65536" "unat (drop_bit 16 s :: u32) = unat s div 65536"
proof -
  have "s AND 0xffff = s mod 65536" using take_bit_eq_mask [of 16 s] by (simp add: mask_eq_exp_minus_1 take_bit_eq_mod)
  then show "unat (s AND 0xffff) = unat s mod 65536" by (simp add: unat_mod)
  show "unat (drop_bit 16 s) = unat s div 65536" by (simp add: drop_bit_eq_div unat_div)
qed

lemma unat_fold_step: "unat ((s AND 0xffff) + drop_bit 16 s :: u32) = unat s mod 65536 + unat s div 65536"
proof -
  have "unat s < 2 ^ 32" using unsigned_less [of s] by simp
  then have "unat s mod 65536 + unat s div 65536 < 2 ^ 32" by linarith
  then show ?thesis by (simp add: unat_word_ariths u32_split)
qed

termination fold16
proof (relation "measure unat")
  show "wf (measure (unat :: u32 \<Rightarrow> nat))" by simp
  fix s :: u32
  assume "drop_bit 16 s \<noteq> 0"
  then have "unat s div 65536 \<noteq> 0" by (metis u32_split(2) unat_eq_zero)
  then have "unat s mod 65536 + unat s div 65536 < unat s"
    using div_mult_mod_eq [of "unat s" 65536] by linarith
  then show "((s AND 0xffff) + drop_bit 16 s, s) \<in> measure unat" by (simp add: unat_fold_step)
qed

declare fold16.simps [simp del]

definition Checksum :: "bytes \<Rightarrow> u16" where
  "Checksum b = NOT (ucast (fold16 (word_sum 0 b)))"

definition ParseIP4 :: "bytes \<Rightarrow> nerr + IP4Packet" where
  "ParseIP4 p =
     (if length p < IP4HdrLen then Inl ErrShortFrame
      else if drop_bit 4 (p ! 0) \<noteq> 4 \<or> (p ! 0) AND 0x0f \<noteq> 5 then Inl ErrIPv4
      else
        let total = unat (BeGet16 (drop 2 p))
        in if total < IP4HdrLen \<or> total > length p then Inl ErrIPv4
           else if BeGet16 (drop 6 p) AND 0x1FFF \<noteq> 0 then Inl ErrIPv4
           else if Checksum (take IP4HdrLen p) \<noteq> 0 then Inl ErrIPv4
           else Inr \<lparr>pSrc = window 12 4 p, pDst = window 16 4 p, pProto = p ! 9, pTTL = p ! 8,
                     pPayload = drop IP4HdrLen (take total p)\<rparr>)"

definition IP4_Build :: "IP4Packet \<Rightarrow> nerr + bytes" where
  "IP4_Build p =
     (if length (pPayload p) > EthPayloadM - IP4HdrLen then Inl ErrTooBig
      else
        let out = replicate (IP4HdrLen + length (pPayload p)) 0;
            out = out[0 := 0x45];
            out = BePut16 out 2 (of_nat (length out));
            out = out[6 := 0x40, 7 := 0x00];
            out = out[8 := pTTL p];
            out = (if out ! 8 = 0 then out[8 := 64] else out);
            out = out[9 := pProto p];
            out = go_copy out 12 (pSrc p);
            out = go_copy out 16 (pDst p);
            out = BePut16 out 10 (Checksum (take IP4HdrLen out));
            out = go_copy out IP4HdrLen (pPayload p)
        in Inr out)"

abbreviation (input) ICMPEchoReply :: byte where "ICMPEchoReply \<equiv> 0"
abbreviation (input) ICMPEchoRequest :: byte where "ICMPEchoRequest \<equiv> 8"

record ICMPPacket =
  iType :: byte
  iCode :: byte
  iID :: u16
  iSeq :: u16
  iData :: bytes

definition ParseICMP :: "bytes \<Rightarrow> nerr + ICMPPacket" where
  "ParseICMP p =
     (if length p < 8 then Inl ErrShortFrame
      else if Checksum p \<noteq> 0 then Inl ErrBadICMP
      else Inr \<lparr>iType = p ! 0, iCode = p ! 1, iID = BeGet16 (drop 4 p), iSeq = BeGet16 (drop 6 p),
                iData = drop 8 p\<rparr>)"

definition ICMP_Build :: "ICMPPacket \<Rightarrow> bytes" where
  "ICMP_Build c =
     (let out = replicate (8 + length (iData c)) 0;
          out = out[0 := iType c];
          out = out[1 := iCode c];
          out = BePut16 out 4 (iID c);
          out = BePut16 out 6 (iSeq c);
          out = go_copy out 8 (iData c);
          out = BePut16 out 2 (Checksum out)
      in out)"

definition BuildEchoReply :: "ICMPPacket \<Rightarrow> bytes" where
  "BuildEchoReply req =
     ICMP_Build \<lparr>iType = ICMPEchoReply, iCode = 0, iID = iID req, iSeq = iSeq req, iData = iData req\<rparr>"

section \<open>UDP\<close>

abbreviation (input) UDPHdrLen :: nat where "UDPHdrLen \<equiv> 8"
abbreviation (input) zeroIP :: IP4 where "zeroIP \<equiv> [0, 0, 0, 0]"

record UDPDatagram =
  uSrcPort :: u16
  uDstPort :: u16
  uData :: bytes
  checksumSrc :: IP4
  checksumDst :: IP4

definition ParseUDP :: "bytes \<Rightarrow> nerr + UDPDatagram" where
  "ParseUDP p =
     (if length p < UDPHdrLen then Inl ErrShortFrame
      else
        let total = unat (BeGet16 (drop 4 p))
        in if total < UDPHdrLen \<or> total > length p then Inl ErrUDP
           else Inr \<lparr>uSrcPort = BeGet16 p, uDstPort = BeGet16 (drop 2 p),
                     uData = drop UDPHdrLen (take total p), checksumSrc = zeroIP, checksumDst = zeroIP\<rparr>)"

text \<open>The pseudo-header that UDP and TCP prepend before summing, padded to an even length.\<close>

definition pseudo :: "IP4 \<Rightarrow> IP4 \<Rightarrow> byte \<Rightarrow> bytes \<Rightarrow> bytes" where
  "pseudo src dst proto seg =
     (let buf = src @ dst @ [0, proto] @ be16 (of_nat (length seg)) @ seg
      in if length buf mod 2 \<noteq> 0 then buf @ [0] else buf)"

definition UDP_Build :: "UDPDatagram \<Rightarrow> bytes" where
  "UDP_Build d =
     (let out = replicate (UDPHdrLen + length (uData d)) 0;
          out = BePut16 out 0 (uSrcPort d);
          out = BePut16 out 2 (uDstPort d);
          out = BePut16 out 4 (of_nat (length out));
          out = go_copy out UDPHdrLen (uData d)
      in if checksumSrc d = zeroIP \<and> checksumDst d = zeroIP then BePut16 out 6 0
         else BePut16 out 6
                (NOT (ucast (fold16 (word_sum 0 (pseudo (checksumSrc d) (checksumDst d) 17 out))))))"

section \<open>TCP segments\<close>

abbreviation (input) TCPHdrLen :: nat where "TCPHdrLen \<equiv> 20"
abbreviation (input) TCPFin :: byte where "TCPFin \<equiv> 1"
abbreviation (input) TCPSyn :: byte where "TCPSyn \<equiv> 2"
abbreviation (input) TCPRst :: byte where "TCPRst \<equiv> 4"
abbreviation (input) TCPPsh :: byte where "TCPPsh \<equiv> 8"
abbreviation (input) TCPAck :: byte where "TCPAck \<equiv> 16"

record TCPSegment =
  tSrcPort :: u16
  tDstPort :: u16
  tSeq :: u32
  tAck :: u32
  tFlags :: byte
  tWindow :: u16
  tPayload :: bytes

definition ParseTCP :: "bytes \<Rightarrow> nerr + TCPSegment" where
  "ParseTCP p =
     (if length p < TCPHdrLen then Inl ErrShortFrame
      else
        let off = unat (drop_bit 4 (p ! 12)) * 4
        in if off < TCPHdrLen \<or> off > length p then Inl ErrTCP
           else Inr \<lparr>tSrcPort = BeGet16 p, tDstPort = BeGet16 (drop 2 p),
                     tSeq = BeGet32 (drop 4 p), tAck = BeGet32 (drop 8 p),
                     tFlags = (p ! 13) AND 0x1f, tWindow = BeGet16 (drop 14 p),
                     tPayload = drop off p\<rparr>)"

definition TCP_Build :: "TCPSegment \<Rightarrow> bytes" where
  "TCP_Build t =
     (let out = replicate (TCPHdrLen + length (tPayload t)) 0;
          out = BePut16 out 0 (tSrcPort t);
          out = BePut16 out 2 (tDstPort t);
          out = BePut32 out 4 (tSeq t);
          out = BePut32 out 8 (tAck t);
          out = out[12 := push_bit 4 5];
          out = out[13 := tFlags t AND 0x1f];
          out = BePut16 out 14 (tWindow t);
          out = go_copy out TCPHdrLen (tPayload t)
      in out)"

text \<open>Sequence numbers compare by the sign of their 32-bit difference.\<close>

definition seqGT :: "u32 \<Rightarrow> u32 \<Rightarrow> bool" where
  "seqGT a b \<longleftrightarrow> sint (a - b) > 0"

definition seqGE :: "u32 \<Rightarrow> u32 \<Rightarrow> bool" where
  "seqGE a b \<longleftrightarrow> a = b \<or> seqGT a b"

end
