(* ===== verification/Net_Codec.thy ===== *)
theory Net_Codec
  imports Net_Wire
begin

text \<open>
  What the wire formats of \<^verbatim>\<open>services/net\<close> guarantee: every message the service builds is
  read back field for field, the Internet checksum of a built header verifies, and a
  change of one 16-bit word of a summed message is noticed.
\<close>

section \<open>Field access\<close>

lemma be_lengths [simp]: "length (be16 v) = 2" "length (be32 w) = 4"
  by (simp_all add: be16_def be32_def)

lemma BeGet16_be16 [simp]: "BeGet16 (be16 v @ xs) = v" "BeGet16 (be16 v) = v"
  unfolding BeGet16_def be16_def
  by (rule bit_word_eqI, auto simp: bit_simps dest: bit_imp_le_length)+

lemma BeGet32_be32 [simp]: "BeGet32 (be32 v @ xs) = v"
proof (rule bit_word_eqI)
  fix n assume "n < LENGTH(32)"
  then show "bit (BeGet32 (be32 v @ xs)) n = bit v n"
    by (cases n rule: octet_cases) (simp_all add: BeGet32_def be32_def bit_simps less_diff_conv2)
qed

lemma be16_BeGet16: "be16 (BeGet16 (a # b # xs)) = [a, b]"
  unfolding BeGet16_def be16_def
  by (auto intro!: bit_word_eqI simp: bit_simps bit_byte_ge dest: bit_imp_le_length)

lemma replicate_split:
  "replicate (8 + n) (0 :: byte) = [0,0,0,0,0,0,0,0] @ replicate n 0"
  "replicate (14 + n) (0 :: byte) = [0,0,0,0,0,0,0,0,0,0,0,0,0,0] @ replicate n 0"
  "replicate (20 + n) (0 :: byte) = [0,0,0,0,0,0,0,0,0,0,0,0,0,0,0,0,0,0,0,0] @ replicate n 0"
  "replicate 28 (0 :: byte) = [0,0,0,0,0,0,0,0,0,0,0,0,0,0,0,0,0,0,0,0,0,0,0,0,0,0,0,0]"
  by (simp_all add: eval_nat_numeral)

lemma length_6E:
  assumes "length m = 6"
  obtains a b c d e f where "m = [a, b, c, d, e, f]"
  using assms by (auto simp: length_Suc_conv eval_nat_numeral)

lemma length_4E:
  assumes "length m = 4"
  obtains a b c d where "m = [a, b, c, d]"
  using assms by (auto simp: length_Suc_conv eval_nat_numeral)

lemma go_copy_Cons:
  "go_copy (x # xs) 0 (y # ys) = y # go_copy xs 0 ys"
  "go_copy (x # xs) (numeral k) ys = x # go_copy xs (pred_numeral k) ys"
  "go_copy (x # xs) (Suc n) ys = x # go_copy xs n ys"
  by (simp_all add: go_copy_def numeral_eq_Suc)

lemmas put_simps = BePut16_def BePut32_def go_copy_Cons be16_def be32_def replicate_split

text \<open>Each builder, as the concatenation of its fields.\<close>

lemma eth_fill:
  assumes "length dst = 6" "length src = 6" "length pl \<le> k"
  shows "go_copy (BePut16 (go_copy (go_copy (replicate (14 + k) 0) 0 dst) 6 src) 12 ty) 14 pl =
    dst @ src @ be16 ty @ pl @ replicate (k - length pl) 0"
  using assms(1,2) assms(3) by (elim length_6E) (simp add: put_simps go_copy_def [of "replicate k 0"])

lemma BuildEth_fields:
  assumes "length dst = 6" "length src = 6"
  shows "BuildEth dst src ty pl = dst @ src @ be16 ty @ pl @ replicate (46 - length pl) 0"
proof (cases "length pl < 46")
  case True
  then show ?thesis using eth_fill [OF assms, of pl 46 ty] by (simp add: BuildEth_def Let_def)
next
  case False
  then show ?thesis using eth_fill [OF assms, of pl "length pl" ty] by (simp add: BuildEth_def Let_def)
qed

lemma ARP_Build_fields:
  assumes "length (SrcMAC a) = 6" "length (DstMAC a) = 6" "length (SrcIP a) = 4" "length (DstIP a) = 4"
  shows "ARP_Build a =
    be16 1 @ be16 0x0800 @ [6, 4] @ be16 (Oper a) @ SrcMAC a @ SrcIP a @ DstMAC a @ DstIP a"
  using assms by (elim length_6E length_4E) (simp add: ARP_Build_def Let_def put_simps)

lemma ICMP_Build_fields:
  "ICMP_Build c = [iType c, iCode c] @
     be16 (Checksum ([iType c, iCode c, 0, 0] @ be16 (iID c) @ be16 (iSeq c) @ iData c)) @
     be16 (iID c) @ be16 (iSeq c) @ iData c"
  by (simp add: ICMP_Build_def Let_def put_simps)

lemma TCP_Build_fields:
  "TCP_Build t = be16 (tSrcPort t) @ be16 (tDstPort t) @ be32 (tSeq t) @ be32 (tAck t) @
     [0x50, tFlags t AND 0x1f] @ be16 (tWindow t) @ [0, 0, 0, 0] @ tPayload t"
  by (simp add: TCP_Build_def Let_def put_simps)

definition ip_ttl :: "byte \<Rightarrow> byte" where
  "ip_ttl t = (if t = 0 then 64 else t)"

lemma IP4_Build_fields:
  assumes "length (pPayload p) \<le> 1492" "length (pSrc p) = 4" "length (pDst p) = 4"
  shows "IP4_Build p = Inr (([0x45, 0] @ be16 (of_nat (20 + length (pPayload p))) @ [0, 0, 0x40, 0, ip_ttl (pTTL p), pProto p]) @
     be16 (Checksum (([0x45, 0] @ be16 (of_nat (20 + length (pPayload p))) @ [0, 0, 0x40, 0, ip_ttl (pTTL p), pProto p]) @
       [0, 0] @ pSrc p @ pDst p)) @ (pSrc p @ pDst p) @ pPayload p)"
  using assms by (elim length_4E) (simp add: IP4_Build_def Let_def put_simps ip_ttl_def)

definition udp_sum :: "UDPDatagram \<Rightarrow> bytes \<Rightarrow> u16" where
  "udp_sum d out =
     (if checksumSrc d = zeroIP \<and> checksumDst d = zeroIP then 0
      else NOT (ucast (fold16 (word_sum 0 (pseudo (checksumSrc d) (checksumDst d) 17 out)))))"

lemma UDP_Build_fields:
  "UDP_Build d = (be16 (uSrcPort d) @ be16 (uDstPort d) @ be16 (of_nat (8 + length (uData d)))) @
     be16 (udp_sum d ((be16 (uSrcPort d) @ be16 (uDstPort d) @ be16 (of_nat (8 + length (uData d)))) @ [0, 0] @ uData d)) @
     uData d"
  by (simp add: UDP_Build_def Let_def put_simps udp_sum_def)

section \<open>The Internet checksum\<close>

text \<open>The sum of the 16-bit words as a number; the 32-bit accumulator never overflows on a frame.\<close>

fun nsum :: "bytes \<Rightarrow> nat" where
  "nsum [] = 0"
| "nsum [b] = 256 * unat b"
| "nsum (b # c # bs) = 256 * unat b + unat c + nsum bs"

lemma unat_up [simp]:
  "unat (ucast (b :: byte) :: u16) = unat b" "unat (ucast (b :: byte) :: u32) = unat b"
  "unat (ucast (v :: u16) :: u32) = unat v"
proof -
  have "unat b < 2 ^ 8" "unat v < 2 ^ 16" using unsigned_less [of b] unsigned_less [of v] by simp_all
  then show "unat (ucast b :: u16) = unat b" "unat (ucast b :: u32) = unat b" "unat (ucast v :: u32) = unat v"
    by (simp_all add: unsigned_ucast_eq take_bit_nat_eq_self)
qed

lemma unat_BeGet16: "unat (BeGet16 (b # c # xs)) = 256 * unat b + unat c"
proof -
  have s: "push_bit 8 (ucast b) OR ucast c = push_bit 8 (ucast b) + (ucast c :: u16)"
    by (rule disjunctive_add [symmetric]) (auto simp: bit_simps dest: bit_byte_ge bit_imp_le_length)
  have "unat b < 256" "unat c < 256" using unsigned_less [of b] unsigned_less [of c] by simp_all
  then show ?thesis
    unfolding BeGet16_def nth_Cons_0 One_nat_def nth_Cons_Suc s
    by (simp add: push_bit_eq_mult unat_word_ariths mult.commute)
qed

lemma unat_byte_bound: "unat (b :: byte) \<le> 255"
proof -
  have "unat b < 256" using unsigned_less [of b] by simp
  then show ?thesis by simp
qed

lemma nsum_bound: "nsum b \<le> 65535 * ((length b + 1) div 2)"
proof (induction b rule: nsum.induct)
  case (2 b)
  then show ?case using unat_byte_bound [of b] by simp
next
  case (3 b c bs)
  then show ?case using unat_byte_bound [of b] unat_byte_bound [of c] by simp
qed simp

lemma unat_word_sum: "unat s + nsum b < 2 ^ 32 \<Longrightarrow> unat (word_sum s b) = unat s + nsum b"
proof (induction s b rule: word_sum.induct)
  case (2 s b)
  have "unat (push_bit 8 (ucast b :: u32)) = 256 * unat b"
    using unat_byte_bound [of b] by (simp add: push_bit_eq_mult unat_word_ariths)
  then show ?case using 2 by (simp add: unat_word_ariths)
next
  case (3 s b c bs)
  have "unat (ucast (BeGet16 [b, c]) :: u32) = 256 * unat b + unat c"
    by (simp add: unat_BeGet16)
  then have "unat (s + ucast (BeGet16 [b, c])) = unat s + (256 * unat b + unat c)"
    using 3(2) by (simp add: unat_word_ariths)
  then show ?case using 3 by simp
qed simp

lemma nsum_append: "even (length xs) \<Longrightarrow> nsum (xs @ ys) = nsum xs + nsum ys"
  by (induction xs rule: nsum.induct) auto

lemma nsum_be16 [simp]: "nsum (be16 v) = unat v" "nsum (be16 v @ xs) = unat v + nsum xs"
  using unat_BeGet16 [of "ucast (drop_bit 8 v)" "ucast v" "[]"] BeGet16_be16(2) [of v]
  by (simp_all add: be16_def)

lemma unat_fold16:
  "unat (fold16 s) < 65536 \<and> unat (fold16 s) mod 65535 = unat s mod 65535 \<and> (fold16 s = 0 \<longleftrightarrow> s = 0)"
proof (induction s rule: fold16.induct)
  case (1 s)
  let ?t = "(s AND 0xffff) + drop_bit 16 s"
  show ?case
  proof (cases "drop_bit 16 s = 0")
    case True
    then have "unat s div 65536 = 0" by (metis u32_split(2) unat_eq_zero)
    then show ?thesis using True by (simp add: fold16.simps [of s] div_eq_0_iff)
  next
    case False
    then have q: "unat s div 65536 \<noteq> 0" by (metis u32_split(2) unat_eq_zero)
    have t: "unat ?t = unat s mod 65536 + unat s div 65536" by (rule unat_fold_step)
    have "unat s = 65535 * (unat s div 65536) + unat ?t" using t by simp
    then have m: "unat ?t mod 65535 = unat s mod 65535" by (metis mod_mult_self4)
    have z: "?t \<noteq> 0" "s \<noteq> 0" using t q by (metis add_is_0 unat_eq_zero, auto)
    have "fold16 s = fold16 ?t" using False by (simp add: fold16.simps [of s])
    then show ?thesis using 1 [OF False] m z by metis
  qed
qed

lemma Checksum_eq_0:
  assumes "length b \<le> 65536"
  shows "Checksum b = 0 \<longleftrightarrow> 0 < nsum b \<and> nsum b mod 65535 = 0"
proof -
  let ?f = "fold16 (word_sum 0 b)"
  have "(length b + 1) div 2 \<le> 32768" using assms by linarith
  then have "nsum b < 2 ^ 32" using nsum_bound [of b] by simp
  then have w: "unat (word_sum 0 b) = nsum b" using unat_word_sum [of 0 b] by simp
  have f: "unat ?f < 65536" "unat ?f mod 65535 = nsum b mod 65535" "?f = 0 \<longleftrightarrow> nsum b = 0"
    using unat_fold16 [of "word_sum 0 b"] w by (simp_all flip: unat_eq_zero)
  have "Checksum b = 0 \<longleftrightarrow> (ucast ?f :: u16) = NOT 0" unfolding Checksum_def by (metis bit.double_compl)
  also have "\<dots> \<longleftrightarrow> unat (ucast ?f :: u16) = 65535"
    by (simp add: word_unat_eq_iff unsigned_minus_1_eq_mask mask_eq_exp_minus_1)
  also have "unat (ucast ?f :: u16) = unat ?f" using f(1) by (simp add: unsigned_ucast_eq take_bit_nat_eq_self)
  also have "unat ?f = 65535 \<longleftrightarrow> 0 < nsum b \<and> nsum b mod 65535 = 0"
  proof
    assume "0 < nsum b \<and> nsum b mod 65535 = 0"
    then have "unat ?f \<noteq> 0" "unat ?f mod 65535 = 0" using f by (auto simp: unat_eq_zero)
    then obtain k where "unat ?f = 65535 * k" "k \<noteq> 0" by (auto simp: mod_eq_0_iff_dvd elim!: dvdE)
    then show "unat ?f = 65535" using f(1) by simp
  qed (use f in \<open>auto simp: unat_eq_zero\<close>)
  finally show ?thesis .
qed


text \<open>Filling in the checksum of a message whose field is zero makes the message verify.\<close>

lemma unat_not16: "unat (NOT x :: u16) = 65535 - unat x"
proof -
  have "NOT x = - 1 - x" by (simp add: not_eq_complement)
  then show ?thesis using unat_sub [of x "- 1"]
    by (simp add: unsigned_minus_1_eq_mask mask_eq_exp_minus_1)
qed

lemma sum_collision:
  assumes "(u + s) mod 65535 = (0 :: nat)" "(v + s) mod 65535 = 0" "u < 65536" "v < 65536" "u \<noteq> v"
  shows "u = 0 \<and> v = 65535 \<or> u = 65535 \<and> v = 0"
proof -
  have col: "x = 65535 \<and> y = 0"
    if "(x + s) mod 65535 = (0 :: nat)" "(y + s) mod 65535 = 0" "x < 65536" "y < x" for x y
  proof -
    have "65535 dvd (x + s) - (y + s)" using that(1,2) by (intro dvd_diff_nat) (simp_all add: mod_eq_0_iff_dvd)
    then obtain k where "x - y = 65535 * k" by (auto elim!: dvdE)
    then show ?thesis using that(3,4) by (cases k) auto
  qed
  show ?thesis using col [of u v] col [of v u] assms by linarith
qed

lemma nsum_fill:
  assumes "even (length xs)" "length xs + length ys \<le> 60000"
  shows "Checksum (xs @ be16 (Checksum (xs @ [0, 0] @ ys)) @ ys) = 0"
proof -
  define z where "z = xs @ [0, 0] @ ys"
  let ?f = "fold16 (word_sum 0 z)"
  have zl: "length z \<le> 60002" using assms by (simp add: z_def)
  then have "(length z + 1) div 2 \<le> 30001" by linarith
  then have "nsum z < 2 ^ 32" using nsum_bound [of z] by simp
  then have w: "unat (word_sum 0 z) = nsum z" using unat_word_sum [of 0 z] by simp
  have f: "unat ?f < 65536" "unat ?f mod 65535 = nsum z mod 65535"
    using unat_fold16 [of "word_sum 0 z"] w by simp_all
  have "unat (NOT (ucast ?f :: u16)) = 65535 - unat ?f"
    using f(1) by (simp add: unat_not16 unsigned_ucast_eq take_bit_nat_eq_self)
  then have c: "unat (Checksum z) = 65535 - unat ?f" by (simp add: Checksum_def)
  have "nsum (xs @ be16 (Checksum z) @ ys) = nsum z + (65535 - unat ?f)"
    using assms(1) c by (simp add: nsum_append z_def)
  moreover have "(nsum z + (65535 - unat ?f)) mod 65535 = 0"
  proof -
    have "(nsum z + (65535 - unat ?f)) mod 65535 = (unat ?f + (65535 - unat ?f)) mod 65535"
      using f(2) by (metis mod_add_left_eq)
    also have "unat ?f + (65535 - unat ?f) = 65535" using f(1) by simp
    finally show ?thesis by simp
  qed
  moreover have "0 < nsum z + (65535 - unat ?f)"
  proof (cases "unat ?f = 65535")
    case True
    then have "?f \<noteq> 0" by auto
    then have "word_sum 0 z \<noteq> 0" using unat_fold16 [of "word_sum 0 z"] by blast
    then have "nsum z \<noteq> 0" using w unat_eq_zero by metis
    then show ?thesis by simp
  qed (use f(1) in simp)
  ultimately show ?thesis using zl assms unfolding z_def [symmetric] by (subst Checksum_eq_0) (simp_all add: z_def)
qed

section \<open>Reading back what was built\<close>

lemmas get_simps = BePut16_def window_def drop_Cons' take_Cons'

lemma BeGet16_two: "BeGet16 (ucast (drop_bit 8 v) # ucast v # xs) = v"
  using BeGet16_be16(1) [of v xs] by (simp add: be16_def)

lemma BeGet32_four:
  "BeGet32 (ucast (drop_bit 24 v) # ucast (drop_bit 16 v) # ucast (drop_bit 8 v) # ucast v # xs) = v"
  using BeGet32_be32 [of v xs] by (simp add: be32_def)

lemmas field_simps = be16_def be32_def BeGet16_two BeGet32_four window_def

lemma unat_of_nat16: "n < 65536 \<Longrightarrow> unat (of_nat n :: u16) = n"
  by (simp add: unsigned_of_nat take_bit_nat_eq_self)

lemma ParseEth_BuildEth:
  assumes "length dst = 6" "length src = 6"
  shows "ParseEth (BuildEth dst src ty pl) =
    Inr \<lparr>eDst = dst, eSrc = src, eType = ty, ePayload = pl @ replicate (46 - length pl) 0\<rparr>"
  using assms by (simp add: BuildEth_fields) (elim length_6E, simp add: ParseEth_def field_simps)

lemma BeGet16_1: "BeGet16 (0 # 1 # xs) = 1" "BeGet16 (8 # 0 # xs) = 0x0800" "BeGet16 (0x40 # 0 # xs) = 0x4000"
  by (simp_all add: BeGet16_def)

lemma ParseARP_Build:
  assumes "length (SrcMAC a) = 6" "length (DstMAC a) = 6" "length (SrcIP a) = 4" "length (DstIP a) = 4"
  shows "ParseARP (ARP_Build a @ pad) = Inr a"
proof -
  have "be16 (1 :: u16) = [0, 1]" "be16 0x0800 = [8, 0]" by (simp_all add: be16_def)
  then show ?thesis using assms
    by (simp add: ARP_Build_fields)
       (elim length_6E length_4E, simp add: ParseARP_def be16_def BeGet16_two BeGet16_1 window_def)
qed

lemma ParseIP4_Build:
  assumes "IP4_Build p = Inr w" "length (pSrc p) = 4" "length (pDst p) = 4"
  shows "ParseIP4 (w @ pad) = Inr (p\<lparr>pTTL := ip_ttl (pTTL p)\<rparr>)"
proof -
  have pl: "length (pPayload p) \<le> 1492" using assms(1) by (auto simp: IP4_Build_def split: if_splits)
  define a where "a = [0x45, 0] @ be16 (of_nat (20 + length (pPayload p))) @ [0, 0, 0x40, 0, ip_ttl (pTTL p), pProto p]"
  define b where "b = pSrc p @ pDst p"
  define h where "h = a @ be16 (Checksum (a @ [0, 0] @ b)) @ b"
  have w: "w = h @ pPayload p"
    using IP4_Build_fields [OF pl assms(2,3)] assms(1) by (simp add: a_def b_def h_def)
  have hl: "length h = 20" by (simp add: h_def a_def b_def assms)
  have ck: "Checksum h = 0" unfolding h_def by (rule nsum_fill) (simp_all add: a_def b_def assms)
  have tot: "unat (of_nat (20 + length (pPayload p)) :: u16) = 20 + length (pPayload p)"
    by (rule unat_of_nat16) (use pl in simp)
  have f: "BeGet16 (drop 2 (w @ pad)) = of_nat (20 + length (pPayload p))"
    "BeGet16 (drop 6 (w @ pad)) = 0x4000" "(w @ pad) ! 0 = 0x45" "(w @ pad) ! 8 = ip_ttl (pTTL p)"
    "(w @ pad) ! 9 = pProto p" "window 12 4 (w @ pad) = pSrc p" "window 16 4 (w @ pad) = pDst p"
    unfolding w h_def a_def b_def using assms(2,3)
    by (elim length_4E; simp add: field_simps BeGet16_1)+
  show ?thesis
    unfolding ParseIP4_def Let_def f tot using pl hl ck by (simp add: w)
qed

lemma ParseICMP_Build: "length (iData c) \<le> 50000 \<Longrightarrow> ParseICMP (ICMP_Build c) = Inr c"
proof -
  assume l: "length (iData c) \<le> 50000"
  have "Checksum (ICMP_Build c) = 0"
    using nsum_fill [of "[iType c, iCode c]" "be16 (iID c) @ be16 (iSeq c) @ iData c"] l
    by (simp add: ICMP_Build_fields)
  then show ?thesis unfolding ParseICMP_def by (simp add: ICMP_Build_fields field_simps)
qed

lemma ParseUDP_Build:
  assumes "length (uData d) \<le> 60000"
  shows "ParseUDP (UDP_Build d @ pad) = Inr (d\<lparr>checksumSrc := zeroIP, checksumDst := zeroIP\<rparr>)"
proof -
  have tot: "unat (of_nat (8 + length (uData d)) :: u16) = 8 + length (uData d)"
    by (rule unat_of_nat16) (use assms in simp)
  define ck where "ck = udp_sum d ((be16 (uSrcPort d) @ be16 (uDstPort d) @ be16 (of_nat (8 + length (uData d)))) @ [0, 0] @ uData d)"
  have w: "UDP_Build d = be16 (uSrcPort d) @ be16 (uDstPort d) @ be16 (of_nat (8 + length (uData d))) @ be16 ck @ uData d"
    using UDP_Build_fields [of d] by (simp add: ck_def)
  have f: "BeGet16 (drop 4 (UDP_Build d @ pad)) = of_nat (8 + length (uData d))"
    "BeGet16 (UDP_Build d @ pad) = uSrcPort d" "BeGet16 (drop 2 (UDP_Build d @ pad)) = uDstPort d"
    by (simp_all add: w field_simps)
  have "length (UDP_Build d) = 8 + length (uData d)" "drop 8 (UDP_Build d) = uData d"
    by (simp_all add: w field_simps)
  then show ?thesis unfolding ParseUDP_def Let_def f tot by simp
qed

lemma flags_mask: "(f AND 0x1f) AND 0x1f = (f AND 0x1f :: byte)"
  by (simp add: and.assoc)

lemma ParseTCP_Build: "ParseTCP (TCP_Build t) = Inr (t\<lparr>tFlags := tFlags t AND 0x1f\<rparr>)"
  by (simp add: ParseTCP_def TCP_Build_fields field_simps flags_mask)

section \<open>Addresses as text\<close>

lemma bsplit_nonempty: "bsplit c xs \<noteq> []"
  by (induction xs) (auto split: list.split)

lemma bsplit_none: "c \<notin> set xs \<Longrightarrow> bsplit c xs = [xs]"
  by (induction xs) auto

lemma bsplit_sep: "c \<notin> set xs \<Longrightarrow> bsplit c (xs @ c # ys) = xs # bsplit c ys"
  by (induction xs) auto

definition digit_ok :: "byte \<Rightarrow> bool" where
  "digit_ok c \<longleftrightarrow> 0x30 \<le> c \<and> c \<le> 0x39"

text \<open>All 256 octets, by evaluation: each is printed with one to three digits that read back to it.\<close>

definition octet_ok :: "nat \<Rightarrow> bool" where
  "octet_ok n \<longleftrightarrow> (let t = uitoa64 (of_nat n) in list_all digit_ok t \<and> t \<noteq> [] \<and> length t \<le> 3 \<and> ip_digits 0 t = Some n)"

definition hex_ok :: "byte \<Rightarrow> bool" where
  "hex_ok n \<longleftrightarrow> (let c = hexdigits ! unat n in c \<noteq> 0x3A \<and> hexVal c = Some n)"

lemma uitoa_small:
  "v < 10 \<Longrightarrow> 0 < v \<Longrightarrow> uitoa_loop v acc = of_nat (0x30 + v) # acc"
  "10 \<le> v \<Longrightarrow> uitoa_loop v acc = uitoa_loop (v div 10) (of_nat (0x30 + v mod 10) # acc)"
  by (simp_all add: uitoa_loop.simps [of v] uitoa_loop.simps [of 0])

lemma ip_digits_of:
  "d < 10 \<Longrightarrow> ip_digits v (of_nat (0x30 + d) # cs) = ip_digits (v * 10 + d) cs"
  "d < 10 \<Longrightarrow> digit_ok (of_nat (0x30 + d))"
proof -
  assume "d < 10"
  then have "d \<in> {0,1,2,3,4,5,6,7,8,9}" by auto
  then show "ip_digits v (of_nat (0x30 + d) # cs) = ip_digits (v * 10 + d) cs" "digit_ok (of_nat (0x30 + d))"
    by (auto simp: digit_ok_def)
qed

lemma octet: assumes "n < 256" shows "octet_ok n"
proof -
  have u: "unat (of_nat n :: u64) = n" using assms by (simp add: unsigned_of_nat take_bit_nat_eq_self)
  consider "n = 0" | "0 < n" "n < 10" | "10 \<le> n" "n < 100" | "100 \<le> n" by linarith
  then show ?thesis
  proof cases
    case 1 then show ?thesis by (simp add: octet_ok_def uitoa64_def digit_ok_def)
  next
    case 2
    then have "uitoa64 (of_nat n) = [of_nat (0x30 + n)]"
      using u by (auto simp: uitoa64_def uitoa_small simp flip: unat_eq_zero)
    then show ?thesis using 2 ip_digits_of [of n] by (simp add: octet_ok_def Let_def)
  next
    case 3
    then have "uitoa64 (of_nat n) = [of_nat (0x30 + n div 10), of_nat (0x30 + n mod 10)]"
      using u by (auto simp: uitoa64_def uitoa_small simp flip: unat_eq_zero)
    moreover have "n div 10 < 10" using 3 by simp
    ultimately show ?thesis using ip_digits_of [of "n div 10"] ip_digits_of [of "n mod 10"]
      by (simp add: octet_ok_def Let_def)
  next
    case 4
    then have "uitoa64 (of_nat n) = [of_nat (0x30 + n div 10 div 10), of_nat (0x30 + n div 10 mod 10), of_nat (0x30 + n mod 10)]"
      using u assms by (auto simp: uitoa64_def uitoa_small simp flip: unat_eq_zero)
    moreover have "n div 10 div 10 < 10" using assms by simp
    moreover have "n div 10 div 10 * 10 + n div 10 mod 10 = n div 10" by simp
    ultimately show ?thesis
      using ip_digits_of [of "n div 10 div 10"] ip_digits_of [of "n div 10 mod 10"] ip_digits_of [of "n mod 10"]
      by (simp add: octet_ok_def Let_def)
  qed
qed

lemma ip_octet_parse:
  "ip_octets (uitoa64 (ucast b) # ps) = (case ip_octets ps of Inl e \<Rightarrow> Inl e | Inr bs \<Rightarrow> Inr (b # bs))"
  "(0x2E :: byte) \<notin> set (uitoa64 (ucast (b :: byte)))"
proof -
  have "unat b < 256" using unat_byte_bound [of b] by simp
  then have o: "octet_ok (unat b)" by (rule octet)
  have e: "(ucast b :: u64) = of_nat (unat b)" by simp
  show "ip_octets (uitoa64 (ucast b) # ps) = (case ip_octets ps of Inl e \<Rightarrow> Inl e | Inr bs \<Rightarrow> Inr (b # bs))"
    using o unat_byte_bound [of b] unfolding e by (auto simp: octet_ok_def Let_def split: sum.split)
  have "list_all digit_ok (uitoa64 (of_nat (unat b)))" using o by (simp add: octet_ok_def Let_def)
  then show "(0x2E :: byte) \<notin> set (uitoa64 (ucast b))" unfolding e by (auto simp: list_all_iff digit_ok_def)
qed

lemma nibble_hex: "n < 16 \<longrightarrow> hex_ok (of_nat n)"
proof -
  have "list_all (\<lambda>n. hex_ok (of_nat n)) [0..<16]"
    by (simp add: upt_rec hex_ok_def hexdigits_def str_def hexVal_def)
  then show ?thesis by (simp add: list_all_iff)
qed

lemma hex_nibble:
  assumes "n \<le> (15 :: byte)"
  shows "hexdigits ! unat n \<noteq> 0x3A" "hexVal (hexdigits ! unat n) = Some n"
proof -
  have "unat n < 16" using assms by (simp add: word_le_nat_alt)
  then show "hexdigits ! unat n \<noteq> 0x3A" "hexVal (hexdigits ! unat n) = Some n"
    using nibble_hex [of "unat n"] by (simp_all add: hex_ok_def Let_def)
qed

lemma nibbles:
  "(b :: byte) AND 15 \<le> 15" "drop_bit 4 (b :: byte) \<le> 15" "push_bit 4 (drop_bit 4 b) OR (b AND 15) = (b :: byte)"
proof -
  show "b AND 15 \<le> 15" by (simp add: word_and_le1)
  have "unat (drop_bit 4 b) = unat b div 16" by (simp add: drop_bit_eq_div unat_div)
  then show "drop_bit 4 b \<le> 15" using unat_byte_bound [of b] by (simp add: word_le_nat_alt)
  have "b AND 15 = take_bit 4 b" using take_bit_eq_mask [of 4 b] by (simp add: mask_eq_exp_minus_1)
  then show "push_bit 4 (drop_bit 4 b) OR (b AND 15) = b"
    by (auto intro!: bit_word_eqI simp: bit_simps)
qed

lemmas hex_nibbles = hex_nibble [OF nibbles(1)] hex_nibble [OF nibbles(2)]

section \<open>Pseudo-header checksums\<close>

lemma pseudo_parts:
  assumes "even (length xs)" "length src = 4" "length dst = 4"
  shows "pseudo src dst pr (xs @ [a, b] @ ys) =
    (src @ dst @ [0, pr] @ be16 (of_nat (length xs + 2 + length ys)) @ xs) @ [a, b] @
      (ys @ (if odd (length ys) then [0] else []))"
proof -
  let ?b = "src @ dst @ [0, pr] @ be16 (of_nat (length (xs @ [a, b] @ ys))) @ xs @ [a, b] @ ys"
  have "length ?b mod 2 \<noteq> 0 \<longleftrightarrow> odd (length ys)"
    using assms unfolding even_iff_mod_2_eq_zero [symmetric] by simp
  then show ?thesis by (simp add: pseudo_def Let_def)
qed

lemma pseudo_fill:
  assumes "even (length xs)" "length src = 4" "length dst = 4" "length xs + length ys \<le> 50000"
  shows "Checksum (pseudo src dst pr (xs @ be16 (Checksum (pseudo src dst pr (xs @ [0, 0] @ ys))) @ ys)) = 0"
proof -
  let ?h = "src @ dst @ [0, pr] @ be16 (of_nat (length xs + 2 + length ys)) @ xs"
  let ?t = "ys @ (if odd (length ys) then [0] else [])"
  have b: "be16 c = [ucast (drop_bit 8 c), ucast c]" for c by (simp add: be16_def)
  show ?thesis
    unfolding b pseudo_parts [OF assms(1-3)] unfolding b [symmetric]
    by (rule nsum_fill) (use assms in auto)
qed

lemma udp_sum_Checksum:
  "\<not> (checksumSrc d = zeroIP \<and> checksumDst d = zeroIP) \<Longrightarrow>
   udp_sum d out = Checksum (pseudo (checksumSrc d) (checksumDst d) 17 out)"
  unfolding udp_sum_def Checksum_def by (simp only: if_False)

section \<open>Properties of the formats\<close>

text \<open>An IPv4 datagram put into an Ethernet frame is read back unchanged on the other side.
  The frame fits one packet slot, the padding to the 60-byte minimum does not leak into the payload, a
  zero TTL has become 64, and a payload above 1492 bytes is refused instead of truncated.\<close>

theorem ip_frame_roundtrip:
  assumes "length dst = 6" "length src = 6" "length (pSrc p) = 4" "length (pDst p) = 4"
  shows "if length (pPayload p) \<le> 1492
    then \<exists>dg f. IP4_Build p = Inr dg \<and> length (BuildEth dst src EthTypeIPv4 dg) \<le> 1526 \<and>
      ParseEth (BuildEth dst src EthTypeIPv4 dg) = Inr f \<and>
      eDst f = dst \<and> eSrc f = src \<and> eType f = EthTypeIPv4 \<and>
      ParseIP4 (ePayload f) = Inr (p\<lparr>pTTL := if pTTL p = 0 then 64 else pTTL p\<rparr>)
    else IP4_Build p = Inl ErrTooBig"
proof (cases "length (pPayload p) \<le> 1492")
  case True
  obtain dg where dg: "IP4_Build p = Inr dg" and l: "length dg = 20 + length (pPayload p)"
    using IP4_Build_fields [OF True assms(3,4)] assms(3,4) by simp
  have "length (BuildEth dst src EthTypeIPv4 dg) \<le> 1526"
    using True l by (simp add: BuildEth_fields [OF assms(1,2)] assms)
  then show ?thesis
    using True dg ParseIP4_Build [OF dg assms(3,4)] ParseEth_BuildEth [OF assms(1,2), of EthTypeIPv4 dg]
    by (simp add: ip_ttl_def)
qed (simp add: IP4_Build_def)

theorem ip_frame_roundtrip_witness:
  "\<exists>dg f. IP4_Build \<lparr>pSrc = [10,0,2,15], pDst = [10,0,2,2], pProto = 17, pTTL = 0, pPayload = [1,2,3]\<rparr> = Inr dg \<and>
     ParseEth (BuildEth [1,2,3,4,5,6] [6,5,4,3,2,1] EthTypeIPv4 dg) = Inr f \<and>
     ParseIP4 (ePayload f) = Inr \<lparr>pSrc = [10,0,2,15], pDst = [10,0,2,2], pProto = 17, pTTL = 64, pPayload = [1,2,3]\<rparr>"
  using ip_frame_roundtrip [of "[1,2,3,4,5,6]" "[6,5,4,3,2,1]"
    "\<lparr>pSrc = [10,0,2,15], pDst = [10,0,2,2], pProto = 17, pTTL = 0, pPayload = [1,2,3]\<rparr>"] by auto

text \<open>C30: The messages inside a frame are read back field for field: ARP packets (also behind the
  padding of a minimum frame), ICMP echo messages, UDP datagrams (also behind padding) and TCP segments,
  of which exactly the five flags the service knows survive.\<close>

theorem message_roundtrips:
  assumes "length (SrcMAC a) = 6" "length (DstMAC a) = 6" "length (SrcIP a) = 4" "length (DstIP a) = 4"
    "length (iData c) \<le> 1484" "length (uData d) \<le> 1484"
  shows "ParseARP (ARP_Build a @ pad) = Inr a \<and> ParseICMP (ICMP_Build c) = Inr c \<and>
    ParseUDP (UDP_Build d @ pad) = Inr (d\<lparr>checksumSrc := zeroIP, checksumDst := zeroIP\<rparr>) \<and>
    ParseTCP (TCP_Build t) = Inr (t\<lparr>tFlags := tFlags t AND 0x1f\<rparr>)"
  using assms ParseARP_Build [OF assms(1-4)] ParseICMP_Build [of c] ParseUDP_Build [of d] ParseTCP_Build
  by simp

theorem message_roundtrips_witness:
  "ParseARP (ARP_Build \<lparr>Oper = 1, SrcMAC = [1,2,3,4,5,6], SrcIP = [10,0,2,15], DstMAC = [0,0,0,0,0,0], DstIP = [10,0,2,2]\<rparr> @ [0, 0]) =
     Inr \<lparr>Oper = 1, SrcMAC = [1,2,3,4,5,6], SrcIP = [10,0,2,15], DstMAC = [0,0,0,0,0,0], DstIP = [10,0,2,2]\<rparr> \<and>
   ParseICMP (ICMP_Build \<lparr>iType = 8, iCode = 0, iID = 7, iSeq = 1, iData = [1,2,3]\<rparr>) =
     Inr \<lparr>iType = 8, iCode = 0, iID = 7, iSeq = 1, iData = [1,2,3]\<rparr>"
  using message_roundtrips [of "\<lparr>Oper = 1, SrcMAC = [1,2,3,4,5,6], SrcIP = [10,0,2,15], DstMAC = [0,0,0,0,0,0], DstIP = [10,0,2,2]\<rparr>"
    "\<lparr>iType = 8, iCode = 0, iID = 7, iSeq = 1, iData = [1,2,3]\<rparr>"
    "\<lparr>uSrcPort = 1, uDstPort = 2, uData = [], checksumSrc = zeroIP, checksumDst = zeroIP\<rparr>" "[0, 0]"] by simp

text \<open>A change of one 16-bit word of an ICMP message is noticed: if the message parsed before, it is
  refused after, unless the word went from all zeros to all ones or back, which the one's complement sum
  cannot tell apart.\<close>

theorem ParseICMP_detects:
  assumes "ParseICMP (xs @ [a, b] @ ys) = Inr c" "even (length xs)" "length xs + length ys \<le> 1500"
    "BeGet16 [a, b] \<noteq> BeGet16 [a', b']"
    "{BeGet16 [a, b], BeGet16 [a', b']} \<noteq> {0, 0xffff}"
  shows "ParseICMP (xs @ [a', b'] @ ys) = Inl ErrBadICMP"
proof -
  let ?u = "unat (BeGet16 [a, b])" and ?v = "unat (BeGet16 [a', b'])" and ?s = "nsum xs + nsum ys"
  have n: "nsum (xs @ [a, b] @ ys) = ?u + ?s" "nsum (xs @ [a', b'] @ ys) = ?v + ?s"
    using assms(2) by (simp_all add: nsum_append unat_BeGet16)
  have "length (xs @ [a, b] @ ys) \<ge> 8" "Checksum (xs @ [a, b] @ ys) = 0"
    using assms(1) by (auto simp: ParseICMP_def split: if_splits)
  moreover have "Checksum (xs @ [a', b'] @ ys) \<noteq> 0"
  proof
    assume "Checksum (xs @ [a', b'] @ ys) = 0"
    then have "(?u + ?s) mod 65535 = 0" "(?v + ?s) mod 65535 = 0"
      using calculation(2) assms(3) n by (simp_all add: Checksum_eq_0)
    moreover have "?u < 65536" "?v < 65536"
      using unsigned_less [of "BeGet16 [a, b]"] unsigned_less [of "BeGet16 [a', b']"] by simp_all
    moreover have "?u \<noteq> ?v" using assms(4) by (simp only: word_unat_eq_iff not_False_eq_True)
    ultimately have "?u = 0 \<and> ?v = 65535 \<or> ?u = 65535 \<and> ?v = 0" by (rule sum_collision)
    then have "BeGet16 [a, b] = 0 \<and> BeGet16 [a', b'] = 0xffff \<or> BeGet16 [a, b] = 0xffff \<and> BeGet16 [a', b'] = 0"
      by (simp only: word_unat_eq_iff) simp
    then show False using assms(5) by (elim disjE) (simp_all add: insert_commute)
  qed
  ultimately show ?thesis by (simp add: ParseICMP_def)
qed

theorem ParseICMP_detects_witness:
  "\<exists>xs. ParseICMP (xs @ [1, 2] @ []) = Inr \<lparr>iType = 8, iCode = 0, iID = 7, iSeq = 1, iData = [1, 2]\<rparr> \<and>
     ParseICMP (xs @ [1, 3] @ []) = Inl ErrBadICMP"
proof -
  let ?c = "\<lparr>iType = 8, iCode = 0, iID = 7, iSeq = 1, iData = [1, 2]\<rparr>"
  obtain xs where xs: "ICMP_Build ?c = xs @ [1, 2] @ []" "length xs = 8" by (simp add: ICMP_Build_fields)
  have "ParseICMP (xs @ [1, 2] @ []) = Inr ?c" using ParseICMP_Build [of ?c] xs(1) by simp
  then show ?thesis using ParseICMP_detects [of xs 1 2 "[]" ?c 1 3] xs(2) by (auto simp: BeGet16_def doubleton_eq_iff)
qed

text \<open>The checksum of every UDP datagram built with addresses verifies at a receiver: summed together
  with the pseudo-header of the same addresses it folds to all ones.\<close>

theorem udp_checksum_verifies:
  assumes "length (checksumSrc d) = 4" "length (checksumDst d) = 4" "length (uData d) \<le> 1484"
    "\<not> (checksumSrc d = zeroIP \<and> checksumDst d = zeroIP)"
  shows "Checksum (pseudo (checksumSrc d) (checksumDst d) 17 (UDP_Build d)) = 0"
  unfolding UDP_Build_fields [of d] udp_sum_Checksum [OF assms(4)]
  by (rule pseudo_fill) (use assms in simp_all)

theorem udp_checksum_verifies_witness:
  "Checksum (pseudo [10,0,2,15] [10,0,2,3] 17 (UDP_Build
     \<lparr>uSrcPort = 49152, uDstPort = 53, uData = [1,2,3], checksumSrc = [10,0,2,15], checksumDst = [10,0,2,3]\<rparr>)) = 0"
  using udp_checksum_verifies [of "\<lparr>uSrcPort = 49152, uDstPort = 53, uData = [1,2,3],
    checksumSrc = [10,0,2,15], checksumDst = [10,0,2,3]\<rparr>"] by simp

text \<open>Addresses survive being printed and parsed: \<^verbatim>\<open>ParseIP(ip.String())\<close> is
  \<^verbatim>\<open>ip\<close> for every IPv4 address, and \<^verbatim>\<open>ParseMAC(m.String())\<close> is \<^verbatim>\<open>m\<close> for every
  hardware address.\<close>

theorem address_text_roundtrip:
  assumes "length ip = 4" "length m = 6"
  shows "ParseIP (IP4_String ip) = Inr ip \<and> ParseMAC (MAC_String m) = Inr m"
proof
  obtain a b c d where ip: "ip = [a, b, c, d]" using assms(1) by (rule length_4E)
  show "ParseIP (IP4_String ip) = Inr ip"
    using ip_octet_parse by (simp add: ip IP4_String_def ParseIP_def bsplit_sep bsplit_none Let_def)
  show "ParseMAC (MAC_String m) = Inr m"
    using assms(2) by (elim length_6E) (simp add: ParseMAC_def hex_nibbles nibbles Let_def del: nth_Cons_numeral)
qed

theorem address_text_roundtrip_witness:
  "ParseIP (IP4_String [10, 0, 2, 15]) = Inr [10, 0, 2, 15] \<and>
   ParseMAC (MAC_String [0x52, 0x54, 0, 0x12, 0x34, 0x56]) = Inr [0x52, 0x54, 0, 0x12, 0x34, 0x56]"
  by (rule address_text_roundtrip) simp_all

end
