(* ===== verification/Net_Ring.thy ===== *)
theory Net_Ring
  imports Net_Wire
begin

text \<open>
  The transports under the network stack (\<^verbatim>\<open>services/net/packet.go\<close>): the shared-memory
  packet window with its free-running 32-bit indices, the in-memory wire and the shared
  segment.  A packet window refines a bounded first-in first-out queue; the contract is
  the locale \<^verbatim>\<open>frame_queue\<close>, proved for the window and for the wire.
\<close>

section \<open>The code\<close>

abbreviation (input) WinSlots :: nat where "WinSlots \<equiv> 256"
abbreviation (input) SlotDataLen :: nat where "SlotDataLen \<equiv> 1526"
abbreviation (input) SlotStride :: nat where "SlotStride \<equiv> 1536"
abbreviation (input) RingHeaderLen :: nat where "RingHeaderLen \<equiv> 8"
abbreviation (input) RingSize :: nat where "RingSize \<equiv> 393224"

text \<open>\<^verbatim>\<open>type WindowRing struct{ mem []byte }\<close>: the mapped memory is the whole state.\<close>

type_synonym WindowRing = bytes

definition NewWindowRing :: "bytes \<Rightarrow> nerr + WindowRing" where
  "NewWindowRing mem = (if length mem < RingSize then Inl ErrRingTooSmall else Inr mem)"

definition ring_head :: "WindowRing \<Rightarrow> u32" where
  "ring_head m = Get32 m"

definition ring_tail :: "WindowRing \<Rightarrow> u32" where
  "ring_tail m = Get32 (drop 4 m)"

definition setHead :: "u32 \<Rightarrow> WindowRing \<Rightarrow> WindowRing" where
  "setHead v m = Put32 m 0 v"

definition setTail :: "u32 \<Rightarrow> WindowRing \<Rightarrow> WindowRing" where
  "setTail v m = Put32 m 4 v"

definition slotBase :: "u32 \<Rightarrow> nat" where
  "slotBase n = RingHeaderLen + unat (n mod 256) * SlotStride"

text \<open>The length a slot claims, clamped while still unsigned.\<close>

definition slot_len :: "WindowRing \<Rightarrow> nat \<Rightarrow> nat" where
  "slot_len m base = (let u = Get32 (drop base m) in unat (if u > 1526 then 1526 else u))"

definition ring_Recv :: "WindowRing \<Rightarrow> bytes option \<times> WindowRing" where
  "ring_Recv m =
     (let h = ring_head m; t = ring_tail m
      in if h = t then (None, m)
         else
           let base = slotBase h; u = slot_len m base
           in (Some (window (base + 4) u m), setHead (h + 1) m))"

definition ring_Send :: "bytes \<Rightarrow> WindowRing \<Rightarrow> bool \<times> WindowRing" where
  "ring_Send frame m =
     (if length frame = 0 \<or> length frame > SlotDataLen then (False, m)
      else
        let h = ring_head m; t = ring_tail m
        in if t - h \<ge> 256 then (False, m)
           else
             let base = slotBase t;
                 m = Put32 m base (of_nat (length frame));
                 m = go_copy m (base + 4) frame
             in (True, setTail (t + 1) m))"

record Wire =
  w_frames :: "bytes list"

definition NewWire :: Wire where
  "NewWire = \<lparr>w_frames = []\<rparr>"

definition wire_Send :: "bytes \<Rightarrow> Wire \<Rightarrow> bool \<times> Wire" where
  "wire_Send frame w = (True, w\<lparr>w_frames := w_frames w @ [frame]\<rparr>)"

definition wire_Recv :: "Wire \<Rightarrow> bytes option \<times> Wire" where
  "wire_Recv w =
     (case w_frames w of [] \<Rightarrow> (None, w) | f # fs \<Rightarrow> (Some f, w\<lparr>w_frames := fs\<rparr>))"

text \<open>A segment is the list of its ports' inboxes; a port is named by its position.\<close>

record Segment =
  inboxes :: "bytes list list"

definition NewSegment :: Segment where
  "NewSegment = \<lparr>inboxes = []\<rparr>"

definition Attach :: "Segment \<Rightarrow> nat \<times> Segment" where
  "Attach s = (length (inboxes s), s\<lparr>inboxes := inboxes s @ [[]]\<rparr>)"

definition deliver :: "bytes \<Rightarrow> bytes list \<Rightarrow> bytes list" where
  "deliver frame inbox = inbox @ [frame]"

definition port_Send :: "nat \<Rightarrow> bytes \<Rightarrow> Segment \<Rightarrow> bool \<times> Segment" where
  "port_Send p frame s = (True, s\<lparr>inboxes := map (deliver frame) (inboxes s)\<rparr>)"

definition port_Recv :: "nat \<Rightarrow> Segment \<Rightarrow> bytes option \<times> Segment" where
  "port_Recv p s =
     (case inboxes s ! p of
        [] \<Rightarrow> (None, s)
      | f # fs \<Rightarrow> (Some f, s\<lparr>inboxes := (inboxes s)[p := fs]\<rparr>))"

section \<open>The contract of a frame queue\<close>

text \<open>What a client of a transport relies on: a receive takes the oldest queued frame, a
  send either appends the frame or leaves the queue alone.\<close>

locale frame_queue =
  fixes send :: "bytes \<Rightarrow> 'q \<Rightarrow> bool \<times> 'q"
    and recv :: "'q \<Rightarrow> bytes option \<times> 'q"
    and qok :: "'q \<Rightarrow> bool"
    and queue :: "'q \<Rightarrow> bytes list"
  assumes recv_none: "qok q \<Longrightarrow> queue q = [] \<Longrightarrow> recv q = (None, q)"
    and recv_frame: "qok q \<Longrightarrow> queue q = f # fs \<Longrightarrow>
          \<exists>q'. recv q = (Some f, q') \<and> qok q' \<and> queue q' = fs"
    and send_taken: "qok q \<Longrightarrow> send f q = (True, q') \<Longrightarrow> qok q' \<and> queue q' = queue q @ [f]"
    and send_refused: "qok q \<Longrightarrow> send f q = (False, q') \<Longrightarrow> q' = q"

text \<open>A run of one producer and one consumer: the frames taken in and the frames handed out.\<close>

datatype qop = QSend bytes | QRecv

fun qrun :: "(bytes \<Rightarrow> 'q \<Rightarrow> bool \<times> 'q) \<Rightarrow> ('q \<Rightarrow> bytes option \<times> 'q) \<Rightarrow> qop list \<Rightarrow> 'q \<Rightarrow>
    bytes list \<times> bytes list \<times> 'q" where
  "qrun send recv [] q = ([], [], q)"
| "qrun send recv (QSend f # ops) q =
     (let (ok, q') = send f q; (ins, outs, q'') = qrun send recv ops q'
      in (if ok then f # ins else ins, outs, q''))"
| "qrun send recv (QRecv # ops) q =
     (let (r, q') = recv q; (ins, outs, q'') = qrun send recv ops q'
      in (ins, (case r of None \<Rightarrow> outs | Some f \<Rightarrow> f # outs), q''))"

context frame_queue
begin

lemma qrun_fifo:
  "qok q \<Longrightarrow> qrun send recv ops q = (ins, outs, q') \<Longrightarrow>
   qok q' \<and> queue q @ ins = outs @ queue q'"
proof (induction ops arbitrary: q ins outs q')
  case (Cons op ops)
  show ?case
  proof (cases op)
    case (QSend f)
    obtain ok q1 where s: "send f q = (ok, q1)" by fastforce
    obtain ins1 outs1 q2 where r: "qrun send recv ops q1 = (ins1, outs1, q2)" by (metis prod_cases3)
    have eq: "ins = (if ok then f # ins1 else ins1)" "outs = outs1" "q' = q2"
      using Cons.prems(2) QSend s r by auto
    have "qok q1 \<and> queue q1 = (if ok then queue q @ [f] else queue q)"
      using send_taken [OF Cons.prems(1)] send_refused [OF Cons.prems(1)] s Cons.prems(1) by (cases ok) auto
    then show ?thesis using Cons.IH [of q1] r eq by (cases ok) auto
  next
    case QRecv
    show ?thesis
    proof (cases "queue q")
      case Nil
      obtain ins1 outs1 q2 where r: "qrun send recv ops q = (ins1, outs1, q2)" by (metis prod_cases3)
      show ?thesis using Cons QRecv recv_none [OF Cons.prems(1) Nil] r by auto
    next
      case more: (Cons f fs)
      obtain q1 where q1: "recv q = (Some f, q1)" "qok q1" "queue q1 = fs"
        using recv_frame [OF Cons.prems(1) more] by blast
      obtain ins1 outs1 q2 where r: "qrun send recv ops q1 = (ins1, outs1, q2)" by (metis prod_cases3)
      show ?thesis using Cons.IH [OF q1(2) r] Cons.prems(2) QRecv q1 r more by auto
    qed
  qed
qed simp

end

section \<open>The packet window is a frame queue\<close>

definition ring_frame :: "WindowRing \<Rightarrow> u32 \<Rightarrow> bytes" where
  "ring_frame m n = window (slotBase n + 4) (slot_len m (slotBase n)) m"

definition ring_queue :: "WindowRing \<Rightarrow> bytes list" where
  "ring_queue m = map (\<lambda>i. ring_frame m (ring_head m + of_nat i)) [0..<unat (ring_tail m - ring_head m)]"

definition ring_ok :: "WindowRing \<Rightarrow> bool" where
  "ring_ok m \<longleftrightarrow> RingSize \<le> length m \<and> unat (ring_tail m - ring_head m) \<le> 256"

text \<open>Slots do not overlap each other or the header, and every index stays inside the memory.\<close>

lemma slotBase_bounds: "8 \<le> slotBase n" "slotBase n + 1536 \<le> RingSize"
proof -
  have "unat (n mod 256) \<le> 255" by (simp add: unat_mod)
  then show "8 \<le> slotBase n" "slotBase n + 1536 \<le> RingSize" by (simp_all add: slotBase_def)
qed

lemma slot_len_le: "slot_len m b \<le> 1526"
  unfolding slot_len_def Let_def by (simp add: word_less_nat_alt not_less)

lemma u32_of_nat: "unat (of_nat n :: u32) = take_bit 32 n"
  by (simp add: unsigned_of_nat)

lemma slot_index: "unat (h + of_nat i) mod 256 = (unat (h :: u32) + i) mod 256"
proof -
  have "h + of_nat i = of_nat (unat h + i)" by simp
  then have u: "unat (h + of_nat i) = take_bit 32 (unat h + i)" by (simp only: u32_of_nat)
  have "take_bit 8 (take_bit 32 (unat h + i)) = take_bit 8 (unat h + i)" by simp
  then show ?thesis unfolding u by (simp add: take_bit_eq_mod)
qed

lemma unat_succ: "unat x < 4294967295 \<Longrightarrow> unat (x + 1 :: u32) = Suc (unat x)"
  by (simp add: unat_word_ariths)

lemma unat_pred: "x \<noteq> 0 \<Longrightarrow> unat x = Suc (unat (x - 1 :: u32))"
  using unat_succ [of "x - 1"] unat_minus_one [of x] unat_gt_0 [of x] by auto

lemma slotBase_apart:
  assumes "i < j" "j < i + 256"
  shows "slotBase (h + of_nat i) + 1536 \<le> slotBase (h + of_nat j) \<or>
         slotBase (h + of_nat j) + 1536 \<le> slotBase (h + of_nat i)"
proof -
  have "(unat h + i) mod 256 \<noteq> (unat h + j) mod 256"
  proof
    assume "(unat h + i) mod 256 = (unat h + j) mod 256"
    then have "256 dvd (unat h + j) - (unat h + i)"
      using assms(1) mod_eq_dvd_iff_nat [of "unat h + i" "unat h + j" 256] by linarith
    then show False using assms by (auto dest: dvd_imp_le)
  qed
  then have "unat ((h + of_nat i) mod 256) \<noteq> unat ((h + of_nat j) mod 256)"
    by (simp add: unat_mod slot_index)
  then show ?thesis unfolding slotBase_def by linarith
qed

lemma slot_len_cong: "window b 4 m = window b 4 m' \<Longrightarrow> slot_len m b = slot_len m' b"
  by (simp add: slot_len_def Get32_window)

lemma ring_frame_cong:
  assumes "window (slotBase n) 1530 m = window (slotBase n) 1530 m'"
  shows "ring_frame m n = ring_frame m' n"
proof -
  let ?b = "slotBase n"
  have w: "window ?b 4 x = take 4 (window ?b 1530 x)" for x :: bytes by (simp add: window_def min_def)
  then have l: "slot_len m ?b = slot_len m' ?b" using assms by (intro slot_len_cong) simp
  have "window (?b + 4) k x = take k (drop 4 (window ?b 1530 x))" if "k \<le> 1526" for k and x :: bytes
    using that by (simp add: window_def drop_take min_def add.commute)
  then show ?thesis unfolding ring_frame_def l using assms slot_len_le [of m' ?b] by simp
qed

lemma head_tail_window: "ring_head m = Get32 (window 0 4 m)" "ring_tail m = Get32 (window 4 4 m)"
  by (simp_all add: ring_head_def ring_tail_def window_def Get32_take)

lemma set_simps:
  assumes "RingSize \<le> length m"
  shows "ring_head (setHead v m) = v" "ring_tail (setHead v m) = ring_tail m"
    "ring_tail (setTail v m) = v" "ring_head (setTail v m) = ring_head m"
    "length (setHead v m) = length m" "length (setTail v m) = length m"
    "ring_frame (setHead v m) n = ring_frame m n" "ring_frame (setTail v m) n = ring_frame m n"
proof -
  have l: "8 \<le> length m" using assms by simp
  show "length (setHead v m) = length m" "length (setTail v m) = length m"
    using l by (simp_all add: setHead_def setTail_def Put32_def)
  show "ring_tail (setHead v m) = ring_tail m" "ring_head (setTail v m) = ring_head m"
    using l by (simp_all add: head_tail_window setHead_def setTail_def Put32_def window_go_copy_other)
  show "ring_head (setHead v m) = v" "ring_tail (setTail v m) = v"
    using l window_go_copy [of 0 "le32 v" m] window_go_copy [of 4 "le32 v" m]
    by (simp_all add: head_tail_window setHead_def setTail_def Put32_def window_def)
  show "ring_frame (setHead v m) n = ring_frame m n" "ring_frame (setTail v m) n = ring_frame m n"
    using assms slotBase_bounds [of n]
    by (intro ring_frame_cong; simp add: setHead_def setTail_def Put32_def window_go_copy_other)+
qed

lemma ring_queue_Nil: "ring_queue m = [] \<longleftrightarrow> ring_head m = ring_tail m"
  using unat_eq_zero [of "ring_tail m - ring_head m"] by (auto simp: ring_queue_def)

lemma ring_queue_Cons:
  assumes "ring_ok m" "ring_head m \<noteq> ring_tail m"
  shows "ring_queue m = ring_frame m (ring_head m) # ring_queue (setHead (ring_head m + 1) m)"
    and "ring_ok (setHead (ring_head m + 1) m)"
proof -
  let ?h = "ring_head m" and ?t = "ring_tail m"
  have l: "RingSize \<le> length m" using assms(1) by (simp add: ring_ok_def)
  have "?t - ?h \<noteq> 0" using assms(2) by auto
  then have d: "unat (?t - ?h) = Suc (unat (?t - (?h + 1)))"
    using unat_pred [of "?t - ?h"] by (simp only: diff_diff_eq not_False_eq_True simp_thms)
  have u: "[0..<Suc k] = 0 # map Suc [0..<k]" for k by (simp add: map_Suc_upt upt_conv_Cons del: upt_Suc)
  have a: "?h + of_nat (Suc i) = ?h + 1 + of_nat i" for i by simp
  show "ring_queue m = ring_frame m ?h # ring_queue (setHead (?h + 1) m)"
    unfolding ring_queue_def set_simps [OF l] d u list.map map_map o_def a by simp
  show "ring_ok (setHead (?h + 1) m)"
    using assms(1) d by (simp add: ring_ok_def set_simps [OF l])
qed

definition put_slot :: "bytes \<Rightarrow> WindowRing \<Rightarrow> WindowRing" where
  "put_slot f m = go_copy (Put32 m (slotBase (ring_tail m)) (of_nat (length f))) (slotBase (ring_tail m) + 4) f"

lemma put_slot_window:
  assumes "RingSize \<le> length m" "length f \<le> 1526" "a + n \<le> slotBase (ring_tail m) \<or> slotBase (ring_tail m) + 1530 \<le> a"
    "a + n \<le> length m"
  shows "window a n (put_slot f m) = window a n m"
  using assms slotBase_bounds [of "ring_tail m"]
  by (auto simp: put_slot_def Put32_def window_go_copy_other)

lemma put_slot_simps:
  assumes "RingSize \<le> length m" "length f \<le> 1526"
  shows "length (put_slot f m) = length m" "ring_head (put_slot f m) = ring_head m"
    "ring_tail (put_slot f m) = ring_tail m" "ring_frame (put_slot f m) (ring_tail m) = f"
proof -
  let ?b = "slotBase (ring_tail m)"
  note b = slotBase_bounds [of "ring_tail m"]
  show "length (put_slot f m) = length m" using assms b by (simp add: put_slot_def Put32_def)
  show "ring_head (put_slot f m) = ring_head m" "ring_tail (put_slot f m) = ring_tail m"
    using assms b by (simp_all add: head_tail_window(1) head_tail_window(2) [of "put_slot f m"]
        head_tail_window(2) [symmetric] put_slot_window)
  have "window ?b 4 (put_slot f m) = le32 (of_nat (length f))"
    using assms b window_go_copy [of ?b "le32 (of_nat (length f))" m]
    by (simp add: put_slot_def window_go_copy_other Put32_def) (simp add: window_def)
  then have "Get32 (drop ?b (put_slot f m)) = of_nat (length f)" by (simp add: Get32_window)
  moreover have "unat (of_nat (length f) :: u32) = length f"
    using assms(2) by (simp add: unsigned_of_nat take_bit_nat_eq_self)
  ultimately have u: "slot_len (put_slot f m) ?b = length f"
    using assms(2) by (simp add: slot_len_def Let_def word_less_nat_alt)
  have "window (?b + 4) (length f) (put_slot f m) = f"
    unfolding put_slot_def window_def by (rule window_go_copy) (use assms b in \<open>simp add: Put32_def\<close>)
  then show "ring_frame (put_slot f m) (ring_tail m) = f" by (simp add: ring_frame_def u)
qed

lemma put_slot_frame:
  assumes "RingSize \<le> length m" "length f \<le> 1526" "i < unat (ring_tail m - ring_head m)" "unat (ring_tail m - ring_head m) < 256"
  shows "ring_frame (put_slot f m) (ring_head m + of_nat i) = ring_frame m (ring_head m + of_nat i)"
proof (rule ring_frame_cong, rule put_slot_window [OF assms(1,2)])
  let ?n = "ring_head m + of_nat i"
  have t: "ring_tail m = ring_head m + of_nat (unat (ring_tail m - ring_head m))" by simp
  show "slotBase ?n + 1530 \<le> slotBase (ring_tail m) \<or> slotBase (ring_tail m) + 1530 \<le> slotBase ?n"
    using slotBase_apart [OF assms(3), of "ring_head m"] assms(4) t by auto
  show "slotBase ?n + 1530 \<le> length m" using slotBase_bounds [of ?n] assms(1) by simp
qed

lemma ring_Send_eq:
  "ring_Send f m =
    (if length f = 0 \<or> length f > 1526 \<or> unat (ring_tail m - ring_head m) \<ge> 256 then (False, m)
     else (True, setTail (ring_tail m + 1) (put_slot f m)))"
  by (simp add: ring_Send_def put_slot_def Let_def word_le_nat_alt)

lemma ring_Recv_eq:
  "ring_Recv m = (if ring_head m = ring_tail m then (None, m)
     else (Some (ring_frame m (ring_head m)), setHead (ring_head m + 1) m))"
  by (simp add: ring_Recv_def ring_frame_def Let_def)

lemma ring_Send_taken:
  assumes "ring_ok m" "ring_Send f m = (True, m')"
  shows "ring_ok m' \<and> ring_queue m' = ring_queue m @ [f]"
proof -
  let ?d = "unat (ring_tail m - ring_head m)" and ?p = "put_slot f m"
  have l: "RingSize \<le> length m" using assms(1) by (simp add: ring_ok_def)
  have f: "length f \<le> 1526" and d: "?d < 256" and m': "m' = setTail (ring_tail m + 1) ?p"
    using assms(2) by (auto simp: ring_Send_eq split: if_splits)
  have lp: "RingSize \<le> length ?p" using l put_slot_simps(1) [OF l f] by simp
  have d': "unat (ring_tail m + 1 - ring_head m) = Suc ?d"
  proof -
    have e: "ring_tail m + 1 - ring_head m = (ring_tail m - ring_head m) + 1" by simp
    show ?thesis unfolding e by (rule unat_succ) (use d in simp)
  qed
  have t: "ring_head m + of_nat ?d = ring_tail m" by simp
  show ?thesis
    unfolding m' ring_ok_def ring_queue_def
    using d' d l put_slot_simps [OF l f] put_slot_frame [OF l f] t
    by (simp add: set_simps [OF lp] del: of_nat_unat)
qed

interpretation ring_q: frame_queue ring_Send ring_Recv ring_ok ring_queue
proof
  fix m assume "ring_ok m" "ring_queue m = []"
  then show "ring_Recv m = (None, m)" by (simp add: ring_Recv_eq ring_queue_Nil)
next
  fix m f fs assume a: "ring_ok m" "ring_queue m = f # fs"
  then have "ring_head m \<noteq> ring_tail m" using ring_queue_Nil [of m] by auto
  then show "\<exists>m'. ring_Recv m = (Some f, m') \<and> ring_ok m' \<and> ring_queue m' = fs"
    using ring_queue_Cons [OF a(1)] a(2) by (simp add: ring_Recv_eq)
qed (use ring_Send_taken in \<open>auto simp: ring_Send_eq split: if_splits\<close>)

interpretation wire_q: frame_queue wire_Send wire_Recv "\<lambda>w. True" w_frames
  by unfold_locales (auto simp: wire_Send_def wire_Recv_def)

section \<open>Properties of the packet window\<close>

text \<open>C14: A packet window is a bounded first-in first-out queue for every interleaving of sends and
  receives, also when the 32-bit indices wrap around: the frames handed out, followed by
  those still queued, are the frames queued at the start followed by those taken in; at most 256
  are ever queued, and a send is refused exactly for an empty or oversized frame or a full window,
  changing nothing.\<close>

theorem ring_refines_fifo:
  assumes "ring_ok m" "qrun ring_Send ring_Recv ops m = (ins, outs, m')"
  shows "ring_ok m' \<and> ring_queue m @ ins = outs @ ring_queue m' \<and> length (ring_queue m') \<le> 256 \<and>
    (\<forall>f. fst (ring_Send f m') \<longleftrightarrow> 0 < length f \<and> length f \<le> 1526 \<and> length (ring_queue m') < 256) \<and>
    (\<forall>f. \<not> fst (ring_Send f m') \<longrightarrow> snd (ring_Send f m') = m')"
  using ring_q.qrun_fifo [OF assms] by (auto simp: ring_Send_eq ring_ok_def ring_queue_def)

definition fresh_ring :: WindowRing where
  "fresh_ring = replicate RingSize 0"

lemma fresh_ring: "ring_ok fresh_ring" "ring_queue fresh_ring = []"
proof -
  have "ring_head fresh_ring = 0" "ring_tail fresh_ring = 0"
    by (simp_all add: fresh_ring_def ring_head_def ring_tail_def Get32_def)
  then show "ring_ok fresh_ring" "ring_queue fresh_ring = []"
    by (simp_all add: ring_ok_def ring_queue_def fresh_ring_def)
qed

theorem ring_refines_fifo_witness:
  "\<exists>ins outs m'. qrun ring_Send ring_Recv [QSend [1,2,3], QSend [4], QRecv, QSend [], QRecv, QRecv] fresh_ring = (ins, outs, m') \<and>
     ins = [[1,2,3],[4]] \<and> outs @ ring_queue m' = [[1,2,3],[4]] \<and> ring_ok m'"
proof -
  let ?ops = "[QSend [1,2,3], QSend [4], QRecv, QSend [], QRecv, QRecv] :: qop list"
  obtain ins outs m' where r: "qrun ring_Send ring_Recv ?ops fresh_ring = (ins, outs, m')" by (metis prod_cases3)
  obtain m1 where m1: "ring_Send [1,2,3] fresh_ring = (True, m1)"
    using fresh_ring by (auto simp: ring_Send_eq ring_queue_Nil)
  then have q1: "ring_ok m1" "ring_queue m1 = [[1,2,3]]" using ring_Send_taken [OF fresh_ring(1)] fresh_ring(2) by auto
  have "unat (ring_tail m1 - ring_head m1) = 1" using arg_cong [OF q1(2), of length] by (simp add: ring_queue_def)
  then obtain m2 where m2: "ring_Send [4] m1 = (True, m2)" by (auto simp: ring_Send_eq)
  have "ring_Send [] m = (False, m)" for m by (simp add: ring_Send_eq)
  then have "ins = [[1,2,3],[4]]" using r m1 m2 by (auto simp: Let_def split: prod.splits)
  then show ?thesis using ring_refines_fifo [OF fresh_ring(1) r] r fresh_ring(2) by auto
qed

text \<open>Receiving is safe on any memory a broken or hostile producer may leave behind: whatever the
  indices and the length field of the slot say, the slice read lies inside the mapped memory, the frame
  has at most 1526 bytes, and nothing but the consumer index is written.\<close>

theorem ring_recv_bounded:
  assumes "NewWindowRing mem = Inr m" "ring_Recv m = (r, m')"
  shows "slotBase (ring_head m) + 4 + slot_len m (slotBase (ring_head m)) \<le> length m \<and>
    length m' = length m \<and> drop 4 m' = drop 4 m \<and>
    (case r of None \<Rightarrow> m' = m \<and> ring_head m = ring_tail m
     | Some f \<Rightarrow> length f \<le> 1526 \<and> ring_head m' = ring_head m + 1)"
proof -
  have l: "RingSize \<le> length m" using assms(1) by (auto simp: NewWindowRing_def split: if_splits)
  have b: "slotBase (ring_head m) + 4 + slot_len m (slotBase (ring_head m)) \<le> length m"
    using slotBase_bounds [of "ring_head m"] slot_len_le [of m "slotBase (ring_head m)"] l by linarith
  have "drop 4 (setHead v m) = drop 4 m" for v
    using l drop_go_copy [of 0 "le32 v" m] by (simp add: setHead_def Put32_def)
  then show ?thesis using assms(2) b l slot_len_le [of m "slotBase (ring_head m)"]
    by (auto simp: ring_Recv_eq set_simps [OF l] ring_frame_def split: if_splits)
qed

theorem ring_recv_bounded_witness:
  "\<exists>f m'. ring_Recv ((replicate RingSize 0xff)[0 := 0]) = (Some f, m') \<and> length f \<le> 1526"
proof -
  let ?m = "(replicate RingSize 0xff)[0 := 0] :: bytes"
  have "ring_head ?m \<noteq> ring_tail ?m"
    by (simp add: ring_head_def ring_tail_def Get32_def)
  then obtain f m' where r: "ring_Recv ?m = (Some f, m')" by (simp add: ring_Recv_eq)
  have "NewWindowRing ?m = Inr ?m" by (simp add: NewWindowRing_def)
  from ring_recv_bounded [OF this r] show ?thesis using r by auto
qed

end
