(* ===== verification/Net_Tcp.thy ===== *)
theory Net_Tcp
  imports Net_Codec "HOL-Library.Sublist"
begin

text \<open>
  The TCP endpoint of the network service (\<^verbatim>\<open>services/net/tcp.go\<close>): one connection as a
  record, its operations \<^verbatim>\<open>Write\<close>, \<^verbatim>\<open>Recv\<close>, \<^verbatim>\<open>Close\<close> and
  \<^verbatim>\<open>handle\<close>, and the connection table with listening and dialling.

  Every segment the code hands to \<^verbatim>\<open>SendTCPSegment\<close> is appended to the field
  \<^verbatim>\<open>c_out\<close>, oldest first; the connection never looks at the outcome of a send.
\<close>

section \<open>The connection\<close>

datatype tcpState = stateClosed | stateListen | stateSynSent | stateSynRcvd | stateEstablished
  | stateFinWait | stateCloseWait | stateLastAck

datatype terr = ErrConnReset | ErrRemoteClosed | ErrClosed

definition tcpState_String :: "tcpState \<Rightarrow> string" where
  "tcpState_String s =
     (case s of
        stateListen \<Rightarrow> ''LISTEN''
      | stateSynSent \<Rightarrow> ''SYN-SENT''
      | stateSynRcvd \<Rightarrow> ''SYN-RCVD''
      | stateEstablished \<Rightarrow> ''ESTABLISHED''
      | stateFinWait \<Rightarrow> ''FIN-WAIT''
      | stateCloseWait \<Rightarrow> ''CLOSE-WAIT''
      | stateLastAck \<Rightarrow> ''LAST-ACK''
      | _ \<Rightarrow> ''CLOSED'')"

record TCPConn =
  LocalIP :: IP4
  LocalPort :: u16
  RemoteIP :: IP4
  RemotePort :: u16
  c_state :: tcpState
  sndUNA :: u32
  sndNXT :: u32
  rcvNXT :: u32
  finSeq :: u32
  finSent :: bool
  finPending :: bool
  sndBuf :: bytes
  rcvBuf :: bytes
  inFlight :: bytes
  finAckedTheirFin :: bool
  c_l :: "u16 option"
  c_err :: "terr option"
  c_out :: "TCPSegment list"

definition zeroConn :: TCPConn where
  "zeroConn = \<lparr>LocalIP = zeroIP, LocalPort = 0, RemoteIP = zeroIP, RemotePort = 0, c_state = stateClosed,
     sndUNA = 0, sndNXT = 0, rcvNXT = 0, finSeq = 0, finSent = False, finPending = False, sndBuf = [],
     rcvBuf = [], inFlight = [], finAckedTheirFin = False, c_l = None, c_err = None, c_out = []\<rparr>"

abbreviation (input) tcpWindowCap :: nat where "tcpWindowCap \<equiv> 1024"
abbreviation (input) tcpMaxSeg :: nat where "tcpMaxSeg \<equiv> 512"

text \<open>\<^verbatim>\<open>Recv(buf)\<close> with a buffer of n bytes.\<close>

definition conn_Recv :: "nat \<Rightarrow> TCPConn \<Rightarrow> bytes \<times> TCPConn" where
  "conn_Recv n c = (take n (rcvBuf c), c\<lparr>rcvBuf := drop n (rcvBuf c)\<rparr>)"

definition conn_State :: "TCPConn \<Rightarrow> string" where
  "conn_State c = tcpState_String (c_state c)"

definition conn_Err :: "TCPConn \<Rightarrow> terr option" where
  "conn_Err c =
     (if length (rcvBuf c) > 0 \<and> (c_err c = Some ErrRemoteClosed \<or> c_err c = Some ErrClosed) then None
      else c_err c)"

definition sendLocked :: "byte \<Rightarrow> bytes \<Rightarrow> TCPConn \<Rightarrow> TCPConn" where
  "sendLocked flags payload c =
     (let seq = sndNXT c;
          seg = \<lparr>tSrcPort = LocalPort c, tDstPort = RemotePort c, tSeq = seq, tAck = rcvNXT c,
                 tFlags = (if flags AND TCPAck \<noteq> 0 \<or> c_state c \<noteq> stateSynSent then flags OR TCPAck else flags),
                 tWindow = of_nat (tcpWindowCap - length (inFlight c)), tPayload = payload\<rparr>;
          c = c\<lparr>sndNXT := sndNXT c + of_nat (length payload)\<rparr>;
          c = (if flags AND (TCPSyn OR TCPFin) \<noteq> 0 then c\<lparr>sndNXT := sndNXT c + 1\<rparr> else c);
          c = (if flags AND TCPFin \<noteq> 0 then c\<lparr>finSeq := seq, finSent := True\<rparr> else c);
          c = (if length payload > 0 then c\<lparr>inFlight := inFlight c @ payload\<rparr> else c)
      in c\<lparr>c_out := c_out c @ [seg]\<rparr>)"

lemma sendLocked_simps [simp]:
  "sndBuf (sendLocked f p c) = sndBuf c" "rcvBuf (sendLocked f p c) = rcvBuf c"
  "c_state (sendLocked f p c) = c_state c" "rcvNXT (sendLocked f p c) = rcvNXT c"
  "inFlight (sendLocked f p c) = inFlight c @ p" "sndUNA (sendLocked f p c) = sndUNA c"
  "finPending (sendLocked f p c) = finPending c" "c_err (sendLocked f p c) = c_err c"
  "finAckedTheirFin (sendLocked f p c) = finAckedTheirFin c" "c_l (sendLocked f p c) = c_l c"
  "finSent (sendLocked f p c) \<longleftrightarrow> finSent c \<or> f AND TCPFin \<noteq> 0"
  "RemoteIP (sendLocked f p c) = RemoteIP c" "LocalPort (sendLocked f p c) = LocalPort c"
  by (simp_all add: sendLocked_def Let_def)

text \<open>The loop segments the queue while the window of unacknowledged bytes has room.\<close>

function flushLocked :: "TCPConn \<Rightarrow> TCPConn" where
  "flushLocked c =
     (if c_state c = stateEstablished \<and> length (sndBuf c) > 0 \<and> length (inFlight c) < tcpWindowCap
      then
        let n = min tcpMaxSeg (length (sndBuf c));
            room = tcpWindowCap - length (inFlight c);
            n = (if n > room then room else n);
            payload = take n (sndBuf c);
            c = c\<lparr>sndBuf := drop n (sndBuf c)\<rparr>
        in flushLocked (sendLocked 0 payload c)
      else c)"
  by pat_completeness auto
termination
  by (relation "measure (\<lambda>c. length (sndBuf c))") auto

declare flushLocked.simps [simp del]

definition trySendFinLocked :: "TCPConn \<Rightarrow> TCPConn" where
  "trySendFinLocked c =
     (if \<not> finPending c \<or> length (sndBuf c) > 0 \<or> length (inFlight c) > 0 then c
      else case c_state c of
        stateEstablished \<Rightarrow> sendLocked TCPFin [] (c\<lparr>c_state := stateFinWait\<rparr>)
      | stateCloseWait \<Rightarrow> sendLocked TCPFin [] (c\<lparr>c_state := stateLastAck\<rparr>)
      | _ \<Rightarrow> c)"

definition conn_Write :: "bytes \<Rightarrow> TCPConn \<Rightarrow> (terr + nat) \<times> TCPConn" where
  "conn_Write data c =
     (if c_state c \<noteq> stateEstablished \<or> finPending c then (Inl ErrClosed, c)
      else (Inr (length data), flushLocked (c\<lparr>sndBuf := sndBuf c @ data\<rparr>)))"

definition conn_Close :: "TCPConn \<Rightarrow> (terr + unit) \<times> TCPConn" where
  "conn_Close c =
     (case c_state c of
        stateEstablished \<Rightarrow> (Inr (), trySendFinLocked ((flushLocked c)\<lparr>finPending := True\<rparr>))
      | stateCloseWait \<Rightarrow> (Inr (), trySendFinLocked (c\<lparr>finPending := True\<rparr>))
      | stateClosed \<Rightarrow> (Inr (), c)
      | _ \<Rightarrow> (Inl ErrClosed, c))"

text \<open>The parts of \<^verbatim>\<open>handle\<close>: the cumulative acknowledgement, the delivery of in-order
  payload (the same statements three times in the code), the consumption of a FIN, and the
  switch on the state.\<close>

definition conn_ack :: "TCPSegment \<Rightarrow> TCPConn \<Rightarrow> TCPConn" where
  "conn_ack seg c =
     (if tFlags seg AND TCPAck \<noteq> 0 \<and> seqGE (tAck seg) (sndUNA c) \<and> seqGT (tAck seg) (sndUNA c) \<and>
         seqGE (sndNXT c) (tAck seg)
      then
        let acked = unat (tAck seg - sndUNA c)
        in if acked > 0
           then
             let c = c\<lparr>inFlight := (if acked \<ge> length (inFlight c) then [] else drop acked (inFlight c))\<rparr>;
                 c = c\<lparr>sndUNA := tAck seg\<rparr>;
                 c = (if c_state c = stateEstablished then flushLocked c else c)
             in trySendFinLocked c
           else c
      else c)"

definition deliver_payload :: "TCPSegment \<Rightarrow> TCPConn \<Rightarrow> TCPConn" where
  "deliver_payload seg c =
     (if length (tPayload seg) > 0 \<and> tSeq seg = rcvNXT c
      then sendLocked TCPAck []
             (c\<lparr>rcvBuf := rcvBuf c @ tPayload seg, rcvNXT := rcvNXT c + of_nat (length (tPayload seg))\<rparr>)
      else c)"

definition fin_in_order :: "TCPSegment \<Rightarrow> TCPConn \<Rightarrow> bool" where
  "fin_in_order seg c \<longleftrightarrow>
     tFlags seg AND TCPFin \<noteq> 0 \<and> tSeq seg + of_nat (length (tPayload seg)) = rcvNXT c"

definition take_fin :: "TCPConn \<Rightarrow> TCPConn" where
  "take_fin c = sendLocked TCPAck [] (c\<lparr>rcvNXT := rcvNXT c + 1\<rparr>)"

text \<open>The second component says whether the connection was offered to its listener.\<close>

definition conn_switch :: "TCPSegment \<Rightarrow> TCPConn \<Rightarrow> TCPConn \<times> bool" where
  "conn_switch seg c =
     (case c_state c of
        stateListen \<Rightarrow>
          (if tFlags seg AND TCPSyn \<noteq> 0 \<and> tFlags seg AND TCPAck = 0
           then sendLocked (TCPSyn OR TCPAck) [] (c\<lparr>rcvNXT := tSeq seg + 1, c_state := stateSynRcvd\<rparr>)
           else c, False)
      | stateSynSent \<Rightarrow>
          (if tFlags seg AND TCPSyn \<noteq> 0 \<and> tFlags seg AND TCPAck \<noteq> 0
           then flushLocked (sendLocked TCPAck []
                  (c\<lparr>rcvNXT := tSeq seg + 1, sndUNA := tAck seg, inFlight := [], c_state := stateEstablished\<rparr>))
           else c, False)
      | stateSynRcvd \<Rightarrow>
          (if tFlags seg AND TCPAck \<noteq> 0
           then (c\<lparr>c_state := stateEstablished\<rparr>, c_l c \<noteq> None)
           else (c, False))
      | stateEstablished \<Rightarrow>
          (let c = deliver_payload seg c
           in if fin_in_order seg c
              then (take_fin c)\<lparr>c_state := stateCloseWait, c_err := Some ErrRemoteClosed\<rparr>
              else c, False)
      | stateFinWait \<Rightarrow>
          (let c = deliver_payload seg c;
               c = (if fin_in_order seg c then take_fin c else c);
               finAcked = (\<not> finSent c \<or> seqGE (sndUNA c) (finSeq c + 1));
               theirFinSeen = (tFlags seg AND TCPFin \<noteq> 0 \<or> finAckedTheirFin c);
               c = (if tFlags seg AND TCPFin \<noteq> 0 then c\<lparr>finAckedTheirFin := True\<rparr> else c)
           in if finAcked \<and> theirFinSeen
              then c\<lparr>c_state := stateClosed, c_err := Some ErrClosed\<rparr>
              else c, False)
      | stateLastAck \<Rightarrow>
          (if tFlags seg AND TCPAck \<noteq> 0 \<and> finSent c \<and> seqGE (sndUNA c) (finSeq c + 1)
           then c\<lparr>c_state := stateClosed, c_err := Some ErrClosed\<rparr>
           else c, False)
      | _ \<Rightarrow> (c, False))"

definition conn_handle :: "TCPSegment \<Rightarrow> TCPConn \<Rightarrow> TCPConn \<times> bool" where
  "conn_handle seg c =
     (if tFlags seg AND TCPRst \<noteq> 0 \<and> c_state c \<noteq> stateClosed \<and> c_state c \<noteq> stateListen
      then (c\<lparr>c_state := stateClosed, c_err := Some ErrConnReset\<rparr>, False)
      else
        let (c, offered) = conn_switch seg (conn_ack seg c);
            c = (if c_state c = stateEstablished then deliver_payload seg c else c)
        in (c, offered))"

section \<open>The connection table\<close>

record TCPListener =
  l_port :: u16
  l_q :: "u16 list"

record TCPStack =
  conns :: "u16 \<rightharpoonup> TCPConn"
  listeners :: "u16 \<rightharpoonup> TCPListener"
  nextEphemeral :: u16

definition NewTCPStack :: TCPStack where
  "NewTCPStack = \<lparr>conns = Map.empty, listeners = Map.empty, nextEphemeral = 49152\<rparr>"

text \<open>\<^verbatim>\<open>select { case c.l.q <- c: default: }\<close> on a channel of capacity 16; the connection is
  named by its local port.\<close>

definition offer :: "u16 \<Rightarrow> TCPStack \<Rightarrow> TCPStack" where
  "offer port t =
     (case listeners t port of
        None \<Rightarrow> t
      | Some l \<Rightarrow>
          if length (l_q l) < 16 then t\<lparr>listeners := (listeners t)(port \<mapsto> l\<lparr>l_q := l_q l @ [port]\<rparr>)\<rparr> else t)"

definition tcp_handle :: "IP4Packet \<Rightarrow> TCPStack \<Rightarrow> TCPStack" where
  "tcp_handle pkt t =
     (case ParseTCP (pPayload pkt) of
        Inl e \<Rightarrow> t
      | Inr seg \<Rightarrow>
          (case conns t (tDstPort seg) of
             None \<Rightarrow> t
           | Some c \<Rightarrow>
               let c = (if c_state c = stateListen \<and> tFlags seg AND TCPSyn \<noteq> 0 \<and> tFlags seg AND TCPAck = 0
                        then c\<lparr>RemoteIP := pSrc pkt, RemotePort := tSrcPort seg\<rparr> else c);
                   (c, offered) = conn_handle seg c;
                   t = t\<lparr>conns := (conns t)(tDstPort seg \<mapsto> c)\<rparr>
               in if offered then offer (tDstPort seg) t else t))"

definition Listen :: "u16 \<Rightarrow> TCPStack \<Rightarrow> (nerr + u16) \<times> TCPStack" where
  "Listen port t =
     (case conns t port of
        Some c \<Rightarrow> (Inl ErrPortInUse, t)
      | None \<Rightarrow>
          (Inr port, t\<lparr>listeners := (listeners t)(port \<mapsto> \<lparr>l_port = port, l_q = []\<rparr>),
                       conns := (conns t)(port \<mapsto> zeroConn\<lparr>LocalPort := port, c_state := stateListen, c_l := Some port\<rparr>)\<rparr>))"

text \<open>\<^verbatim>\<open>for { p := t.nextEphemeral; t.nextEphemeral++; if !used { return p } }\<close>: the loop ends
  only if some port is free, so it is a partial function.\<close>

partial_function (option) ephemeral :: "TCPStack \<Rightarrow> (u16 \<times> TCPStack) option" where
  "ephemeral t =
     (let p = nextEphemeral t; t = t\<lparr>nextEphemeral := nextEphemeral t + 1\<rparr>
      in if conns t p = None then Some (p, t) else ephemeral t)"

definition dial_conn :: "IP4 \<Rightarrow> u16 \<Rightarrow> IP4 \<Rightarrow> u16 \<Rightarrow> TCPConn" where
  "dial_conn laddr local raddr rport =
     zeroConn\<lparr>LocalIP := laddr, LocalPort := local, RemoteIP := raddr, RemotePort := rport,
       c_state := stateSynSent, sndUNA := 1000, sndNXT := 1000, rcvNXT := 0\<rparr>"

definition Dial :: "IP4 \<Rightarrow> IP4 \<Rightarrow> u16 \<Rightarrow> TCPStack \<Rightarrow> (u16 \<times> TCPStack) option" where
  "Dial laddr raddr rport t =
     (case ephemeral t of
        None \<Rightarrow> None
      | Some (local, t) \<Rightarrow>
          let conn = sendLocked TCPSyn [] (dial_conn laddr local raddr rport)
          in Some (local, t\<lparr>conns := (conns t)(local \<mapsto> conn)\<rparr>))"

definition Accept :: "u16 \<Rightarrow> TCPStack \<Rightarrow> (nerr + u16) \<times> TCPStack" where
  "Accept port t =
     (case listeners t port of
        None \<Rightarrow> (Inl ErrNoPending, t)
      | Some l \<Rightarrow>
          (case l_q l of
             [] \<Rightarrow> (Inl ErrNoPending, t)
           | c # cs \<Rightarrow> (Inr c, t\<lparr>listeners := (listeners t)(port \<mapsto> l\<lparr>l_q := cs\<rparr>)\<rparr>)))"

definition Pending :: "u16 \<Rightarrow> TCPStack \<Rightarrow> bool" where
  "Pending port t = (case listeners t port of None \<Rightarrow> False | Some l \<Rightarrow> l_q l \<noteq> [])"

end
