(* ===== verification/Net_Tcp_Stream.thy ===== *)
theory Net_Tcp_Stream
  imports Net_Tcp
begin

text \<open>
  What the TCP endpoint guarantees about its byte streams, over any sequence of application
  calls and inbound segments.  The sending side keeps every emitted segment consistent with
  the bytes the application wrote; the receiving side hands on a prefix of the stream its
  inbound segments describe; both together give safe delivery over a network that
  loses, repeats and reorders segments.
\<close>

section \<open>Runs of one endpoint\<close>

datatype tcp_ev = EvSeg TCPSegment | EvWrite bytes | EvRecv nat | EvClose

text \<open>An endpoint with the bytes its application has read and the bytes it has written.\<close>

type_synonym endpoint = "TCPConn \<times> bytes \<times> bytes"

fun tcp_step :: "tcp_ev \<Rightarrow> endpoint \<Rightarrow> endpoint" where
  "tcp_step (EvSeg s) (c, got, wr) = (fst (conn_handle s c), got, wr)"
| "tcp_step (EvWrite d) (c, got, wr) =
     (case conn_Write d c of (Inl e, c') \<Rightarrow> (c', got, wr) | (Inr n, c') \<Rightarrow> (c', got, wr @ take n d))"
| "tcp_step (EvRecv n) (c, got, wr) = (let (b, c') = conn_Recv n c in (c', got @ b, wr))"
| "tcp_step EvClose (c, got, wr) = (snd (conn_Close c), got, wr)"

fun tcp_run :: "tcp_ev list \<Rightarrow> endpoint \<Rightarrow> endpoint" where
  "tcp_run [] e = e"
| "tcp_run (ev # evs) e = tcp_run evs (tcp_step ev e)"

fun inbound :: "tcp_ev list \<Rightarrow> TCPSegment list" where
  "inbound [] = []"
| "inbound (EvSeg s # evs) = s # inbound evs"
| "inbound (_ # evs) = inbound evs"

text \<open>The two ways an endpoint starts, with the initial sequence number each uses.\<close>

definition fresh_conn :: "u32 \<Rightarrow> TCPConn \<Rightarrow> bool" where
  "fresh_conn iss c \<longleftrightarrow>
     (iss = 0 \<and> (\<exists>port. c = zeroConn\<lparr>LocalPort := port, c_state := stateListen, c_l := Some port\<rparr>)) \<or>
     (iss = 1000 \<and> (\<exists>la lp ra rp. c = sendLocked TCPSyn [] (dial_conn la lp ra rp)))"

text \<open>A segment of the stream \<^verbatim>\<open>W\<close> that starts right after the sequence number \<^verbatim>\<open>iss\<close>.\<close>

definition seg_from :: "u32 \<Rightarrow> bytes \<Rightarrow> TCPSegment \<Rightarrow> bool" where
  "seg_from iss W s \<longleftrightarrow>
     (tFlags s AND TCPSyn \<noteq> 0 \<longrightarrow> tSeq s = iss \<and> tPayload s = []) \<and>
     (tPayload s \<noteq> [] \<longrightarrow>
        (\<exists>off. off + length (tPayload s) \<le> length W \<and> tSeq s = iss + 1 + of_nat off \<and>
               tPayload s = window off (length (tPayload s)) W)) \<and>
     (tFlags s AND TCPFin \<noteq> 0 \<longrightarrow> tSeq s + of_nat (length (tPayload s)) = iss + 1 + of_nat (length W))"

section \<open>The sending side\<close>

definition snd_inv :: "u32 \<Rightarrow> bytes \<Rightarrow> TCPConn \<Rightarrow> bool" where
  "snd_inv iss W c \<longleftrightarrow>
     (if c_state c = stateListen
      then W = [] \<and> sndNXT c = iss \<and> c_out c = [] \<and> \<not> finPending c \<and> \<not> finSent c
      else sndNXT c = iss + 1 + of_nat (length W - length (sndBuf c)) + (if finSent c then 1 else 0)) \<and>
     suffix (sndBuf c) W \<and> length (inFlight c) \<le> 1024 \<and>
     (finSent c \<longrightarrow> finPending c \<and> sndBuf c = [] \<and> c_state c \<in> {stateFinWait, stateLastAck, stateClosed}) \<and>
     (\<forall>s\<in>set (c_out c). seg_from iss W s \<and> length (tPayload s) \<le> 512 \<and> (tFlags s AND TCPFin \<noteq> 0 \<longrightarrow> finSent c))"

lemma snd_inv_cong [simp]:
  "snd_inv iss W (c\<lparr>rcvNXT := a\<rparr>) = snd_inv iss W c" "snd_inv iss W (c\<lparr>rcvBuf := b\<rparr>) = snd_inv iss W c"
  "snd_inv iss W (c\<lparr>sndUNA := a\<rparr>) = snd_inv iss W c" "snd_inv iss W (c\<lparr>c_err := e\<rparr>) = snd_inv iss W c"
  "snd_inv iss W (c\<lparr>finAckedTheirFin := f\<rparr>) = snd_inv iss W c"
  "snd_inv iss W (c\<lparr>finAckedTheirFin := f, c_state := st\<rparr>) = snd_inv iss W (c\<lparr>c_state := st\<rparr>)"
  by (simp_all add: snd_inv_def)

lemma out_sendLocked:
  "c_out (sendLocked f p c) = c_out c @ [\<lparr>tSrcPort = LocalPort c, tDstPort = RemotePort c, tSeq = sndNXT c,
     tAck = rcvNXT c, tFlags = (if f AND TCPAck \<noteq> 0 \<or> c_state c \<noteq> stateSynSent then f OR TCPAck else f),
     tWindow = of_nat (1024 - length (inFlight c)), tPayload = p\<rparr>]"
  "sndNXT (sendLocked f p c) = sndNXT c + of_nat (length p) + (if f AND (TCPSyn OR TCPFin) \<noteq> 0 then 1 else 0)"
  by (simp_all add: sendLocked_def Let_def)

lemma send_ack: "c_state c \<noteq> stateListen \<Longrightarrow> snd_inv iss W c \<Longrightarrow> snd_inv iss W (sendLocked TCPAck [] c)"
  by (auto simp: snd_inv_def out_sendLocked seg_from_def)

lemma send_data:
  assumes "snd_inv iss W c" "c_state c = stateEstablished" "n \<le> length (sndBuf c)" "n \<le> 512"
    "length (inFlight c) + n \<le> 1024"
  shows "snd_inv iss W (sendLocked 0 (take n (sndBuf c)) (c\<lparr>sndBuf := drop n (sndBuf c)\<rparr>))"
proof -
  obtain A where W: "W = A @ sndBuf c" using assms(1) by (auto simp: snd_inv_def suffix_def)
  have nf: "\<not> finSent c" using assms(1,2) by (auto simp: snd_inv_def)
  have seq: "sndNXT c = iss + 1 + of_nat (length A)" using assms(1,2) nf by (simp add: snd_inv_def W)
  have "suffix (drop n (sndBuf c)) W" using W by (metis append.assoc append_take_drop_id suffixI)
  moreover have "length W - length (drop n (sndBuf c)) = length A + n" using assms(3) by (simp add: W)
  moreover have "take n (sndBuf c) = window (length A) n W" by (simp add: W window_def)
  ultimately show ?thesis
    using assms seq nf by (auto simp: snd_inv_def out_sendLocked seg_from_def W min_def intro!: exI [of _ "length A"])
qed

lemma flush_inv: "snd_inv iss W c \<Longrightarrow> snd_inv iss W (flushLocked c)"
proof (induction c rule: flushLocked.induct)
  case (1 c)
  show ?case
  proof (cases "c_state c = stateEstablished \<and> length (sndBuf c) > 0 \<and> length (inFlight c) < 1024")
    case True
    let ?m = "min 512 (length (sndBuf c))" and ?room = "1024 - length (inFlight c)"
    let ?n = "if ?m > ?room then ?room else ?m"
    have "snd_inv iss W (sendLocked 0 (take ?n (sndBuf c)) (c\<lparr>sndBuf := drop ?n (sndBuf c)\<rparr>))"
      by (rule send_data [OF 1(2)]) (use True in auto)
    then show ?thesis using 1(1) [OF True refl refl refl refl refl] True
      by (subst flushLocked.simps) (simp add: Let_def)
  qed (subst flushLocked.simps, use 1 in auto)
qed

lemma flush_rule:
  assumes "P c" and step: "\<And>c n. P c \<Longrightarrow> P (sendLocked 0 (take n (sndBuf c)) (c\<lparr>sndBuf := drop n (sndBuf c)\<rparr>))"
  shows "P (flushLocked c)"
  using assms(1)
proof (induction c rule: flushLocked.induct)
  case (1 c)
  show ?case
  proof (cases "c_state c = stateEstablished \<and> length (sndBuf c) > 0 \<and> length (inFlight c) < 1024")
    case True
    then show ?thesis using 1(1) [OF True refl refl refl refl refl] step [OF 1(2)]
      by (subst flushLocked.simps) (simp add: Let_def)
  qed (subst flushLocked.simps, use 1 in auto)
qed

lemma flush_state [simp]:
  "c_state (flushLocked c) = c_state c" "rcvBuf (flushLocked c) = rcvBuf c" "rcvNXT (flushLocked c) = rcvNXT c"
  "finPending (flushLocked c) = finPending c" "finSent (flushLocked c) = finSent c" "sndUNA (flushLocked c) = sndUNA c"
  "c_l (flushLocked c) = c_l c" "finAckedTheirFin (flushLocked c) = finAckedTheirFin c" "c_err (flushLocked c) = c_err c"
  by (rule flush_rule, simp_all)+

lemma fin_inv:
  assumes "snd_inv iss W c" "finPending c" "sndBuf c = []" "c_state c \<in> {stateEstablished, stateCloseWait}"
    "st \<in> {stateFinWait, stateLastAck}"
  shows "snd_inv iss W (sendLocked TCPFin [] (c\<lparr>c_state := st\<rparr>))"
proof -
  have nf: "\<not> finSent c" using assms(1,4) by (auto simp: snd_inv_def)
  then show ?thesis using assms by (auto simp: snd_inv_def out_sendLocked seg_from_def)
qed

lemma trySendFin_inv: "snd_inv iss W c \<Longrightarrow> snd_inv iss W (trySendFinLocked c)"
  using fin_inv [of iss W c] by (auto simp: trySendFinLocked_def split: tcpState.split)

lemma Listen_ack: "c_state c = stateListen \<Longrightarrow> \<not> finPending c \<Longrightarrow> c_state (conn_ack s c) = stateListen \<and> \<not> finPending (conn_ack s c)"
  by (simp add: conn_ack_def trySendFinLocked_def Let_def)

lemma shrink_inv: "snd_inv iss W c \<Longrightarrow> length p \<le> 1024 \<Longrightarrow> snd_inv iss W (c\<lparr>inFlight := p\<rparr>)"
  by (simp add: snd_inv_def)

lemma ack_inv: "snd_inv iss W c \<Longrightarrow> snd_inv iss W (conn_ack s c)"
proof -
  assume i: "snd_inv iss W c"
  let ?f = "if unat (tAck s - sndUNA c) \<ge> length (inFlight c) then [] else drop (unat (tAck s - sndUNA c)) (inFlight c)"
  have "length ?f \<le> 1024" using i by (auto simp: snd_inv_def)
  then have "snd_inv iss W (c\<lparr>inFlight := ?f, sndUNA := tAck s\<rparr>)" using shrink_inv [OF i] by simp
  then have "snd_inv iss W (trySendFinLocked (if c_state c = stateEstablished
      then flushLocked (c\<lparr>inFlight := ?f, sndUNA := tAck s\<rparr>) else c\<lparr>inFlight := ?f, sndUNA := tAck s\<rparr>))"
    by (intro trySendFin_inv) (simp add: flush_inv)
  then show ?thesis using i by (simp add: conn_ack_def Let_def)
qed

lemma state_inv:
  assumes "snd_inv iss W c" "c_state c \<noteq> stateListen" "st \<noteq> stateListen"
    "finSent c \<longrightarrow> st \<in> {stateFinWait, stateLastAck, stateClosed}"
  shows "snd_inv iss W (c\<lparr>c_state := st\<rparr>)"
  using assms by (auto simp: snd_inv_def)

lemma deliver_inv: "snd_inv iss W c \<Longrightarrow> c_state c \<noteq> stateListen \<Longrightarrow> snd_inv iss W (deliver_payload s c)"
  by (simp add: deliver_payload_def send_ack)

lemma take_fin_inv: "snd_inv iss W c \<Longrightarrow> c_state c \<noteq> stateListen \<Longrightarrow> snd_inv iss W (take_fin c)"
  by (simp add: take_fin_def send_ack)

lemma deliver_state [simp]:
  "c_state (deliver_payload s c) = c_state c" "finSent (deliver_payload s c) = finSent c"
  "c_state (take_fin c) = c_state c" "finSent (take_fin c) = finSent c"
  "inFlight (deliver_payload s c) = inFlight c" "inFlight (take_fin c) = inFlight c"
  "sndBuf (deliver_payload s c) = sndBuf c" "sndBuf (take_fin c) = sndBuf c"
  "finPending (deliver_payload s c) = finPending c" "finPending (take_fin c) = finPending c"
  by (simp_all add: deliver_payload_def take_fin_def)

lemma finSent_state: "snd_inv iss W c \<Longrightarrow> finSent c \<Longrightarrow> c_state c \<in> {stateFinWait, stateLastAck, stateClosed}"
  by (simp add: snd_inv_def)

lemma synack_inv:
  assumes "snd_inv iss W c" "c_state c = stateListen"
  shows "snd_inv iss W (sendLocked (TCPSyn OR TCPAck) [] (c\<lparr>rcvNXT := a, c_state := stateSynRcvd\<rparr>))"
  using assms by (auto simp: snd_inv_def out_sendLocked seg_from_def)

lemma switch_inv:
  assumes "snd_inv iss W c"
  shows "snd_inv iss W (fst (conn_switch s c))"
proof (cases "c_state c")
  case stateListen
  then show ?thesis using assms synack_inv [OF assms stateListen] by (simp add: conn_switch_def)
next
  case stateSynSent
  let ?d = "c\<lparr>rcvNXT := tSeq s + 1, sndUNA := tAck s, inFlight := [], c_state := stateEstablished\<rparr>"
  have "snd_inv iss W ?d"
    using assms stateSynSent finSent_state [OF assms] by (intro state_inv) (auto intro!: shrink_inv)
  then show ?thesis using assms stateSynSent by (simp add: conn_switch_def flush_inv send_ack)
next
  case stateSynRcvd
  then show ?thesis using assms finSent_state [OF assms]
    by (auto simp: conn_switch_def intro!: state_inv)
next
  case stateEstablished
  have d: "snd_inv iss W (deliver_payload s c)" using assms stateEstablished by (simp add: deliver_inv)
  have "snd_inv iss W ((take_fin (deliver_payload s c))\<lparr>c_state := stateCloseWait\<rparr>)"
    using finSent_state [OF assms] stateEstablished take_fin_inv [OF d] by (intro state_inv) auto
  then show ?thesis using stateEstablished d by (simp add: conn_switch_def Let_def)
next
  case stateFinWait
  let ?d = "let d = deliver_payload s c in if fin_in_order s d then take_fin d else d"
  have "snd_inv iss W ?d" "c_state ?d = stateFinWait"
    using assms stateFinWait deliver_inv [OF assms, of s] take_fin_inv by (simp_all add: Let_def)
  then have "snd_inv iss W (?d\<lparr>c_state := stateClosed\<rparr>)" "snd_inv iss W ?d" by (auto intro!: state_inv)
  then show ?thesis using stateFinWait by (simp add: conn_switch_def Let_def split: if_splits)
next
  case stateLastAck
  then show ?thesis using assms by (auto simp: conn_switch_def intro!: state_inv)
qed (use assms in \<open>simp_all add: conn_switch_def\<close>)

lemma handle_inv: "snd_inv iss W c \<Longrightarrow> snd_inv iss W (fst (conn_handle s c))"
proof -
  assume i: "snd_inv iss W c"
  obtain d ofr where d: "conn_switch s (conn_ack s c) = (d, ofr)" by fastforce
  have "snd_inv iss W d" using switch_inv [OF ack_inv [OF i], of s s] d by simp
  then have "snd_inv iss W (if c_state d = stateEstablished then deliver_payload s d else d)"
    by (simp add: deliver_inv)
  moreover have "snd_inv iss W (c\<lparr>c_state := stateClosed\<rparr>)" if "c_state c \<noteq> stateListen"
    using i that by (intro state_inv) auto
  ultimately show ?thesis using i d by (simp add: conn_handle_def)
qed

lemma grow_seg: "seg_from iss W s \<Longrightarrow> tFlags s AND TCPFin = 0 \<Longrightarrow> seg_from iss (W @ d) s"
proof -
  assume a: "seg_from iss W s" "tFlags s AND TCPFin = 0"
  have w: "window off n (W @ d) = window off n W" if "off + n \<le> length W" for off n
    using that by (simp add: window_def)
  have "\<exists>off. off + length (tPayload s) \<le> length (W @ d) \<and> tSeq s = iss + 1 + of_nat off \<and>
      tPayload s = window off (length (tPayload s)) (W @ d)" if ne: "tPayload s \<noteq> []"
  proof -
    obtain off where o: "off + length (tPayload s) \<le> length W" "tSeq s = iss + 1 + of_nat off"
      "tPayload s = window off (length (tPayload s)) W" using a(1) ne unfolding seg_from_def by blast
    show ?thesis using o w [OF o(1)] by (intro exI [of _ off]) simp
  qed
  then show "seg_from iss (W @ d) s" using a by (simp add: seg_from_def)
qed

lemma write_inv:
  assumes "snd_inv iss W c" "c_state c = stateEstablished" "\<not> finPending c"
  shows "snd_inv iss (W @ d) (c\<lparr>sndBuf := sndBuf c @ d\<rparr>)"
proof -
  have "\<not> finSent c" using assms by (auto simp: snd_inv_def)
  then have "seg_from iss (W @ d) s \<and> length (tPayload s) \<le> 512 \<and> tFlags s AND TCPFin = 0" if "s \<in> set (c_out c)" for s
    using assms(1) that by (auto simp: snd_inv_def intro: grow_seg)
  then show ?thesis using assms by (auto simp: snd_inv_def suffix_def)
qed

lemma step_snd_inv:
  assumes "snd_inv iss wr c" "tcp_step ev (c, got, wr) = (c', got', wr')"
  shows "snd_inv iss wr' c'"
proof (cases ev)
  case (EvSeg s)
  then show ?thesis using assms handle_inv [OF assms(1), of s] by auto
next
  case (EvWrite d)
  then show ?thesis using assms write_inv [OF assms(1), of d]
    by (auto simp: conn_Write_def intro!: flush_inv split: if_splits)
next
  case (EvRecv n)
  then show ?thesis using assms by (auto simp: conn_Recv_def)
next
  case EvClose
  have p: "snd_inv iss wr (d\<lparr>finPending := True\<rparr>)" if "snd_inv iss wr d" "c_state d \<noteq> stateListen" for d
    using that by (auto simp: snd_inv_def)
  have "snd_inv iss wr (snd (conn_Close c))"
    unfolding conn_Close_def
    using assms(1) flush_inv [OF assms(1)] by (auto intro!: trySendFin_inv p split: tcpState.split)
  then show ?thesis using EvClose assms(2) by auto
qed

lemma run_snd_inv:
  "snd_inv iss wr c \<Longrightarrow> tcp_run evs (c, got, wr) = (c', got', wr') \<Longrightarrow> snd_inv iss wr' c'"
proof (induction evs arbitrary: c got wr)
  case (Cons ev evs)
  obtain c1 g1 w1 where "tcp_step ev (c, got, wr) = (c1, g1, w1)" by (metis prod_cases3)
  then show ?case using Cons.IH [OF step_snd_inv [OF Cons.prems(1)]] Cons.prems(2) by simp
qed simp

lemma fresh_snd_inv: "fresh_conn iss c \<Longrightarrow> snd_inv iss [] c"
  by (auto simp: fresh_conn_def snd_inv_def zeroConn_def dial_conn_def out_sendLocked seg_from_def)

section \<open>The receiving side\<close>

definition rcv_inv :: "u32 \<Rightarrow> bytes \<Rightarrow> bytes \<Rightarrow> TCPConn \<Rightarrow> bool" where
  "rcv_inv irs S got c \<longleftrightarrow>
     (case c_state c of
        stateListen \<Rightarrow> got = [] \<and> rcvBuf c = []
      | stateSynSent \<Rightarrow> got = [] \<and> rcvBuf c = []
      | stateClosed \<Rightarrow> prefix (got @ rcvBuf c) S
      | _ \<Rightarrow> \<exists>n\<le>length S. got @ rcvBuf c = take n S \<and>
               (rcvNXT c = irs + 1 + of_nat n \<or> n = length S \<and> rcvNXT c = irs + 1 + of_nat (Suc n)))"

definition synced :: "TCPConn \<Rightarrow> bool" where
  "synced c \<longleftrightarrow> c_state c \<notin> {stateListen, stateSynSent, stateClosed}"

lemma rcv_inv_synced:
  "synced c \<Longrightarrow> rcv_inv irs S got c \<longleftrightarrow>
     (\<exists>n\<le>length S. got @ rcvBuf c = take n S \<and>
       (rcvNXT c = irs + 1 + of_nat n \<or> n = length S \<and> rcvNXT c = irs + 1 + of_nat (Suc n)))"
  by (cases "c_state c") (simp_all add: rcv_inv_def synced_def)

lemma rcv_syncedE:
  assumes "synced c" "rcv_inv irs S got c"
  obtains n where "n \<le> length S" "got @ rcvBuf c = take n S"
    "rcvNXT c = irs + 1 + of_nat n \<or> n = length S \<and> rcvNXT c = irs + 1 + of_nat (Suc n)"
  using assms(2) unfolding rcv_inv_synced [OF assms(1)] by blast

lemma rcv_cong:
  assumes "c_state c = c_state d \<or> synced c \<and> synced d" "rcvBuf c = rcvBuf d" "rcvNXT c = rcvNXT d"
  shows "rcv_inv irs S got c = rcv_inv irs S got d"
proof (cases "c_state c = c_state d")
  case True
  then show ?thesis unfolding rcv_inv_def assms(2,3) by simp
next
  case False
  then show ?thesis using assms by (simp only: rcv_inv_synced simp_thms)
qed

lemma rcv_closed: "rcv_inv irs S got c \<Longrightarrow> rcv_inv irs S got (c\<lparr>c_state := stateClosed\<rparr>)"
  by (cases "c_state c") (auto simp: rcv_inv_def take_is_prefix)

lemma of_nat_u32_inj: "a < 2 ^ 32 \<Longrightarrow> b < 2 ^ 32 \<Longrightarrow> (of_nat a :: u32) = of_nat b \<longleftrightarrow> a = b"
  by (simp add: of_nat_inverse word_of_nat_eq_iff take_bit_nat_eq_self)

lemma deliver_rcv:
  assumes "synced c" "rcv_inv irs S got c" "seg_from irs S s" "length S < 2 ^ 31"
  shows "rcv_inv irs S got (deliver_payload s c)"
proof (cases "length (tPayload s) > 0 \<and> tSeq s = rcvNXT c")
  case True
  then obtain off where off: "off + length (tPayload s) \<le> length S" "rcvNXT c = irs + 1 + of_nat off"
    "tPayload s = window off (length (tPayload s)) S" using assms(3) by (auto simp: seg_from_def)
  obtain n where n: "n \<le> length S" "got @ rcvBuf c = take n S"
    "rcvNXT c = irs + 1 + of_nat n \<or> n = length S \<and> rcvNXT c = irs + 1 + of_nat (Suc n)"
    using assms(1,2) by (rule rcv_syncedE)
  have "of_nat off = (of_nat n :: u32) \<or> n = length S \<and> of_nat off = (of_nat (Suc n) :: u32)"
    using n(3) off(2) by auto
  then have "off = n" using n(1) off(1) assms(4) by (auto simp: of_nat_u32_inj simp del: of_nat_Suc)
  then have "got @ rcvBuf c @ tPayload s = take (n + length (tPayload s)) S"
    using n(2) off(3) by (metis append.assoc take_add window_def)
  then show ?thesis
    using True assms(1) off \<open>off = n\<close>
    by (subst rcv_inv_synced) (auto simp: synced_def deliver_payload_def intro!: exI [of _ "n + length (tPayload s)"])
next
  case False
  then show ?thesis using assms(2) by (simp only: deliver_payload_def if_False)
qed

lemma take_fin_rcv:
  assumes "synced c" "rcv_inv irs S got c" "seg_from irs S s" "length S < 2 ^ 31" "fin_in_order s c"
  shows "rcv_inv irs S got (take_fin c)"
proof -
  obtain n where n: "n \<le> length S" "got @ rcvBuf c = take n S"
    "rcvNXT c = irs + 1 + of_nat n \<or> n = length S \<and> rcvNXT c = irs + 1 + of_nat (Suc n)"
    using assms(1,2) by (rule rcv_syncedE)
  have r: "rcvNXT c = irs + 1 + of_nat (length S)"
    using assms(3,5) by (simp add: seg_from_def fin_in_order_def)
  then have "of_nat n = (of_nat (length S) :: u32) \<or> n = length S \<and> of_nat (Suc n) = (of_nat (length S) :: u32)"
    using n(3) by auto
  then have "n = length S" using n(1) assms(4) by (auto simp: of_nat_u32_inj simp del: of_nat_Suc)
  then show ?thesis using assms(1) n(2) r
    by (subst rcv_inv_synced) (auto simp: synced_def take_fin_def intro!: exI [of _ "length S"])
qed

lemma synced_simps [simp]:
  "synced (deliver_payload s c) = synced c" "synced (take_fin c) = synced c" "synced (flushLocked c) = synced c"
  "synced (sendLocked f p c) = synced c"
  by (simp_all add: synced_def)

lemma trySendFin_rcv: "rcv_inv irs S got c \<Longrightarrow> rcv_inv irs S got (trySendFinLocked c)"
  by (cases "c_state c")
     (simp_all add: trySendFinLocked_def, simp_all add: rcv_inv_def)

lemma flush_rcv: "rcv_inv irs S got (flushLocked c) = rcv_inv irs S got c"
  by (rule rcv_cong) simp_all

lemma ack_rcv: "rcv_inv irs S got c \<Longrightarrow> rcv_inv irs S got (conn_ack s c)"
proof -
  assume i: "rcv_inv irs S got c"
  have "rcv_inv irs S got (c\<lparr>inFlight := p, sndUNA := a\<rparr>)" for p a
    using i rcv_cong [of "c\<lparr>inFlight := p, sndUNA := a\<rparr>" c] by simp
  then show ?thesis using i by (auto simp: conn_ack_def Let_def flush_rcv intro!: trySendFin_rcv)
qed

lemma switch_rcv:
  assumes "rcv_inv irs S got c" "seg_from irs S s" "length S < 2 ^ 31"
  shows "rcv_inv irs S got (fst (conn_switch s c))"
proof (cases "c_state c")
  case stateListen
  then show ?thesis using assms by (auto simp: conn_switch_def rcv_inv_def seg_from_def)
next
  case stateSynSent
  then show ?thesis using assms by (auto simp: conn_switch_def rcv_inv_def seg_from_def)
next
  case stateSynRcvd
  then show ?thesis using assms(1) rcv_cong [of "c\<lparr>c_state := stateEstablished\<rparr>" c]
    by (simp add: conn_switch_def synced_def)
next
  case stateEstablished
  then have y: "synced c" by (simp add: synced_def)
  let ?d = "deliver_payload s c"
  have d: "rcv_inv irs S got ?d" by (rule deliver_rcv [OF y assms])
  have "rcv_inv irs S got ((take_fin ?d)\<lparr>c_state := stateCloseWait, c_err := e\<rparr>)" if "fin_in_order s ?d" for e
    using take_fin_rcv [OF _ d assms(2,3) that] y stateEstablished
      rcv_cong [of "(take_fin ?d)\<lparr>c_state := stateCloseWait, c_err := e\<rparr>" "take_fin ?d"] by (simp add: synced_def)
  then show ?thesis using d stateEstablished by (simp add: conn_switch_def Let_def)
next
  case stateFinWait
  then have y: "synced c" by (simp add: synced_def)
  let ?d = "deliver_payload s c"
  have d: "rcv_inv irs S got ?d" by (rule deliver_rcv [OF y assms])
  define e where "e = (if fin_in_order s ?d then take_fin ?d else ?d)"
  have e: "rcv_inv irs S got e" using d take_fin_rcv [OF _ d assms(2,3)] y by (simp add: e_def)
  have f: "rcv_inv irs S got (e\<lparr>finAckedTheirFin := f\<rparr>)" for f
    using e rcv_cong [of "e\<lparr>finAckedTheirFin := f\<rparr>" e] by simp
  have g: "rcv_inv irs S got (x\<lparr>c_state := stateClosed, c_err := er\<rparr>)" if "rcv_inv irs S got x" for er x
    using rcv_closed [OF that] rcv_cong [of "x\<lparr>c_state := stateClosed, c_err := er\<rparr>" "x\<lparr>c_state := stateClosed\<rparr>"] by simp
  show ?thesis using stateFinWait f e g [OF e] g [OF f]
    by (simp add: conn_switch_def Let_def e_def [symmetric])
next
  case stateLastAck
  then show ?thesis using assms(1) rcv_closed [OF assms(1)]
      rcv_cong [of "c\<lparr>c_state := stateClosed, c_err := Some ErrClosed\<rparr>" "c\<lparr>c_state := stateClosed\<rparr>"]
    by (simp add: conn_switch_def)
qed (use assms in \<open>simp_all add: conn_switch_def\<close>)

lemma handle_rcv:
  assumes "rcv_inv irs S got c" "seg_from irs S s" "length S < 2 ^ 31"
  shows "rcv_inv irs S got (fst (conn_handle s c))"
proof -
  obtain d ofr where d: "conn_switch s (conn_ack s c) = (d, ofr)" by fastforce
  have "rcv_inv irs S got d" using switch_rcv [OF ack_rcv [OF assms(1)] assms(2,3), of s] d by simp
  then have "rcv_inv irs S got (if c_state d = stateEstablished then deliver_payload s d else d)"
    using deliver_rcv [OF _ _ assms(2,3)] by (simp add: synced_def)
  moreover have "rcv_inv irs S got (c\<lparr>c_state := stateClosed, c_err := e\<rparr>)" for e
    using rcv_closed [OF assms(1)]
      rcv_cong [of "c\<lparr>c_state := stateClosed, c_err := e\<rparr>" "c\<lparr>c_state := stateClosed\<rparr>"] by simp
  ultimately show ?thesis using d by (simp add: conn_handle_def)
qed

lemma step_rcv:
  assumes "rcv_inv irs S got c" "\<forall>s\<in>set (inbound [ev]). seg_from irs S s" "length S < 2 ^ 31"
    "tcp_step ev (c, got, wr) = (c', got', wr')"
  shows "rcv_inv irs S got' c'"
proof (cases ev)
  case (EvSeg s)
  then show ?thesis using assms handle_rcv [OF assms(1) _ assms(3), of s] by auto
next
  case (EvWrite d)
  have "rcv_inv irs S got (c\<lparr>sndBuf := x\<rparr>)" for x using assms(1) rcv_cong [of "c\<lparr>sndBuf := x\<rparr>" c] by simp
  then show ?thesis using assms EvWrite by (auto simp: conn_Write_def flush_rcv split: if_splits)
next
  case (EvRecv n)
  then have e: "c' = c\<lparr>rcvBuf := drop n (rcvBuf c)\<rparr>" "got' = got @ take n (rcvBuf c)"
    using assms(4) by (auto simp: conn_Recv_def)
  show ?thesis using assms(1) unfolding e rcv_inv_def by (cases "c_state c") simp_all
next
  case EvClose
  have f: "rcv_inv irs S got (x\<lparr>finPending := b\<rparr>)" if "rcv_inv irs S got x" for x b
    using that rcv_cong [of "x\<lparr>finPending := b\<rparr>" x] by simp
  have "rcv_inv irs S got (snd (conn_Close c))" unfolding conn_Close_def
    using assms(1) by (auto intro!: trySendFin_rcv f simp: flush_rcv split: tcpState.split)
  then show ?thesis using EvClose assms(4) by auto
qed

lemma run_rcv:
  "rcv_inv irs S got c \<Longrightarrow> \<forall>s\<in>set (inbound evs). seg_from irs S s \<Longrightarrow> length S < 2 ^ 31 \<Longrightarrow>
   tcp_run evs (c, got, wr) = (c', got', wr') \<Longrightarrow> rcv_inv irs S got' c'"
proof (induction evs arbitrary: c got wr)
  case (Cons ev evs)
  obtain c1 g1 w1 where e: "tcp_step ev (c, got, wr) = (c1, g1, w1)" by (metis prod_cases3)
  have "\<forall>s\<in>set (inbound [ev]). seg_from irs S s" "\<forall>s\<in>set (inbound evs). seg_from irs S s"
    using Cons.prems(2) by (cases ev; simp)+
  then show ?case using Cons.IH [OF step_rcv [OF Cons.prems(1) _ Cons.prems(3) e]] Cons.prems(3,4) e by simp
qed simp

lemma fresh_rcv: "fresh_conn iss c \<Longrightarrow> rcv_inv irs S [] c"
  by (auto simp: fresh_conn_def rcv_inv_def zeroConn_def dial_conn_def)

lemma rcv_prefix: "rcv_inv irs S got c \<Longrightarrow> prefix (got @ rcvBuf c) S"
  by (cases "c_state c") (auto simp: rcv_inv_def take_is_prefix)

section \<open>A concrete exchange\<close>

text \<open>A listener that is connected to, writes three bytes, and the dialler that reads two of them.\<close>

definition ex_listener :: TCPConn where
  "ex_listener = zeroConn\<lparr>LocalPort := 80, c_state := stateListen, c_l := Some 80\<rparr>"

definition ex_dialler :: TCPConn where
  "ex_dialler = sendLocked TCPSyn [] (dial_conn [10,0,2,15] 49152 [10,0,2,2] 80)"

definition ex_seg :: "u32 \<Rightarrow> u32 \<Rightarrow> byte \<Rightarrow> bytes \<Rightarrow> TCPSegment" where
  "ex_seg seq ack flags p = \<lparr>tSrcPort = 49152, tDstPort = 80, tSeq = seq, tAck = ack, tFlags = flags, tWindow = 1024, tPayload = p\<rparr>"

lemma ex_listener_run:
  "tcp_run [EvSeg (ex_seg 1000 0 2 []), EvSeg (ex_seg 1001 1 16 []), EvWrite [1,2,3]] (ex_listener, [], []) =
     (ex_listener\<lparr>c_state := stateEstablished, sndUNA := 1, sndNXT := 4, rcvNXT := 1001, inFlight := [1,2,3],
        c_out := [\<lparr>tSrcPort = 80, tDstPort = 0, tSeq = 0, tAck = 1001, tFlags = 18, tWindow = 1024, tPayload = []\<rparr>,
                  \<lparr>tSrcPort = 80, tDstPort = 0, tSeq = 1, tAck = 1001, tFlags = 16, tWindow = 1024, tPayload = [1,2,3]\<rparr>]\<rparr>,
      [], [1,2,3])"
  by code_simp

lemma ex_fresh: "fresh_conn 0 ex_listener" "fresh_conn 1000 ex_dialler"
  by (auto simp: fresh_conn_def ex_listener_def ex_dialler_def)

section \<open>Properties of the streams\<close>

text \<open>C3: TCP delivery is safe end to end.  One endpoint runs any sequence of writes, closes, reads and
  inbound segments; the network hands the other endpoint any sequence of its segments, losing,
  repeating and reordering them as it likes, each one serialised and parsed again.  Whatever the
  other application does meanwhile, the bytes it has read and the bytes waiting for it form a prefix
  of the bytes the first application wrote.\<close>

theorem tcp_stream_safe:
  assumes "fresh_conn iss a0" "tcp_run evsA (a0, [], []) = (a, gotA, written)"
    "fresh_conn iss' b0" "tcp_run evsB (b0, [], []) = (b, gotB, writtenB)"
    "\<forall>s\<in>set (inbound evsB). \<exists>t\<in>set (c_out a). ParseTCP (TCP_Build t) = Inr s"
    "length written < 2 ^ 31"
  shows "prefix (gotB @ rcvBuf b) written"
proof -
  have i: "snd_inv iss written a" by (rule run_snd_inv [OF fresh_snd_inv [OF assms(1)] assms(2)])
  have m: "(f AND 31) AND k = f AND k" if "31 AND k = k" for f k :: byte by (metis and.assoc that)
  have "seg_from iss written s" if s: "s \<in> set (inbound evsB)" for s
  proof -
    obtain t where t: "t \<in> set (c_out a)" "s = t\<lparr>tFlags := tFlags t AND 0x1f\<rparr>"
      using assms(5) s ParseTCP_Build by fastforce
    have "seg_from iss written t" using i t(1) by (simp add: snd_inv_def)
    then show ?thesis unfolding t(2) seg_from_def by (simp add: m)
  qed
  then have "rcv_inv iss written gotB b"
    using run_rcv [OF fresh_rcv [OF assms(3)] _ assms(6) assms(4)] by blast
  then show ?thesis by (rule rcv_prefix)
qed

theorem tcp_stream_safe_witness:
  "\<exists>a b. tcp_run [EvSeg (ex_seg 1000 0 2 []), EvSeg (ex_seg 1001 1 16 []), EvWrite [1,2,3]] (ex_listener, [], []) = (a, [], [1,2,3]) \<and>
     tcp_run (map EvSeg (map (\<lambda>t. t\<lparr>tFlags := tFlags t AND 0x1f\<rparr>) (c_out a)) @ [EvRecv 2]) (ex_dialler, [], []) = (b, [1,2], []) \<and>
     prefix ([1,2] @ rcvBuf b) [1,2,3]"
proof -
  obtain a where a: "tcp_run [EvSeg (ex_seg 1000 0 2 []), EvSeg (ex_seg 1001 1 16 []), EvWrite [1,2,3]] (ex_listener, [], []) = (a, [], [1,2,3])"
    and out: "map (\<lambda>t. t\<lparr>tFlags := tFlags t AND 0x1f\<rparr>) (c_out a) =
      [(ex_seg 0 1001 18 [])\<lparr>tSrcPort := 80, tDstPort := 0\<rparr>, (ex_seg 1 1001 16 [1,2,3])\<lparr>tSrcPort := 80, tDstPort := 0\<rparr>]"
    using ex_listener_run by (simp add: ex_seg_def)
  let ?evs = "map EvSeg (map (\<lambda>t. t\<lparr>tFlags := tFlags t AND 0x1f\<rparr>) (c_out a)) @ [EvRecv 2]"
  have "fst (snd (tcp_run [EvSeg ((ex_seg 0 1001 18 [])\<lparr>tSrcPort := 80, tDstPort := 0\<rparr>),
      EvSeg ((ex_seg 1 1001 16 [1,2,3])\<lparr>tSrcPort := 80, tDstPort := 0\<rparr>), EvRecv 2] (ex_dialler, [], []))) = [1,2] \<and>
    snd (snd (tcp_run [EvSeg ((ex_seg 0 1001 18 [])\<lparr>tSrcPort := 80, tDstPort := 0\<rparr>),
      EvSeg ((ex_seg 1 1001 16 [1,2,3])\<lparr>tSrcPort := 80, tDstPort := 0\<rparr>), EvRecv 2] (ex_dialler, [], []))) = []"
    by code_simp
  then obtain b where b: "tcp_run ?evs (ex_dialler, [], []) = (b, [1,2], [])" unfolding out by (auto simp: prod_eq_iff)
  have "inbound ?evs = map (\<lambda>t. t\<lparr>tFlags := tFlags t AND 0x1f\<rparr>) (c_out a)"
    by (induction "c_out a") (simp_all add: out)
  then have "\<forall>s\<in>set (inbound ?evs). \<exists>t\<in>set (c_out a). ParseTCP (TCP_Build t) = Inr s" by (auto simp: ParseTCP_Build)
  from tcp_stream_safe [OF ex_fresh(1) a ex_fresh(2) b this] have "prefix ([1,2] @ rcvBuf b) [1,2,3]" by simp
  then show ?thesis using a b by blast
qed

text \<open>C17: Along every run of an endpoint at most 1024 bytes are unacknowledged, no segment carries more
  than 512 bytes, every segment carries the written bytes its sequence number stands for, and a FIN is
  sent only after all written bytes, with the sequence number behind the last of them.\<close>

theorem tcp_sender_inv:
  assumes "fresh_conn iss c0" "tcp_run evs (c0, [], []) = (c, got, written)"
  shows "length (inFlight c) \<le> 1024 \<and> suffix (sndBuf c) written \<and>
    (\<forall>s\<in>set (c_out c). length (tPayload s) \<le> 512 \<and> seg_from iss written s) \<and>
    (finSent c \<longrightarrow> sndBuf c = [] \<and> sndNXT c = iss + 2 + of_nat (length written))"
proof -
  have i: "snd_inv iss written c" by (rule run_snd_inv [OF fresh_snd_inv [OF assms(1)] assms(2)])
  then show ?thesis by (auto simp: snd_inv_def algebra_simps split: if_splits)
qed

theorem tcp_sender_inv_witness:
  "\<exists>c. tcp_run [EvSeg (ex_seg 1000 0 2 []), EvSeg (ex_seg 1001 1 16 []), EvWrite [1,2,3]] (ex_listener, [], []) = (c, [], [1,2,3]) \<and>
     length (c_out c) = 2 \<and> (\<forall>s\<in>set (c_out c). seg_from 0 [1,2,3] s)"
  using tcp_sender_inv [OF ex_fresh(1) ex_listener_run] ex_listener_run by auto

end
