(* ===== verification/Net_Tcp_Close.thy ===== *)
theory Net_Tcp_Close
  imports Net_Tcp_Stream
begin

text \<open>
  Progress and teardown of a TCP endpoint: a peer that acknowledges drains the send queue and
  lets a deferred FIN out; the teardown behaviours of the code that lose data; and the
  allocation of ephemeral ports.
\<close>

section \<open>Draining the send queue\<close>

lemma flush_amount:
  assumes "c_state c = stateEstablished" "length (inFlight c) \<le> 1024"
  shows "sndBuf (flushLocked c) = drop (1024 - length (inFlight c)) (sndBuf c) \<and>
    inFlight (flushLocked c) = inFlight c @ take (1024 - length (inFlight c)) (sndBuf c) \<and>
    sndNXT (flushLocked c) = sndNXT c + of_nat (length (take (1024 - length (inFlight c)) (sndBuf c))) \<and>
    concat (map tPayload (c_out (flushLocked c))) =
      concat (map tPayload (c_out c)) @ take (1024 - length (inFlight c)) (sndBuf c)"
  using assms
proof (induction c rule: flushLocked.induct)
  case (1 c)
  show ?case
  proof (cases "length (sndBuf c) > 0 \<and> length (inFlight c) < 1024")
    case True
    let ?room = "1024 - length (inFlight c)"
    define n where "n = (if min 512 (length (sndBuf c)) > ?room then ?room else min 512 (length (sndBuf c)))"
    let ?d = "sendLocked 0 (take n (sndBuf c)) (c\<lparr>sndBuf := drop n (sndBuf c)\<rparr>)"
    have n: "n \<le> ?room" "n \<le> length (sndBuf c)" by (auto simp: n_def)
    have f: "flushLocked c = flushLocked ?d"
      using True 1(2) by (subst flushLocked.simps) (simp add: Let_def n_def)
    have g: "c_state c = stateEstablished \<and> 0 < length (sndBuf c) \<and> length (inFlight c) < 1024"
      using True 1(2) by simp
    have fs: "inFlight (c\<lparr>sndBuf := x\<rparr>) = inFlight c" "sndBuf (c\<lparr>sndBuf := x\<rparr>) = x" "c_state (c\<lparr>sndBuf := x\<rparr>) = c_state c" for x
      by simp_all
    have ln: "length (inFlight c @ take n (sndBuf c)) = length (inFlight c) + n" using n(2) by simp
    have rm: "1024 - (length (inFlight c) + n) = ?room - n" by simp
    have le: "length (inFlight c @ take n (sndBuf c)) \<le> 1024" using n(1) 1(3) unfolding ln by linarith
    have ih: "sndBuf (flushLocked ?d) = drop (?room - n) (drop n (sndBuf c)) \<and>
      inFlight (flushLocked ?d) = (inFlight c @ take n (sndBuf c)) @ take (?room - n) (drop n (sndBuf c)) \<and>
      sndNXT (flushLocked ?d) = sndNXT ?d + of_nat (length (take (?room - n) (drop n (sndBuf c)))) \<and>
      concat (map tPayload (c_out (flushLocked ?d))) =
        concat (map tPayload (c_out ?d)) @ take (?room - n) (drop n (sndBuf c))"
      using 1(1) [OF g refl refl n_def refl refl] 1(2) le
      unfolding sendLocked_simps fs ln rm by blast
    have t: "take n (sndBuf c) @ take (?room - n) (drop n (sndBuf c)) = take ?room (sndBuf c)"
      using n(1) by (metis le_add_diff_inverse take_add)
    have l: "length (take ?room (sndBuf c)) = n + length (take (?room - n) (drop n (sndBuf c)))"
      using arg_cong [OF t, of length] n(2) by simp
    have dr: "drop (?room - n) (drop n (sndBuf c)) = drop ?room (sndBuf c)"
      using n(1) unfolding drop_drop by (metis le_add_diff_inverse2)
    have nx: "sndNXT ?d = sndNXT c + of_nat n" "concat (map tPayload (c_out ?d)) = concat (map tPayload (c_out c)) @ take n (sndBuf c)"
      using n(2) by (simp_all add: out_sendLocked)
    show ?thesis unfolding f l of_nat_add using ih unfolding dr nx append.assoc t by (simp only: add.assoc simp_thms)
  next
    case False
    then have "flushLocked c = c" by (subst flushLocked.simps) auto
    then show ?thesis using False 1(2,3) by auto
  qed
qed

definition full_ack :: "TCPConn \<Rightarrow> TCPSegment" where
  "full_ack c = \<lparr>tSrcPort = RemotePort c, tDstPort = LocalPort c, tSeq = rcvNXT c, tAck = sndNXT c,
     tFlags = TCPAck, tWindow = 1024, tPayload = []\<rparr>"

definition ack_round :: "TCPConn \<Rightarrow> TCPConn" where
  "ack_round c = fst (conn_handle (full_ack c) c)"

definition draining :: "TCPConn \<Rightarrow> bool" where
  "draining c \<longleftrightarrow> c_state c = stateEstablished \<and> \<not> finSent c \<and> \<not> finAckedTheirFin c \<and>
     sndNXT c - sndUNA c = of_nat (length (inFlight c)) \<and> length (inFlight c) \<le> 1024 \<and>
     (sndBuf c \<noteq> [] \<longrightarrow> length (inFlight c) = 1024) \<and> (finPending c \<longrightarrow> inFlight c \<noteq> [])"

definition drained :: "TCPConn \<Rightarrow> bool" where
  "drained c \<longleftrightarrow> sndBuf c = [] \<and> inFlight c = [] \<and> (finPending c \<longrightarrow> finSent c \<and> c_state c = stateFinWait)"

lemma ack_round_eq:
  assumes "draining c" "inFlight c \<noteq> []"
  shows "ack_round c = trySendFinLocked (flushLocked (c\<lparr>inFlight := [], sndUNA := sndNXT c\<rparr>))"
proof -
  let ?l = "length (inFlight c)"
  have d: "sndNXT c - sndUNA c = of_nat ?l" "0 < ?l" "?l \<le> 1024" "c_state c = stateEstablished"
    using assms by (auto simp: draining_def)
  have u: "unat (sndNXT c - sndUNA c) = ?l"
    using d by (simp add: unsigned_of_nat take_bit_nat_eq_self)
  have "sint (of_nat ?l :: u32) = int ?l" using d(3) by (simp add: signed_of_nat signed_take_bit_int_eq_self)
  then have g: "seqGT (sndNXT c) (sndUNA c)" using d by (simp add: seqGT_def)
  have "conn_ack (full_ack c) c = trySendFinLocked (flushLocked (c\<lparr>inFlight := [], sndUNA := sndNXT c\<rparr>))"
    using g u d by (simp add: conn_ack_def full_ack_def seqGE_def Let_def)
  moreover have "conn_switch (full_ack c) e = (e, False)" "deliver_payload (full_ack c) e = e"
    if "c_state e \<in> {stateEstablished, stateFinWait}" "\<not> finAckedTheirFin e" for e
    using that by (auto simp: conn_switch_def full_ack_def deliver_payload_def fin_in_order_def Let_def)
  moreover have "c_state (trySendFinLocked e) \<in> {stateEstablished, stateFinWait} \<and>
      finAckedTheirFin (trySendFinLocked e) = finAckedTheirFin e" if "c_state e = stateEstablished" for e
    using that by (simp add: trySendFinLocked_def)
  ultimately show ?thesis using assms(1) by (simp add: ack_round_def conn_handle_def full_ack_def draining_def)
qed

lemma round_last:
  assumes "draining c" "sndBuf c = []" "inFlight c \<noteq> []"
  shows "drained (ack_round c)" "concat (map tPayload (c_out (ack_round c))) = concat (map tPayload (c_out c))"
proof -
  let ?e = "c\<lparr>inFlight := [], sndUNA := sndNXT c\<rparr>"
  have "flushLocked ?e = ?e" using assms(2) by (subst flushLocked.simps) simp
  then have r: "ack_round c = trySendFinLocked ?e" using ack_round_eq [OF assms(1,3)] by simp
  show "drained (ack_round c)" "concat (map tPayload (c_out (ack_round c))) = concat (map tPayload (c_out c))"
    unfolding r using assms by (auto simp: trySendFinLocked_def drained_def draining_def out_sendLocked)
qed

lemma round_more:
  assumes "draining c" "sndBuf c \<noteq> []"
  shows "draining (ack_round c)" "sndBuf (ack_round c) = drop 1024 (sndBuf c)" "inFlight (ack_round c) \<noteq> []"
    "concat (map tPayload (c_out (ack_round c))) = concat (map tPayload (c_out c)) @ take 1024 (sndBuf c)"
proof -
  let ?e = "c\<lparr>inFlight := [], sndUNA := sndNXT c\<rparr>"
  have ne: "inFlight c \<noteq> []" and est: "c_state c = stateEstablished" using assms by (auto simp: draining_def)
  have f: "sndBuf (flushLocked ?e) = drop 1024 (sndBuf c)" "inFlight (flushLocked ?e) = take 1024 (sndBuf c)"
    "sndNXT (flushLocked ?e) = sndNXT c + of_nat (length (take 1024 (sndBuf c)))"
    "concat (map tPayload (c_out (flushLocked ?e))) = concat (map tPayload (c_out c)) @ take 1024 (sndBuf c)"
    using flush_amount [of ?e] est by simp_all
  have "trySendFinLocked (flushLocked ?e) = flushLocked ?e"
    using f(2) assms(2) by (simp add: trySendFinLocked_def)
  then have r: "ack_round c = flushLocked ?e" using ack_round_eq [OF assms(1) ne] by simp
  show "sndBuf (ack_round c) = drop 1024 (sndBuf c)" "inFlight (ack_round c) \<noteq> []"
    "concat (map tPayload (c_out (ack_round c))) = concat (map tPayload (c_out c)) @ take 1024 (sndBuf c)"
    unfolding r using f assms(2) by simp_all
  show "draining (ack_round c)" unfolding r using assms f by (simp add: draining_def)
qed

lemma rounds: "0 < n \<Longrightarrow> (n - 1024 + 1023) div 1024 + 1 \<le> (n + 1023) div (1024 :: nat)"
proof (cases "n \<le> 1024")
  case False
  then have "n + 1023 = (n - 1024 + 1023) + 1024" by simp
  then show ?thesis by (metis div_add_self2 le_refl zero_neq_numeral)
qed simp

lemma drains:
  assumes "draining c" "inFlight c \<noteq> []"
  shows "\<exists>k\<le>(length (sndBuf c) + 1023) div 1024 + 1. drained ((ack_round ^^ k) c) \<and>
    concat (map tPayload (c_out ((ack_round ^^ k) c))) = concat (map tPayload (c_out c)) @ sndBuf c"
  using assms
proof (induction "length (sndBuf c)" arbitrary: c rule: less_induct)
  case less
  show ?case
  proof (cases "sndBuf c = []")
    case True
    then show ?thesis using round_last [OF less(2) True less(3)] by (intro exI [of _ 1]) simp
  next
    case False
    let ?d = "ack_round c"
    note m = round_more [OF less(2) False]
    have "length (sndBuf ?d) < length (sndBuf c)" using False by (simp add: m(2))
    then obtain k where k: "k \<le> (length (sndBuf ?d) + 1023) div 1024 + 1" "drained ((ack_round ^^ k) ?d)"
      "concat (map tPayload (c_out ((ack_round ^^ k) ?d))) = concat (map tPayload (c_out ?d)) @ sndBuf ?d"
      using less(1) [OF _ m(1,3)] by blast
    have "0 < length (sndBuf c)" using False by simp
    then have "Suc k \<le> (length (sndBuf c) + 1023) div 1024 + 1" using k(1) rounds unfolding m(2) length_drop by fastforce
    then show ?thesis using k(2,3) m(2,4) by (intro exI [of _ "Suc k"]) (simp add: funpow_Suc_right del: funpow.simps)
  qed
qed

lemma write_close_draining:
  assumes "c_state c = stateEstablished" "sndBuf c = []" "inFlight c = []" "sndUNA c = sndNXT c"
    "\<not> finPending c" "\<not> finSent c" "\<not> finAckedTheirFin c" "data \<noteq> []"
  defines "d \<equiv> snd (conn_Close (snd (conn_Write data c)))"
  shows "draining d" "inFlight d \<noteq> []" "finPending d" "sndBuf d = drop 1024 data"
    "concat (map tPayload (c_out d)) = concat (map tPayload (c_out c)) @ take 1024 data"
proof -
  let ?e = "flushLocked (c\<lparr>sndBuf := data\<rparr>)"
  have e: "sndBuf ?e = drop 1024 data" "inFlight ?e = take 1024 data"
    "sndNXT ?e = sndNXT c + of_nat (length (take 1024 data))"
    "concat (map tPayload (c_out ?e)) = concat (map tPayload (c_out c)) @ take 1024 data"
    using flush_amount [of "c\<lparr>sndBuf := data\<rparr>"] assms(1,3) by simp_all
  have "flushLocked ?e = ?e" using e(1,2) by (subst flushLocked.simps) auto
  then have d: "d = ?e\<lparr>finPending := True\<rparr>"
    using assms(1,2,5,8) e(2) by (simp add: d_def conn_Write_def conn_Close_def trySendFinLocked_def)
  show "draining d" unfolding d using assms e by (simp add: draining_def)
  show "inFlight d \<noteq> []" "finPending d" "sndBuf d = drop 1024 data"
    "concat (map tPayload (c_out d)) = concat (map tPayload (c_out c)) @ take 1024 data"
    unfolding d using assms(8) e by simp_all
qed

lemma round_finPending: "finPending (ack_round c) = finPending c"
proof -
  have t: "finPending (trySendFinLocked x) = finPending x" for x
    by (simp add: trySendFinLocked_def split: tcpState.split)
  have a: "finPending (conn_ack s x) = finPending x" for s x by (simp add: conn_ack_def Let_def t)
  have w: "finPending (fst (conn_switch s x)) = finPending x" for s x
    by (simp add: conn_switch_def Let_def split: tcpState.split)
  obtain d o' where d: "conn_switch (full_ack c) (conn_ack (full_ack c) c) = (d, o')" by fastforce
  have "finPending d = finPending c" using w [of "full_ack c" "conn_ack (full_ack c) c"] a d by simp
  then show ?thesis using d by (simp add: ack_round_def conn_handle_def)
qed

section \<open>Ephemeral ports\<close>

lemma ephemeral_found:
  assumes "conns t (nextEphemeral t + of_nat k) = None"
  shows "\<exists>p t'. ephemeral t = Some (p, t') \<and> conns t p = None \<and> conns t' = conns t \<and> listeners t' = listeners t"
  using assms
proof (induction k arbitrary: t)
  case 0
  then show ?case by (subst ephemeral.simps) (simp add: Let_def)
next
  case (Suc k)
  let ?u = "t\<lparr>nextEphemeral := nextEphemeral t + 1\<rparr>"
  show ?case
  proof (cases "conns t (nextEphemeral t) = None")
    case True
    then show ?thesis by (subst ephemeral.simps) (simp add: Let_def)
  next
    case False
    have "conns ?u (nextEphemeral ?u + of_nat k) = None" using Suc.prems by (simp add: ac_simps)
    then have "\<exists>p t'. ephemeral ?u = Some (p, t') \<and> conns t p = None \<and> conns t' = conns t \<and> listeners t' = listeners t"
      using Suc.IH [of ?u] by simp
    then show ?thesis using False by (subst ephemeral.simps) (simp add: Let_def)
  qed
qed

lemma ephemeral_free: "ephemeral t = Some r \<Longrightarrow> conns t (fst r) = None"
  by (erule ephemeral.raw_induct [where P = "\<lambda>t r. conns t (fst r) = None", rotated])
     (fastforce simp: Let_def split: if_splits)

text \<open>C32: Choosing an ephemeral port ends exactly when some port is free; the chosen port is then free,
  so a dial never takes over an existing connection or listener and leaves every other entry of the
  connection table as it was.\<close>

theorem tcp_dial_fresh:
  "(case Dial laddr raddr rport t of
      None \<Rightarrow> \<forall>p. conns t p \<noteq> None
    | Some (p, t') \<Rightarrow> conns t p = None \<and> (\<forall>q. q \<noteq> p \<longrightarrow> conns t' q = conns t q) \<and>
        (\<exists>c. conns t' p = Some c \<and> fresh_conn 1000 c \<and> LocalPort c = p))"
proof (cases "\<exists>q. conns t q = None")
  case True
  then obtain q where "conns t q = None" by blast
  then have "conns t (nextEphemeral t + of_nat (unat (q - nextEphemeral t))) = None" by simp
  from ephemeral_found [OF this] obtain p t' where
    "ephemeral t = Some (p, t')" "conns t p = None" "conns t' = conns t" by blast
  then show ?thesis by (auto simp: Dial_def fresh_conn_def dial_conn_def Let_def)
next
  case False
  then have "ephemeral t = None" using ephemeral_free by (metis option.exhaust)
  then show ?thesis using False by (simp add: Dial_def)
qed

theorem tcp_dial_fresh_witness:
  "\<exists>t'. Dial [10,0,2,15] [10,0,2,2] 80 NewTCPStack = Some (49152, t') \<and> conns t' 22 = None \<and> conns t' 49152 \<noteq> None"
proof -
  have e: "ephemeral NewTCPStack = Some (49152, NewTCPStack\<lparr>nextEphemeral := 49153\<rparr>)"
    by (subst ephemeral.simps) (simp add: NewTCPStack_def)
  then obtain t' where d: "Dial [10,0,2,15] [10,0,2,2] 80 NewTCPStack = Some (49152, t')"
    by (simp add: Dial_def Let_def)
  have "conns NewTCPStack 22 = None" by (simp add: NewTCPStack_def)
  then show ?thesis
    using tcp_dial_fresh [where laddr = "[10,0,2,15]" and raddr = "[10,0,2,2]" and rport = 80 and t = NewTCPStack] d by auto
qed

text \<open>C18: A close after a write drains: a peer that acknowledges what was sent lets out, within
  one round per 1024 queued bytes and one more, every byte of the write in order and then the FIN.\<close>

theorem tcp_close_drains:
  assumes "c_state c = stateEstablished" "sndBuf c = []" "inFlight c = []" "sndUNA c = sndNXT c"
    "\<not> finPending c" "\<not> finSent c" "\<not> finAckedTheirFin c" "data \<noteq> []"
  shows "\<exists>k\<le>(length data + 1023) div 1024 + 1.
    let c' = (ack_round ^^ k) (snd (conn_Close (snd (conn_Write data c))))
    in c_state c' = stateFinWait \<and> finSent c' \<and> sndBuf c' = [] \<and> inFlight c' = [] \<and>
       concat (map tPayload (c_out c')) = concat (map tPayload (c_out c)) @ data"
proof -
  let ?d = "snd (conn_Close (snd (conn_Write data c)))"
  note d = write_close_draining [OF assms]
  obtain k where k: "k \<le> (length (sndBuf ?d) + 1023) div 1024 + 1" "drained ((ack_round ^^ k) ?d)"
    "concat (map tPayload (c_out ((ack_round ^^ k) ?d))) = concat (map tPayload (c_out ?d)) @ sndBuf ?d"
    using drains [OF d(1,2)] by blast
  have "(length (sndBuf ?d) + 1023) div 1024 \<le> (length data + 1023) div 1024"
    unfolding d(4) by (intro div_le_mono) simp
  moreover have "finPending ((ack_round ^^ j) ?d)" for j by (induction j) (simp_all add: d(3) round_finPending)
  ultimately show ?thesis using k unfolding d(4,5)
    by (intro exI [of _ k]) (simp add: drained_def Let_def)
qed

definition ex_open :: TCPConn where
  "ex_open = fst (tcp_run [EvSeg (ex_seg 1000 0 2 []), EvSeg (ex_seg 1001 1 16 [])] (ex_listener, [], []))"

lemma ex_open: "c_state ex_open = stateEstablished" "sndBuf ex_open = []" "inFlight ex_open = []"
  "sndUNA ex_open = sndNXT ex_open" "\<not> finPending ex_open" "\<not> finSent ex_open" "\<not> finAckedTheirFin ex_open"
  "rcvNXT ex_open = 1001" "concat (map tPayload (c_out ex_open)) = []"
  by code_simp+

theorem tcp_close_drains_witness:
  "\<exists>k. let c' = (ack_round ^^ k) (snd (conn_Close (snd (conn_Write (replicate 3000 7) ex_open))))
    in k \<le> 4 \<and> finSent c' \<and> concat (map tPayload (c_out c')) = replicate 3000 7"
  using tcp_close_drains [OF ex_open(1-7), of "replicate 3000 7"] ex_open(9) by (fastforce simp: Let_def)

section \<open>Teardown that loses data\<close>

lemma closewait_handle:
  assumes "c_state c = stateCloseWait" "sndBuf c \<noteq> []" "tFlags s AND TCPRst = 0"
  shows "c_state (fst (conn_handle s c)) = stateCloseWait \<and> sndBuf (fst (conn_handle s c)) = sndBuf c \<and>
    c_out (fst (conn_handle s c)) = c_out c"
proof -
  have "c_state (conn_ack s c) = stateCloseWait \<and> sndBuf (conn_ack s c) = sndBuf c \<and> c_out (conn_ack s c) = c_out c"
    using assms by (simp add: conn_ack_def trySendFinLocked_def Let_def)
  then show ?thesis using assms(3) by (simp add: conn_handle_def conn_switch_def)
qed

text \<open>C39: A peer that closes first cuts off queued data: an endpoint in CLOSE-WAIT whose send queue is not empty
  stays there whatever acknowledgements arrive and whatever the application does, never sends another
  segment, neither the queued bytes nor the FIN of a \<^verbatim>\<open>Close\<close>, until it is reset.\<close>

theorem tcp_closewait_stuck:
  assumes "c_state c = stateCloseWait" "sndBuf c \<noteq> []" "\<forall>s\<in>set (inbound evs). tFlags s AND TCPRst = 0"
    "tcp_run evs (c, got, wr) = (c', got', wr')"
  shows "c_state c' = stateCloseWait \<and> sndBuf c' = sndBuf c \<and> c_out c' = c_out c \<and> wr' = wr"
  using assms
proof (induction evs arbitrary: c got)
  case (Cons ev evs)
  obtain c1 g1 w1 where e: "tcp_step ev (c, got, wr) = (c1, g1, w1)" by (metis prod_cases3)
  have i: "\<forall>s\<in>set (inbound [ev]). tFlags s AND TCPRst = 0" "\<forall>s\<in>set (inbound evs). tFlags s AND TCPRst = 0"
    using Cons.prems(3) by (cases ev; simp)+
  have "c_state c1 = stateCloseWait \<and> sndBuf c1 = sndBuf c \<and> c_out c1 = c_out c \<and> w1 = wr"
  proof (cases ev)
    case (EvSeg s)
    then show ?thesis using e i(1) closewait_handle [OF Cons.prems(1,2), of s] by auto
  qed (use e Cons.prems(1,2) in \<open>auto simp: conn_Write_def conn_Recv_def conn_Close_def trySendFinLocked_def\<close>)
  then show ?case using Cons.IH [of c1 g1] Cons.prems i(2) e by simp
qed simp

definition ex_stuck :: TCPConn where
  "ex_stuck = fst (conn_handle (ex_seg 1001 0 1 []) (snd (conn_Write (replicate 1030 7) ex_open)))"

lemma ex_stuck: "c_state ex_stuck = stateCloseWait" "sndBuf ex_stuck = replicate 6 7"
proof -
  let ?e = "flushLocked (ex_open\<lparr>sndBuf := replicate 1030 7\<rparr>)"
  have w: "snd (conn_Write (replicate 1030 7) ex_open) = ?e" using ex_open by (simp add: conn_Write_def)
  have b: "sndBuf ?e = drop 1024 (replicate 1030 7)"
    using flush_amount [of "ex_open\<lparr>sndBuf := replicate 1030 7\<rparr>"] ex_open by simp
  have "c_state ex_stuck = stateCloseWait \<and> sndBuf ex_stuck = sndBuf ?e"
    unfolding ex_stuck_def w using ex_open
    by (simp add: conn_handle_def conn_ack_def conn_switch_def ex_seg_def deliver_payload_def fin_in_order_def Let_def)
  then show "c_state ex_stuck = stateCloseWait" "sndBuf ex_stuck = replicate 6 7" unfolding b by simp_all
qed

theorem tcp_closewait_stuck_witness:
  "\<exists>c' got' wr'. tcp_run [EvClose, EvSeg (ex_seg 1002 1025 16 [])] (ex_stuck, [], []) = (c', got', wr') \<and>
     c_state c' = stateCloseWait \<and> sndBuf c' = replicate 6 7 \<and> c_out c' = c_out ex_stuck"
proof -
  obtain c' got' wr' where r: "tcp_run [EvClose, EvSeg (ex_seg 1002 1025 16 [])] (ex_stuck, [], []) = (c', got', wr')"
    by (metis prod_cases3)
  have "\<forall>s\<in>set (inbound [EvClose, EvSeg (ex_seg 1002 1025 16 [])]). tFlags s AND TCPRst = 0" by (simp add: ex_seg_def)
  from tcp_closewait_stuck [OF ex_stuck(1) _ this r] show ?thesis using r ex_stuck(2) by auto
qed

lemma closed_step:
  assumes "c_state c = stateClosed" "tcp_step ev (c, got, wr) = (c', got', wr')"
  shows "c_state c' = stateClosed \<and> c_out c' = c_out c \<and> got' @ rcvBuf c' = got @ rcvBuf c \<and> wr' = wr"
proof (cases ev)
  case (EvSeg s)
  have "c_state (conn_ack s c) = stateClosed \<and> c_out (conn_ack s c) = c_out c \<and> rcvBuf (conn_ack s c) = rcvBuf c"
    using assms(1) by (simp add: conn_ack_def trySendFinLocked_def Let_def)
  then have "c_state (fst (conn_handle s c)) = stateClosed \<and> c_out (fst (conn_handle s c)) = c_out c \<and>
      rcvBuf (fst (conn_handle s c)) = rcvBuf c"
    using assms(1) by (simp add: conn_handle_def conn_switch_def)
  then show ?thesis using assms EvSeg by auto
qed (use assms in \<open>auto simp: conn_Write_def conn_Recv_def conn_Close_def\<close>)

lemma closed_run:
  "c_state c = stateClosed \<Longrightarrow> tcp_run evs (c, got, wr) = (c', got', wr') \<Longrightarrow>
   c_state c' = stateClosed \<and> c_out c' = c_out c \<and> got' @ rcvBuf c' = got @ rcvBuf c \<and> wr' = wr"
proof (induction evs arbitrary: c got wr)
  case (Cons ev evs)
  obtain c1 g1 w1 where e: "tcp_step ev (c, got, wr) = (c1, g1, w1)" by (metis prod_cases3)
  show ?case using closed_step [OF Cons.prems(1) e] Cons.IH [of c1 g1 w1] Cons.prems(2) e by simp
qed simp

text \<open>In FIN-WAIT, once the own FIN is acknowledged, a segment with the FIN flag closes the connection even
  when it is out of order: its FIN is not acknowledged, and whatever arrives later the bytes
  missing before it are never delivered.\<close>

theorem tcp_finwait_early_close:
  assumes "c_state c = stateFinWait" "sndUNA c = finSeq c + 1" "sndNXT c = finSeq c + 1"
    "tFlags s AND TCPFin \<noteq> 0" "tFlags s AND TCPRst = 0" "tAck s = sndNXT c" "tSeq s \<noteq> rcvNXT c"
    "tSeq s + of_nat (length (tPayload s)) \<noteq> rcvNXT c"
    "tcp_run evs (fst (conn_handle s c), [], []) = (c', got, wr)"
  shows "c_state (fst (conn_handle s c)) = stateClosed \<and> c_state c' = stateClosed \<and>
    got @ rcvBuf c' = rcvBuf c \<and> c_out c' = c_out c"
proof -
  have "conn_ack s c = c" using assms(2,3,6) by (simp add: conn_ack_def seqGT_def)
  moreover have "deliver_payload s c = c" using assms(7) by (simp add: deliver_payload_def)
  moreover have "\<not> fin_in_order s c" using assms(8) by (simp add: fin_in_order_def)
  ultimately have h: "fst (conn_handle s c) = c\<lparr>finAckedTheirFin := True, c_state := stateClosed, c_err := Some ErrClosed\<rparr>"
    using assms(1,2,4,5) by (simp add: conn_handle_def conn_switch_def seqGE_def Let_def)
  show ?thesis using closed_run [OF _ assms(9)] by (simp add: h)
qed

definition ex_finwait :: TCPConn where
  "ex_finwait = fst (conn_handle (ex_seg 1001 2 16 []) (snd (conn_Close ex_open)))"

lemma ex_finwait: "c_state ex_finwait = stateFinWait" "sndUNA ex_finwait = finSeq ex_finwait + 1"
  "sndNXT ex_finwait = finSeq ex_finwait + 1" "sndNXT ex_finwait = 2" "rcvNXT ex_finwait = 1001"
  by code_simp+

theorem tcp_finwait_early_close_witness:
  "\<exists>c' got wr. tcp_run [EvSeg (ex_seg 1001 2 16 [1,2,3]), EvRecv 3] (fst (conn_handle (ex_seg 1004 2 17 []) ex_finwait), [], []) = (c', got, wr) \<and>
     c_state c' = stateClosed \<and> got @ rcvBuf c' = rcvBuf ex_finwait"
proof -
  obtain c' got wr where r: "tcp_run [EvSeg (ex_seg 1001 2 16 [1,2,3]), EvRecv 3] (fst (conn_handle (ex_seg 1004 2 17 []) ex_finwait), [], []) = (c', got, wr)"
    by (metis prod_cases3)
  show ?thesis
    using tcp_finwait_early_close [OF ex_finwait(1-3) _ _ _ _ _ r] r ex_finwait(4,5) by (auto simp: ex_seg_def)
qed

end
