(* ===== verification/Net_Stack.thy ===== *)
theory Net_Stack
  imports Net_Tcp_Stream
begin

text \<open>
  One host's network stack (\<^verbatim>\<open>services/net/netstack.go\<close>, with the ARP cache of
  \<^verbatim>\<open>arp.go\<close> and the port demultiplexer of \<^verbatim>\<open>udp.go\<close>): inbound handlers,
  address resolution, routing, and the outbound entries of UDP and TCP.

  The feed is a pair of frame queues, as the contract of \<^verbatim>\<open>Net_Ring\<close> describes them:
  \<^verbatim>\<open>s_rx\<close> holds the frames \<^verbatim>\<open>Recv\<close> will return, \<^verbatim>\<open>s_tx\<close> those handed to
  \<^verbatim>\<open>Send\<close> (whose result the stack ignores).  Locks are not re-entrant: an operation that would
  wait for a mutex its own goroutine holds never returns, which is the result None.  This can
  happen for \<^verbatim>\<open>hmu\<close>, held while a frame is handled, and for the mutex of the
  connection named by \<^verbatim>\<open>connLock\<close>.
\<close>

section \<open>State\<close>

record Stack =
  s_MAC :: MAC
  s_IP :: IP4
  Netmask :: IP4
  Gateway :: IP4
  s_rx :: "bytes list"
  s_tx :: "bytes list"
  arp :: "IP4 \<rightharpoonup> MAC"
  icmpIn :: "ICMPPacket list"
  udp_ports :: "u16 \<rightharpoonup> nat"
  udp_qs :: "nat \<Rightarrow> bytes list"
  udp_next :: nat
  s_tcp :: TCPStack
  connLock :: "u16 option"
  RxEth :: u64
  RxARP :: u64
  RxIPv4 :: u64
  RxICMP :: u64

type_synonym 'a op = "Stack \<Rightarrow> ('a \<times> Stack) option"

definition NewStack :: "MAC \<Rightarrow> IP4 \<Rightarrow> Stack" where
  "NewStack mac ip = \<lparr>s_MAC = mac, s_IP = ip, Netmask = zeroIP, Gateway = zeroIP, s_rx = [], s_tx = [],
     arp = Map.empty, icmpIn = [], udp_ports = Map.empty, udp_qs = (\<lambda>_. []), udp_next = 0, s_tcp = NewTCPStack, connLock = None,
     RxEth = 0, RxARP = 0, RxIPv4 = 0, RxICMP = 0\<rparr>"

definition sink_Send :: "bytes \<Rightarrow> Stack \<Rightarrow> Stack" where
  "sink_Send frame s = s\<lparr>s_tx := s_tx s @ [frame]\<rparr>"

definition broadcastIP :: IP4 where
  "broadcastIP = [255, 255, 255, 255]"

definition IsZero :: "IP4 \<Rightarrow> bool" where
  "IsZero ip \<longleftrightarrow> ip = zeroIP"

section \<open>ARP cache and resolution\<close>

definition arp_Lookup :: "IP4 \<Rightarrow> Stack \<Rightarrow> MAC option" where
  "arp_Lookup ip s = arp s ip"

definition arp_Update :: "IP4 \<Rightarrow> MAC \<Rightarrow> Stack \<Rightarrow> Stack" where
  "arp_Update ip mac s = s\<lparr>arp := (arp s)(ip \<mapsto> mac)\<rparr>"

fun resolve_loop :: "bool op \<Rightarrow> IP4 \<Rightarrow> nat \<Rightarrow> (nerr + MAC) op" where
  "resolve_loop pmp ip 0 s = Some (Inl ErrArpTimeout, s)"
| "resolve_loop pmp ip (Suc budget) s =
     (case arp_Lookup ip s of
        Some mac \<Rightarrow> Some (Inr mac, s)
      | None \<Rightarrow> (case pmp s of None \<Rightarrow> None | Some (_, s') \<Rightarrow> resolve_loop pmp ip budget s'))"

definition arp_request :: "Stack \<Rightarrow> IP4 \<Rightarrow> bytes" where
  "arp_request s ip = BuildEth BroadcastMAC (s_MAC s) EthTypeARP
     (ARP_Build \<lparr>Oper = ARPOpRequest, SrcMAC = s_MAC s, SrcIP = s_IP s, DstMAC = [0, 0, 0, 0, 0, 0], DstIP = ip\<rparr>)"

text \<open>\<^verbatim>\<open>Resolve\<close>, over the \<^verbatim>\<open>pump\<close> it calls while it waits.\<close>

definition Resolve_with :: "bool op \<Rightarrow> IP4 \<Rightarrow> nat \<Rightarrow> (nerr + MAC) op" where
  "Resolve_with pmp ip budget s =
     (case arp_Lookup ip s of
        Some mac \<Rightarrow> Some (Inr mac, s)
      | None \<Rightarrow> resolve_loop pmp ip budget (sink_Send (arp_request s ip) s))"

section \<open>Outbound path\<close>

definition onLink :: "IP4 \<Rightarrow> Stack \<Rightarrow> bool" where
  "onLink dst s \<longleftrightarrow>
     IsZero (Netmask s) \<or>
     list_all (\<lambda>i. dst ! i AND Netmask s ! i = s_IP s ! i AND Netmask s ! i) [0, 1, 2, 3]"

definition nextHopMAC :: "bool op \<Rightarrow> IP4 \<Rightarrow> (nerr + MAC) op" where
  "nextHopMAC pmp dst s =
     (if onLink dst s then Resolve_with pmp dst 2000 s
      else if IsZero (Gateway s) then Some (Inl ErrNoRoute, s)
      else Resolve_with pmp (Gateway s) 2000 s)"

definition sendIPv4From :: "bool op \<Rightarrow> IP4 \<Rightarrow> IP4 \<Rightarrow> byte \<Rightarrow> bytes \<Rightarrow> (nerr + unit) op" where
  "sendIPv4From pmp src dst proto payload s =
     (case (if dst \<noteq> broadcastIP then nextHopMAC pmp dst s else Some (Inr BroadcastMAC, s)) of
        None \<Rightarrow> None
      | Some (Inl e, s) \<Rightarrow> Some (Inl e, s)
      | Some (Inr mac, s) \<Rightarrow>
          (case IP4_Build \<lparr>pSrc = src, pDst = dst, pProto = proto, pTTL = 0, pPayload = payload\<rparr> of
             Inl e \<Rightarrow> Some (Inl e, s)
           | Inr dg \<Rightarrow> Some (Inr (), sink_Send (BuildEth mac (s_MAC s) EthTypeIPv4 dg) s)))"

definition sendIPv4 :: "bool op \<Rightarrow> IP4 \<Rightarrow> byte \<Rightarrow> bytes \<Rightarrow> (nerr + unit) op" where
  "sendIPv4 pmp dst proto payload s = sendIPv4From pmp (s_IP s) dst proto payload s"

definition SendUDP :: "bool op \<Rightarrow> IP4 \<Rightarrow> UDPDatagram \<Rightarrow> (nerr + unit) op" where
  "SendUDP pmp dstIP dg s =
     (let dg = dg\<lparr>checksumSrc := s_IP s, checksumDst := dstIP\<rparr>
      in sendIPv4 pmp dstIP IP4ProtoUDP (UDP_Build dg) s)"

definition SendUDPDatagram :: "bool op \<Rightarrow> IP4 \<Rightarrow> bytes \<Rightarrow> (nerr + unit) op" where
  "SendUDPDatagram pmp dstIP dgram s = sendIPv4 pmp dstIP IP4ProtoUDP dgram s"

definition SendTCPSegment :: "bool op \<Rightarrow> IP4 \<Rightarrow> bytes \<Rightarrow> (nerr + unit) op" where
  "SendTCPSegment pmp dstIP seg s =
     (let sum = fold16 (word_sum 0 (pseudo (s_IP s) dstIP 6 seg));
          seg = seg[16 := ucast (drop_bit 8 (NOT sum)), 17 := ucast (NOT sum)]
      in sendIPv4 pmp dstIP IP4ProtoTCP seg s)"

text \<open>The segments one call of a connection operation hands out, sent in order; the connection
  ignores the results.\<close>

fun send_segs :: "bool op \<Rightarrow> IP4 \<Rightarrow> TCPSegment list \<Rightarrow> unit op" where
  "send_segs pmp ip [] s = Some ((), s)"
| "send_segs pmp ip (g # gs) s =
     (case SendTCPSegment pmp ip (TCP_Build g) s of
        None \<Rightarrow> None
      | Some (_, s') \<Rightarrow> send_segs pmp ip gs s')"

section \<open>UDP ports\<close>

text \<open>\<^verbatim>\<open>for p := uint16(49152); p != 0; p++\<close>, the first port not taken.\<close>

definition udp_free :: "Stack \<Rightarrow> u16 option" where
  "udp_free s = find (\<lambda>p. udp_ports s p = None) (map of_nat [49152..<65536])"

text \<open>
  A queue outlives its binding: whoever bound the port keeps the pointer.  Queues are therefore
  objects of a store \<^verbatim>\<open>udp_qs\<close>, bound by reference, and \<^verbatim>\<open>udp_next\<close> is the next
  reference a new queue gets.
\<close>

definition udp_Bind :: "u16 \<Rightarrow> Stack \<Rightarrow> (nat \<times> u16) \<times> Stack" where
  "udp_Bind port s =
     (let port = (if port = 0 then (case udp_free s of None \<Rightarrow> port | Some p \<Rightarrow> p) else port)
      in case udp_ports s port of
           Some q \<Rightarrow> ((q, port), s)
         | None \<Rightarrow> ((udp_next s, port), s\<lparr>udp_ports := (udp_ports s)(port \<mapsto> udp_next s),
             udp_qs := (udp_qs s)(udp_next s := []), udp_next := udp_next s + 1\<rparr>))"

definition udp_Unbind :: "u16 \<Rightarrow> Stack \<Rightarrow> Stack" where
  "udp_Unbind port s = s\<lparr>udp_ports := (udp_ports s)(port := None)\<rparr>"

definition udp_push :: "bytes \<Rightarrow> nat \<Rightarrow> Stack \<Rightarrow> Stack" where
  "udp_push data q s = s\<lparr>udp_qs := (udp_qs s)(q := udp_qs s q @ [data])\<rparr>"

definition udp_Recv :: "nat \<Rightarrow> Stack \<Rightarrow> bytes option \<times> Stack" where
  "udp_Recv q s =
     (case udp_qs s q of
        [] \<Rightarrow> (None, s)
      | d # ds \<Rightarrow> (Some d, s\<lparr>udp_qs := (udp_qs s)(q := ds)\<rparr>))"

definition udp_handle :: "IP4Packet \<Rightarrow> Stack \<Rightarrow> Stack" where
  "udp_handle pkt s =
     (case ParseUDP (pPayload pkt) of
        Inl e \<Rightarrow> s
      | Inr dg \<Rightarrow>
          (case udp_ports s (uDstPort dg) of
             None \<Rightarrow> s
           | Some q \<Rightarrow> udp_push (uData dg) q s))"

definition udp_SendTo :: "bool op \<Rightarrow> u16 \<Rightarrow> IP4 \<Rightarrow> u16 \<Rightarrow> bytes \<Rightarrow> (nerr + unit) op" where
  "udp_SendTo pmp srcPort dstIP dstPort data s =
     SendUDP pmp dstIP \<lparr>uSrcPort = srcPort, uDstPort = dstPort, uData = data,
                        checksumSrc = zeroIP, checksumDst = zeroIP\<rparr> s"

section \<open>Inbound path\<close>

text \<open>The nested \<^verbatim>\<open>pump\<close> of a handler waits for \<^verbatim>\<open>hmu\<close>, which its own goroutine holds.\<close>

definition pump_held :: "bool op" where
  "pump_held s = None"

definition handleARP :: "EthFrame \<Rightarrow> Stack \<Rightarrow> Stack" where
  "handleARP f s =
     (case ParseARP (ePayload f) of
        Inl e \<Rightarrow> s
      | Inr pkt \<Rightarrow>
          let s = s\<lparr>RxARP := RxARP s + 1\<rparr>;
              s = (if SrcIP pkt \<noteq> zeroIP then arp_Update (SrcIP pkt) (SrcMAC pkt) s else s)
          in if Oper pkt = ARPOpRequest
             then
               (if DstIP pkt = s_IP s
                then
                  sink_Send (BuildEth (SrcMAC pkt) (s_MAC s) EthTypeARP
                    (ARP_Build \<lparr>Oper = ARPOpReply, SrcMAC = s_MAC s, SrcIP = s_IP s,
                                DstMAC = SrcMAC pkt, DstIP = SrcIP pkt\<rparr>)) s
                else s)
             else if Oper pkt = ARPOpReply then arp_Update (SrcIP pkt) (SrcMAC pkt) s
             else s)"

abbreviation (input) icmpInCap :: nat where "icmpInCap \<equiv> 64"

definition handleICMP :: "IP4Packet \<Rightarrow> unit op" where
  "handleICMP pkt s =
     (case ParseICMP (pPayload pkt) of
        Inl e \<Rightarrow> Some ((), s)
      | Inr msg \<Rightarrow>
          let s = s\<lparr>RxICMP := RxICMP s + 1\<rparr>
          in if iType msg = ICMPEchoRequest
             then
               (case sendIPv4 pump_held (pSrc pkt) IP4ProtoICMP (BuildEchoReply msg) s of
                  None \<Rightarrow> None
                | Some (_, s') \<Rightarrow> Some ((), s'))
             else if iType msg = ICMPEchoReply
             then
               (let q = (if length (icmpIn s) \<ge> icmpInCap then tl (icmpIn s) else icmpIn s)
                in Some ((), s\<lparr>icmpIn := q @ [msg]\<rparr>))
             else Some ((), s))"

text \<open>\<^verbatim>\<open>tcp.handle\<close>: the connection takes its own mutex, works on the segment and sends
  what it has to say while it still holds it.\<close>

definition handleTCP :: "IP4Packet \<Rightarrow> unit op" where
  "handleTCP pkt s =
     (case ParseTCP (pPayload pkt) of
        Inl e \<Rightarrow> Some ((), s)
      | Inr seg \<Rightarrow>
          (case conns (s_tcp s) (tDstPort seg) of
             None \<Rightarrow> Some ((), s)
           | Some c \<Rightarrow>
               if connLock s = Some (tDstPort seg) then None
               else
                 let t = tcp_handle pkt (s_tcp s)
                 in case conns t (tDstPort seg) of
                      None \<Rightarrow> Some ((), s)
                    | Some c' \<Rightarrow>
                        send_segs pump_held (RemoteIP c') (drop (length (c_out c)) (c_out c')) (s\<lparr>s_tcp := t\<rparr>)))"

definition handleIPv4 :: "EthFrame \<Rightarrow> unit op" where
  "handleIPv4 f s =
     (case ParseIP4 (ePayload f) of
        Inl e \<Rightarrow> Some ((), s)
      | Inr pkt \<Rightarrow>
          if pDst pkt \<noteq> s_IP s \<and> pDst pkt \<noteq> broadcastIP then Some ((), s)
          else
            let s = s\<lparr>RxIPv4 := RxIPv4 s + 1\<rparr>
            in if pProto pkt = IP4ProtoICMP then handleICMP pkt s
               else if pProto pkt = IP4ProtoUDP then Some ((), udp_handle pkt s)
               else if pProto pkt = IP4ProtoTCP then handleTCP pkt s
               else Some ((), s))"

definition handleFrame :: "bytes \<Rightarrow> unit op" where
  "handleFrame raw s =
     (case ParseEth raw of
        Inl e \<Rightarrow> Some ((), s)
      | Inr f \<Rightarrow>
          if eDst f \<noteq> s_MAC s \<and> \<not> IsBroadcast (eDst f) then Some ((), s)
          else
            let s = s\<lparr>RxEth := RxEth s + 1\<rparr>
            in if eType f = EthTypeARP then Some ((), handleARP f s)
               else if eType f = EthTypeIPv4 then handleIPv4 f s
               else Some ((), s))"

definition pump :: "bool op" where
  "pump s =
     (case s_rx s of
        [] \<Rightarrow> Some (False, s)
      | raw # rest \<Rightarrow>
          (case handleFrame raw (s\<lparr>s_rx := rest\<rparr>) of
             None \<Rightarrow> None
           | Some (_, s') \<Rightarrow> Some (True, s')))"

partial_function (option) Drain :: "nat \<Rightarrow> Stack \<Rightarrow> (nat \<times> Stack) option" where
  "Drain n s =
     (case pump s of
        None \<Rightarrow> None
      | Some (ok, s') \<Rightarrow> if ok then Drain (n + 1) s' else Some (n, s'))"

definition Resolve :: "IP4 \<Rightarrow> nat \<Rightarrow> (nerr + MAC) op" where
  "Resolve = Resolve_with pump"

section \<open>Clients of the stack\<close>

definition ping_match :: "u16 \<Rightarrow> u16 \<Rightarrow> bytes \<Rightarrow> ICMPPacket \<Rightarrow> bool" where
  "ping_match i sq payload r \<longleftrightarrow> iType r = ICMPEchoReply \<and> iID r = i \<and> iSeq r = sq \<and> iData r = payload"

fun ping_loop :: "u16 \<Rightarrow> u16 \<Rightarrow> bytes \<Rightarrow> nat \<Rightarrow> (nerr + ICMPPacket) op" where
  "ping_loop i sq payload 0 s = Some (Inl ErrNoReply, s)"
| "ping_loop i sq payload (Suc budget) s =
     (case dropWhile (\<lambda>r. \<not> ping_match i sq payload r) (icmpIn s) of
        r # rest \<Rightarrow>
          Some (Inr r, s\<lparr>icmpIn := takeWhile (\<lambda>r. \<not> ping_match i sq payload r) (icmpIn s) @ rest\<rparr>)
      | [] \<Rightarrow>
          (case pump s of
             None \<Rightarrow> None
           | Some (_, s') \<Rightarrow> ping_loop i sq payload budget s'))"

definition Ping :: "IP4 \<Rightarrow> u16 \<Rightarrow> u16 \<Rightarrow> bytes \<Rightarrow> nat \<Rightarrow> (nerr + ICMPPacket) op" where
  "Ping dst i sq payload budget s =
     (case sendIPv4 pump dst IP4ProtoICMP
             (ICMP_Build \<lparr>iType = ICMPEchoRequest, iCode = 0, iID = i, iSeq = sq, iData = payload\<rparr>) s of
        None \<Rightarrow> None
      | Some (Inl e, s) \<Rightarrow> Some (Inl e, s)
      | Some (Inr u, s) \<Rightarrow> ping_loop i sq payload budget s)"

definition Stats :: "Stack \<Rightarrow> u64 \<times> u64 \<times> u64 \<times> u64" where
  "Stats s = (RxEth s, RxARP s, RxIPv4 s, RxICMP s)"

text \<open>A connection operation called by a client: the connection's mutex is held until its
  segments are out, and frames that arrive meanwhile are handled.\<close>

definition with_conn :: "u16 \<Rightarrow> (TCPConn \<Rightarrow> 'a \<times> TCPConn) \<Rightarrow> 'a op" where
  "with_conn port f s =
     (case conns (s_tcp s) port of
        None \<Rightarrow> None
      | Some c \<Rightarrow>
          let (r, c') = f c;
              s = s\<lparr>s_tcp := (s_tcp s)\<lparr>conns := (conns (s_tcp s))(port \<mapsto> c')\<rparr>, connLock := Some port\<rparr>
          in case send_segs pump (RemoteIP c') (drop (length (c_out c)) (c_out c')) s of
               None \<Rightarrow> None
             | Some (_, s) \<Rightarrow> Some (r, s\<lparr>connLock := None\<rparr>))"

definition tcp_Write :: "u16 \<Rightarrow> bytes \<Rightarrow> (terr + nat) op" where
  "tcp_Write port data = with_conn port (conn_Write data)"

definition tcp_Close :: "u16 \<Rightarrow> (terr + unit) op" where
  "tcp_Close port = with_conn port conn_Close"

definition tcp_Recv :: "u16 \<Rightarrow> nat \<Rightarrow> bytes op" where
  "tcp_Recv port n = with_conn port (conn_Recv n)"

definition tcp_Dial :: "IP4 \<Rightarrow> IP4 \<Rightarrow> u16 \<Rightarrow> u16 op" where
  "tcp_Dial laddr raddr rport s =
     (case Dial laddr raddr rport (s_tcp s) of
        None \<Rightarrow> None
      | Some (local, t) \<Rightarrow>
          (case send_segs pump raddr (case conns t local of None \<Rightarrow> [] | Some c \<Rightarrow> c_out c)
                  (s\<lparr>s_tcp := t, connLock := Some local\<rparr>) of
             None \<Rightarrow> None
           | Some (_, s) \<Rightarrow> Some (local, s\<lparr>connLock := None\<rparr>)))"

end
