(* ===== verification/Net_Stack_Props.thy ===== *)
theory Net_Stack_Props
  imports Net_Stack
begin

text \<open>
  What the stack does with whole frames: address resolution between two hosts, datagrams and echo
  requests that travel from one stack to another, routing, and when handling a frame blocks.
\<close>

section \<open>Sending when the next hop is known\<close>

definition stack_ok :: "Stack \<Rightarrow> bool" where
  "stack_ok s \<longleftrightarrow> length (s_MAC s) = 6 \<and> length (s_IP s) = 4"

text \<open>The address whose hardware address a frame for dst needs: dst itself, the gateway, or none.\<close>

definition next_hop :: "IP4 \<Rightarrow> Stack \<Rightarrow> IP4 option" where
  "next_hop dst s = (if onLink dst s then Some dst else if IsZero (Gateway s) then None else Some (Gateway s))"

lemma resolve_cached: "arp s ip = Some mac \<Longrightarrow> Resolve_with pmp ip n s = Some (Inr mac, s)"
  by (simp add: Resolve_with_def arp_Lookup_def)

lemma hop_cached:
  "next_hop dst s = Some h \<Longrightarrow> arp s h = Some mac \<Longrightarrow> nextHopMAC pmp dst s = Some (Inr mac, s)"
  by (auto simp: next_hop_def nextHopMAC_def resolve_cached split: if_splits)

lemma hop_none: "next_hop dst s = None \<Longrightarrow> nextHopMAC pmp dst s = Some (Inl ErrNoRoute, s)"
  by (auto simp: next_hop_def nextHopMAC_def split: if_splits)

lemma hop_held:
  "next_hop dst s = Some h \<Longrightarrow> arp s h = None \<Longrightarrow> nextHopMAC pump_held dst s = None"
  by (auto simp: next_hop_def nextHopMAC_def Resolve_with_def arp_Lookup_def sink_Send_def pump_held_def
      eval_nat_numeral split: if_splits)

lemma send_cached:
  assumes "next_hop dst s = Some h" "arp s h = Some mac" "dst \<noteq> broadcastIP" "length pl \<le> 1492"
    "length src = 4" "length dst = 4"
  obtains dg where "IP4_Build \<lparr>pSrc = src, pDst = dst, pProto = pr, pTTL = 0, pPayload = pl\<rparr> = Inr dg"
    "sendIPv4From pmp src dst pr pl s = Some (Inr (), sink_Send (BuildEth mac (s_MAC s) EthTypeIPv4 dg) s)"
proof -
  obtain dg where dg: "IP4_Build \<lparr>pSrc = src, pDst = dst, pProto = pr, pTTL = 0, pPayload = pl\<rparr> = Inr dg"
    using assms(4) by (auto simp: IP4_Build_def Let_def)
  then show ?thesis using that assms(3) hop_cached [OF assms(1,2)] by (simp add: sendIPv4From_def)
qed

lemma send_held:
  "next_hop dst s = Some h \<Longrightarrow> arp s h = None \<Longrightarrow> dst \<noteq> broadcastIP \<Longrightarrow> sendIPv4From pump_held src dst pr pl s = None"
  by (simp add: sendIPv4From_def hop_held)

section \<open>Receiving an IPv4 frame\<close>

definition counted :: "Stack \<Rightarrow> Stack" where
  "counted s = s\<lparr>RxEth := RxEth s + 1, RxIPv4 := RxIPv4 s + 1\<rparr>"

lemma counted_simps [simp]:
  "s_MAC (counted s) = s_MAC s" "s_IP (counted s) = s_IP s" "arp (counted s) = arp s" "s_tx (counted s) = s_tx s"
  "udp_ports (counted s) = udp_ports s" "udp_qs (counted s) = udp_qs s" "icmpIn (counted s) = icmpIn s" "s_rx (counted s) = s_rx s"
  "next_hop d (counted s) = next_hop d s" "connLock (counted s) = connLock s" "s_tcp (counted s) = s_tcp s"
  by (simp_all add: counted_def next_hop_def onLink_def)

lemma handle_ip_frame:
  assumes "IP4_Build p = Inr dg" "length (pSrc p) = 4" "length (pDst p) = 4" "length dst = 6" "length src = 6"
    "dst = s_MAC s \<or> dst = BroadcastMAC" "pDst p = s_IP s \<or> pDst p = broadcastIP"
  shows "handleFrame (BuildEth dst src EthTypeIPv4 dg) s =
    (let pkt = p\<lparr>pTTL := ip_ttl (pTTL p)\<rparr>
     in if pProto p = IP4ProtoICMP then handleICMP pkt (counted s)
        else if pProto p = IP4ProtoUDP then Some ((), udp_handle pkt (counted s))
        else if pProto p = IP4ProtoTCP then handleTCP pkt (counted s)
        else Some ((), counted s))"
proof -
  have c: "s\<lparr>RxEth := RxEth s + 1, RxIPv4 := RxIPv4 (s\<lparr>RxEth := RxEth s + 1\<rparr>) + 1\<rparr> = counted s" by (simp add: counted_def)
  show ?thesis
    using assms(6,7)
    by (auto simp: handleFrame_def ParseEth_BuildEth [OF assms(4,5)] IsBroadcast_def handleIPv4_def
        ParseIP4_Build [OF assms(1-3)] c Let_def counted_def)
qed

lemma handle_udp:
  assumes "udp_ports s (uDstPort d) = Some q" "length (uData d) \<le> 1484" "pPayload pkt = UDP_Build d"
  shows "udp_handle pkt s = s\<lparr>udp_qs := (udp_qs s)(q := udp_qs s q @ [uData d])\<rparr>"
  using ParseUDP_Build [of d "[]"] assms by (simp add: udp_handle_def udp_push_def)

lemma length_UDP_Build: "length (UDP_Build d) = 8 + length (uData d)"
  by (simp add: UDP_Build_def Let_def BePut16_def)

lemma length_ICMP_Build: "length (ICMP_Build c) = 8 + length (iData c)"
  by (simp add: ICMP_Build_fields)

lemma handle_echo_request:
  assumes "pPayload pkt = ICMP_Build \<lparr>iType = ICMPEchoRequest, iCode = cd, iID = i, iSeq = sq, iData = data\<rparr>"
    "length data \<le> 1484"
  shows "handleICMP pkt s =
    (case sendIPv4 pump_held (pSrc pkt) IP4ProtoICMP
        (ICMP_Build \<lparr>iType = ICMPEchoReply, iCode = 0, iID = i, iSeq = sq, iData = data\<rparr>) (s\<lparr>RxICMP := RxICMP s + 1\<rparr>) of
       None \<Rightarrow> None | Some (_, s') \<Rightarrow> Some ((), s'))"
  using ParseICMP_Build [of "\<lparr>iType = 8, iCode = cd, iID = i, iSeq = sq, iData = data\<rparr>"] assms
  by (simp add: handleICMP_def BuildEchoReply_def)

lemma handle_echo_reply:
  assumes "pPayload pkt = ICMP_Build c" "iType c = ICMPEchoReply" "length (iData c) \<le> 1484"
  shows "handleICMP pkt s = Some ((), s\<lparr>RxICMP := RxICMP s + 1,
    icmpIn := (if length (icmpIn s) \<ge> 64 then tl (icmpIn s) else icmpIn s) @ [c]\<rparr>)"
  using ParseICMP_Build [of c] assms by (simp add: handleICMP_def Let_def)

section \<open>What handling a frame can change\<close>

text \<open>A send from within a handler either adds frames to the transmit queue or never returns, and
  it does not return exactly when the next hop is not cached.\<close>

lemma held_resolve: "Resolve_with pump_held ip 2000 s = (case arp s ip of None \<Rightarrow> None | Some mac \<Rightarrow> Some (Inr mac, s))"
  by (simp add: Resolve_with_def arp_Lookup_def sink_Send_def pump_held_def eval_nat_numeral split: option.split)

lemma tx_same: "s\<lparr>s_tx := s_tx s\<rparr> = s"
  by simp

lemma held_send:
  assumes "sendIPv4From pump_held src dst pr pl s = Some (r, s')"
  shows "\<exists>tx. s' = s\<lparr>s_tx := tx\<rparr>"
proof -
  have "s' = s\<lparr>s_tx := s_tx s'\<rparr>" using assms
    by (auto simp: sendIPv4From_def nextHopMAC_def held_resolve sink_Send_def tx_same
        split: if_splits option.splits sum.splits)
  then show ?thesis ..
qed

lemma held_send_None:
  "sendIPv4From pump_held src dst pr pl s = None \<Longrightarrow> \<exists>h. next_hop dst s = Some h \<and> arp s h = None"
  by (auto simp: sendIPv4From_def nextHopMAC_def held_resolve next_hop_def split: if_splits option.splits sum.splits)

lemma held_SendTCP:
  "SendTCPSegment pump_held ip g s = Some (r, s') \<Longrightarrow> \<exists>tx. s' = s\<lparr>s_tx := tx\<rparr>"
  "SendTCPSegment pump_held ip g s = None \<Longrightarrow> \<exists>h. next_hop ip s = Some h \<and> arp s h = None"
  by (auto simp: SendTCPSegment_def sendIPv4_def Let_def dest: held_send held_send_None)

lemma next_hop_tx [simp]: "next_hop d (s\<lparr>s_tx := tx\<rparr>) = next_hop d s" "next_hop d (s\<lparr>s_tcp := t\<rparr>) = next_hop d s"
  "next_hop d (s\<lparr>arp := m\<rparr>) = next_hop d s" "next_hop d (s\<lparr>RxICMP := n\<rparr>) = next_hop d s" "next_hop d (s\<lparr>s_rx := fs\<rparr>) = next_hop d s"
  by (simp_all add: next_hop_def onLink_def)

lemma held_segs: "send_segs pump_held ip gs s = Some (r, s') \<Longrightarrow> \<exists>tx. s' = s\<lparr>s_tx := tx\<rparr>"
proof (induction gs arbitrary: s)
  case Nil
  then have "s' = s\<lparr>s_tx := s_tx s\<rparr>" by simp
  then show ?case by blast
next
  case (Cons g gs)
  then obtain r1 s1 where s1: "SendTCPSegment pump_held ip (TCP_Build g) s = Some (r1, s1)" "send_segs pump_held ip gs s1 = Some (r, s')"
    by (auto split: option.splits)
  obtain tx where "s1 = s\<lparr>s_tx := tx\<rparr>" using held_SendTCP(1) [OF s1(1)] by blast
  then show ?case using Cons.IH [OF s1(2)] by auto
qed

lemma held_segs_None: "send_segs pump_held ip gs s = None \<Longrightarrow> \<exists>h. next_hop ip s = Some h \<and> arp s h = None"
proof (induction gs arbitrary: s)
  case (Cons g gs)
  show ?case
  proof (cases "SendTCPSegment pump_held ip (TCP_Build g) s")
    case None
    then show ?thesis by (rule held_SendTCP(2))
  next
    case (Some a)
    then obtain r1 s1 where s1: "SendTCPSegment pump_held ip (TCP_Build g) s = Some (r1, s1)" by (cases a) auto
    obtain tx where tx: "s1 = s\<lparr>s_tx := tx\<rparr>" using held_SendTCP(1) [OF s1] by blast
    have "send_segs pump_held ip gs s1 = None" using Cons.prems s1 by simp
    from Cons.IH [OF this] show ?thesis by (simp add: tx)
  qed
qed simp

lemma handleICMP_effect:
  assumes "handleICMP pkt s = Some (u, s')"
  shows "s' = s\<lparr>s_tx := s_tx s', icmpIn := icmpIn s', RxICMP := RxICMP s'\<rparr> \<and>
    (length (icmpIn s) \<le> 64 \<longrightarrow> length (icmpIn s') \<le> 64)"
  using assms
  by (auto simp: handleICMP_def sendIPv4_def Let_def dest!: held_send split: sum.splits option.splits if_splits)

definition addr_kept :: "Stack \<Rightarrow> Stack \<Rightarrow> bool" where
  "addr_kept s s' \<longleftrightarrow> s_MAC s' = s_MAC s \<and> s_IP s' = s_IP s \<and> Netmask s' = Netmask s \<and> Gateway s' = Gateway s \<and>
     s_rx s' = s_rx s \<and> connLock s' = connLock s \<and> (length (icmpIn s) \<le> 64 \<longrightarrow> length (icmpIn s') \<le> 64) \<and>
     udp_ports s' = udp_ports s \<and> (\<forall>ip. arp s ip \<noteq> None \<longrightarrow> arp s' ip \<noteq> None)"

lemma addr_kept_refl: "addr_kept s s" by (simp add: addr_kept_def)

lemma handleTCP_kept: "handleTCP pkt s = Some (u, s') \<Longrightarrow> addr_kept s s'"
  by (auto simp: handleTCP_def Let_def addr_kept_def dest!: held_segs split: sum.splits option.splits if_splits)

lemma udp_kept: "addr_kept s (udp_handle pkt s)"
  by (auto simp: udp_handle_def udp_push_def addr_kept_def split: sum.splits option.splits)

lemma handleARP_kept: "addr_kept s (handleARP f s)"
  by (auto simp: handleARP_def addr_kept_def arp_Update_def sink_Send_def Let_def split: sum.splits)

lemma handleICMP_kept: "handleICMP pkt s = Some (u, s') \<Longrightarrow> addr_kept s s'"
  by (drule handleICMP_effect, erule conjE, erule ssubst) (simp add: addr_kept_def)

lemma addr_kept_cong:
  "addr_kept (s\<lparr>RxIPv4 := n\<rparr>) s' \<Longrightarrow> addr_kept s s'" "addr_kept (s\<lparr>RxEth := n\<rparr>) s' \<Longrightarrow> addr_kept s s'"
  by (simp_all add: addr_kept_def)

lemma handleIPv4_kept: "handleIPv4 f s = Some (u, s') \<Longrightarrow> addr_kept s s'"
  by (auto simp: handleIPv4_def Let_def addr_kept_refl split: sum.splits if_splits
      intro: addr_kept_cong(1) [OF handleICMP_kept] addr_kept_cong(1) [OF handleTCP_kept]
        addr_kept_cong(1) [OF udp_kept] addr_kept_cong(1) [OF addr_kept_refl])

lemma handleFrame_kept: "handleFrame raw s = Some (u, s') \<Longrightarrow> addr_kept s s'"
  by (auto simp: handleFrame_def Let_def addr_kept_refl split: sum.splits if_splits
      intro: addr_kept_cong(2) [OF handleIPv4_kept] addr_kept_cong(2) [OF handleARP_kept]
        addr_kept_cong(2) [OF addr_kept_refl])

section \<open>Properties of the stack\<close>

lemma length_Broadcast [simp]: "length BroadcastMAC = 6"
  by (simp add: BroadcastMAC_def)

lemma handle_arp_frame:
  assumes "length (SrcMAC a) = 6" "length (DstMAC a) = 6" "length (SrcIP a) = 4" "length (DstIP a) = 4"
    "length dst = 6" "length src = 6" "dst = s_MAC s \<or> dst = BroadcastMAC"
  shows "handleFrame (BuildEth dst src EthTypeARP (ARP_Build a)) s =
    (let s = s\<lparr>RxEth := RxEth s + 1, RxARP := RxARP s + 1\<rparr>;
         s = (if SrcIP a \<noteq> zeroIP then arp_Update (SrcIP a) (SrcMAC a) s else s)
     in Some ((), if Oper a = ARPOpRequest
        then (if DstIP a = s_IP s
              then sink_Send (BuildEth (SrcMAC a) (s_MAC s) EthTypeARP
                (ARP_Build \<lparr>Oper = ARPOpReply, SrcMAC = s_MAC s, SrcIP = s_IP s, DstMAC = SrcMAC a, DstIP = SrcIP a\<rparr>)) s
              else s)
        else if Oper a = ARPOpReply then arp_Update (SrcIP a) (SrcMAC a) s else s))"
proof -
  have g: "\<not> (dst \<noteq> s_MAC s \<and> \<not> IsBroadcast dst)" using assms(7) by (auto simp: IsBroadcast_def)
  show ?thesis unfolding handleFrame_def ParseEth_BuildEth [OF assms(5,6)] sum.case EthFrame.select_convs if_not_P [OF g] Let_def handleARP_def
      ParseARP_Build [OF assms(1-4)] by simp
qed

text \<open>Address resolution between two hosts works: the broadcast request of one host makes the other learn
  its address and answer with exactly one frame; once that frame is the next to be received,
  \<^verbatim>\<open>Resolve\<close> returns the other host's hardware address and caches it.\<close>

theorem arp_exchange:
  assumes "stack_ok a" "stack_ok b" "s_IP a \<noteq> zeroIP" "arp a (s_IP b) = None"
  shows "\<exists>b' reply. handleFrame (arp_request a (s_IP b)) b = Some ((), b') \<and>
    arp b' = (arp b)(s_IP a \<mapsto> s_MAC a) \<and> s_tx b' = s_tx b @ [reply] \<and>
    (\<exists>a'. Resolve (s_IP b) (Suc (Suc n)) (a\<lparr>s_rx := reply # rest\<rparr>) = Some (Inr (s_MAC b), a') \<and>
       arp a' = (arp a)(s_IP b \<mapsto> s_MAC b) \<and> s_rx a' = rest \<and> s_tx a' = s_tx a @ [arp_request a (s_IP b)])"
proof -
  have l: "length (s_MAC a) = 6" "length (s_IP a) = 4" "length (s_MAC b) = 6" "length (s_IP b) = 4"
    using assms(1,2) by (simp_all add: stack_ok_def)
  let ?r = "\<lparr>Oper = ARPOpReply, SrcMAC = s_MAC b, SrcIP = s_IP b, DstMAC = s_MAC a, DstIP = s_IP a\<rparr>"
  let ?reply = "BuildEth (s_MAC a) (s_MAC b) EthTypeARP (ARP_Build ?r)"
  define b' where "b' = snd (the (handleFrame (arp_request a (s_IP b)) b))"
  have b': "handleFrame (arp_request a (s_IP b)) b = Some ((), b')" "arp b' = (arp b)(s_IP a \<mapsto> s_MAC a)"
    "s_tx b' = s_tx b @ [?reply]"
    using assms(3) l by (simp_all add: b'_def arp_request_def handle_arp_frame arp_Update_def sink_Send_def Let_def)
  let ?a = "(sink_Send (arp_request (a\<lparr>s_rx := ?reply # rest\<rparr>) (s_IP b)) (a\<lparr>s_rx := ?reply # rest\<rparr>))"
  define a' where "a' = snd (the (pump ?a))"
  have p: "pump ?a = Some (True, a')" "arp a' = (arp a)(s_IP b \<mapsto> s_MAC b)" "s_rx a' = rest"
    "s_tx a' = s_tx a @ [arp_request a (s_IP b)]"
    using l by (simp_all add: a'_def pump_def sink_Send_def handle_arp_frame arp_Update_def arp_request_def Let_def)
  have "Resolve (s_IP b) (Suc (Suc n)) (a\<lparr>s_rx := ?reply # rest\<rparr>) = Some (Inr (s_MAC b), a')"
    using assms(4) p(1,2) by (simp add: Resolve_def Resolve_with_def arp_Lookup_def) (simp add: sink_Send_def arp_Lookup_def)
  then show ?thesis using b' p by blast
qed

definition ex_a :: Stack where
  "ex_a = NewStack [2,0,0,0,0,1] [10,0,2,15]"

definition ex_b :: Stack where
  "ex_b = NewStack [2,0,0,0,0,2] [10,0,2,2]"

lemma ex_ab [simp]: "stack_ok ex_a" "stack_ok ex_b" "s_IP ex_a = [10,0,2,15]" "s_IP ex_b = [10,0,2,2]"
  "arp ex_a = Map.empty" "arp ex_b = Map.empty" "s_MAC ex_a = [2,0,0,0,0,1]" "s_MAC ex_b = [2,0,0,0,0,2]"
  "next_hop d ex_a = Some d" "next_hop d ex_b = Some d" "icmpIn ex_a = []"
  by (simp_all add: ex_a_def ex_b_def NewStack_def stack_ok_def next_hop_def onLink_def IsZero_def)

theorem arp_exchange_witness:
  "\<exists>reply a'. Resolve [10,0,2,2] 2 (ex_a\<lparr>s_rx := [reply]\<rparr>) = Some (Inr [2,0,0,0,0,2], a') \<and> s_rx a' = []"
  using arp_exchange [of ex_a ex_b 0 "[]"] by (auto simp: eval_nat_numeral)

text \<open>A datagram sent by one stack arrives at the other: with the next hop resolved, \<^verbatim>\<open>SendTo\<close> emits
  one frame, and the receiving stack appends exactly the sent bytes to the queue of the destination
  port; no other queue and nothing else but its receive counters changes.\<close>

lemma udp_delivered:
  assumes "stack_ok a" "stack_ok b" "next_hop (s_IP b) a = Some h" "arp a h = Some (s_MAC b)"
    "s_IP b \<noteq> broadcastIP" "udp_ports b dport = Some q" "length data \<le> 1484"
  shows "\<exists>frame. udp_SendTo pump sport (s_IP b) dport data a = Some (Inr (), a\<lparr>s_tx := s_tx a @ [frame]\<rparr>) \<and>
    handleFrame frame b = Some ((), b\<lparr>RxEth := RxEth b + 1, RxIPv4 := RxIPv4 b + 1,
      udp_qs := (udp_qs b)(q := udp_qs b q @ [data])\<rparr>)"
proof -
  have l: "length (s_MAC a) = 6" "length (s_IP a) = 4" "length (s_MAC b) = 6" "length (s_IP b) = 4"
    using assms(1,2) by (simp_all add: stack_ok_def)
  let ?d = "\<lparr>uSrcPort = sport, uDstPort = dport, uData = data, checksumSrc = s_IP a, checksumDst = s_IP b\<rparr>"
  obtain dg where dg: "IP4_Build \<lparr>pSrc = s_IP a, pDst = s_IP b, pProto = 17, pTTL = 0, pPayload = UDP_Build ?d\<rparr> = Inr dg"
    "sendIPv4From pump (s_IP a) (s_IP b) 17 (UDP_Build ?d) a =
      Some (Inr (), sink_Send (BuildEth (s_MAC b) (s_MAC a) EthTypeIPv4 dg) a)"
    by (rule send_cached [OF assms(3,4,5), of "UDP_Build ?d" "s_IP a" 17 pump])
       (use assms(7) l in \<open>simp_all add: length_UDP_Build\<close>)
  have "handleFrame (BuildEth (s_MAC b) (s_MAC a) EthTypeIPv4 dg) b =
      Some ((), (counted b)\<lparr>udp_qs := (udp_qs b)(q := udp_qs b q @ [data])\<rparr>)"
    using handle_ip_frame [OF dg(1), of "s_MAC b" "s_MAC a" b] l assms(6,7)
      handle_udp [of "counted b" ?d q "\<lparr>pSrc = s_IP a, pDst = s_IP b, pProto = 17, pTTL = ip_ttl 0, pPayload = UDP_Build ?d\<rparr>"]
    by (simp add: Let_def)
  then show ?thesis using dg(2)
    by (intro exI [of _ "BuildEth (s_MAC b) (s_MAC a) EthTypeIPv4 dg"])
       (simp add: udp_SendTo_def SendUDP_def sendIPv4_def sink_Send_def counted_def)
qed

text \<open>C28: A ping is answered: the echo request one stack emits makes the other stack, which knows the way back,
  emit one reply, and once that reply is the next frame received, \<^verbatim>\<open>Ping\<close> returns it with the
  identifier, sequence number and data of the request.\<close>

theorem ping_end_to_end:
  assumes "stack_ok a" "stack_ok b" "next_hop (s_IP b) a = Some h" "arp a h = Some (s_MAC b)"
    "next_hop (s_IP a) b = Some h'" "arp b h' = Some (s_MAC a)" "s_IP a \<noteq> broadcastIP" "s_IP b \<noteq> broadcastIP"
    "length data \<le> 1484" "icmpIn a = []"
  shows "\<exists>request b' reply. handleFrame request b = Some ((), b') \<and> s_tx b' = s_tx b @ [reply] \<and>
    (\<exists>a'. Ping (s_IP b) i sq data (Suc (Suc n)) (a\<lparr>s_rx := reply # rest\<rparr>) =
        Some (Inr \<lparr>iType = ICMPEchoReply, iCode = 0, iID = i, iSeq = sq, iData = data\<rparr>, a') \<and>
      s_tx a' = s_tx a @ [request] \<and> icmpIn a' = [] \<and> s_rx a' = rest)"
proof -
  have l: "length (s_MAC a) = 6" "length (s_IP a) = 4" "length (s_MAC b) = 6" "length (s_IP b) = 4"
    using assms(1,2) by (simp_all add: stack_ok_def)
  let ?req = "ICMP_Build \<lparr>iType = ICMPEchoRequest, iCode = 0, iID = i, iSeq = sq, iData = data\<rparr>"
  let ?c = "\<lparr>iType = ICMPEchoReply, iCode = 0, iID = i, iSeq = sq, iData = data\<rparr>"
  let ?b = "(counted b)\<lparr>RxICMP := RxICMP b + 1\<rparr>"
  obtain dgr where dgr: "IP4_Build \<lparr>pSrc = s_IP b, pDst = s_IP a, pProto = 1, pTTL = 0, pPayload = ICMP_Build ?c\<rparr> = Inr dgr"
    "sendIPv4From pump_held (s_IP b) (s_IP a) 1 (ICMP_Build ?c) ?b =
      Some (Inr (), sink_Send (BuildEth (s_MAC a) (s_MAC ?b) EthTypeIPv4 dgr) ?b)"
    by (rule send_cached [of "s_IP a" ?b h' "s_MAC a" "ICMP_Build ?c" "s_IP b" 1 pump_held])
       (use assms l in \<open>simp_all add: length_ICMP_Build\<close>)
  let ?reply = "BuildEth (s_MAC a) (s_MAC b) EthTypeIPv4 dgr"
  let ?a = "a\<lparr>s_rx := ?reply # rest\<rparr>"
  obtain dg where dg: "IP4_Build \<lparr>pSrc = s_IP a, pDst = s_IP b, pProto = 1, pTTL = 0, pPayload = ?req\<rparr> = Inr dg"
    "sendIPv4From pump (s_IP a) (s_IP b) 1 ?req ?a =
      Some (Inr (), sink_Send (BuildEth (s_MAC b) (s_MAC ?a) EthTypeIPv4 dg) ?a)"
    by (rule send_cached [of "s_IP b" ?a h "s_MAC b" ?req "s_IP a" 1 pump])
       (use assms l in \<open>simp_all add: length_ICMP_Build\<close>)
  let ?request = "BuildEth (s_MAC b) (s_MAC a) EthTypeIPv4 dg"
  have hb: "handleFrame ?request b = Some ((), sink_Send ?reply ?b)"
    using handle_ip_frame [OF dg(1), of "s_MAC b" "s_MAC a" b] l dgr(2) assms(9)
      handle_echo_request [of "\<lparr>pSrc = s_IP a, pDst = s_IP b, pProto = 1, pTTL = ip_ttl 0, pPayload = ?req\<rparr>" 0 i sq data "counted b"]
    by (simp add: sendIPv4_def counted_def)
  let ?a1 = "sink_Send ?request ?a"
  let ?a2 = "(counted (?a1\<lparr>s_rx := rest\<rparr>))\<lparr>RxICMP := RxICMP a + 1, icmpIn := [?c]\<rparr>"
  have "handleFrame ?reply (?a1\<lparr>s_rx := rest\<rparr>) = Some ((), ?a2)"
    using handle_ip_frame [OF dgr(1), of "s_MAC a" "s_MAC b" "?a1\<lparr>s_rx := rest\<rparr>"] l assms(9,10)
      handle_echo_reply [of "\<lparr>pSrc = s_IP b, pDst = s_IP a, pProto = 1, pTTL = ip_ttl 0, pPayload = ICMP_Build ?c\<rparr>" ?c "counted (?a1\<lparr>s_rx := rest\<rparr>)"]
    by (simp add: sink_Send_def counted_def)
  then have pm: "pump ?a1 = Some (True, ?a2)" by (simp add: pump_def sink_Send_def)
  have "icmpIn ?a1 = []" using assms(10) by (simp add: sink_Send_def)
  then have "Ping (s_IP b) i sq data (Suc (Suc n)) ?a = Some (Inr ?c, ?a2\<lparr>icmpIn := []\<rparr>)"
    using dg(2) pm by (simp add: Ping_def sendIPv4_def ping_match_def)
  moreover have "s_tx (sink_Send ?reply ?b) = s_tx b @ [?reply]" by (simp add: sink_Send_def)
  moreover have "s_tx (?a2\<lparr>icmpIn := []\<rparr>) = s_tx a @ [?request] \<and> s_rx (?a2\<lparr>icmpIn := []\<rparr>) = rest"
    by (simp add: sink_Send_def)
  ultimately show ?thesis using hb
    by (intro exI [of _ ?request] exI [of _ "sink_Send ?reply ?b"] exI [of _ ?reply] conjI exI [of _ "?a2\<lparr>icmpIn := []\<rparr>"]) simp_all
qed

theorem ping_end_to_end_witness:
  "\<exists>reply a'. Ping [10,0,2,2] 7 1 [1,2,3] (Suc (Suc 2)) ((arp_Update [10,0,2,2] [2,0,0,0,0,2] ex_a)\<lparr>s_rx := [reply]\<rparr>) =
     Some (Inr \<lparr>iType = 0, iCode = 0, iID = 7, iSeq = 1, iData = [1,2,3]\<rparr>, a')"
proof -
  let ?a = "arp_Update [10,0,2,2] [2,0,0,0,0,2] ex_a" and ?b = "arp_Update [10,0,2,15] [2,0,0,0,0,1] ex_b"
  have "stack_ok ?a" "stack_ok ?b" "icmpIn ?a = []" using ex_ab(1,2) by (simp_all add: arp_Update_def stack_ok_def)
  then show ?thesis
    using ping_end_to_end [of ?a ?b "[10,0,2,2]" "[10,0,2,15]" "[1,2,3]" 7 1 2 "[]"]
    by (auto simp: arp_Update_def broadcastIP_def)
qed

text \<open>Handling a frame can block the stack for ever, and only in one way: if it does not return, the frame
  was an IPv4 packet for which an answer had to be sent from within the handler, an echo reply or TCP
  segments, while the hardware address of the next hop was not cached (or a TCP segment for
  the very connection a client call is just sending on).  ARP and UDP frames always return.\<close>

theorem handle_blocks_only:
  assumes "handleFrame raw s = None"
  shows "\<exists>f pkt. ParseEth raw = Inr f \<and> ParseIP4 (ePayload f) = Inr pkt \<and>
    (pProto pkt = IP4ProtoICMP \<and> (\<exists>h. next_hop (pSrc pkt) s = Some h \<and> arp s h = None) \<or>
     pProto pkt = IP4ProtoTCP \<and> (\<exists>seg. ParseTCP (pPayload pkt) = Inr seg \<and> (connLock s = Some (tDstPort seg) \<or>
        (\<exists>c h. conns (tcp_handle pkt (s_tcp s)) (tDstPort seg) = Some c \<and> next_hop (RemoteIP c) s = Some h \<and> arp s h = None))))"
proof -
  obtain f where f: "ParseEth raw = Inr f" "handleIPv4 f (s\<lparr>RxEth := RxEth s + 1\<rparr>) = None"
    using assms by (auto simp: handleFrame_def Let_def split: sum.splits if_splits)
  let ?s = "s\<lparr>RxEth := RxEth s + 1, RxIPv4 := RxIPv4 s + 1\<rparr>"
  have n: "next_hop d ?s = next_hop d s" for d by (simp add: next_hop_def onLink_def)
  obtain pkt where p: "ParseIP4 (ePayload f) = Inr pkt"
    "pProto pkt = IP4ProtoICMP \<and> handleICMP pkt ?s = None \<or> pProto pkt = IP4ProtoTCP \<and> handleTCP pkt ?s = None"
    using f(2) by (auto simp: handleIPv4_def Let_def split: sum.splits if_splits)
  have "\<exists>h. next_hop (pSrc pkt) s = Some h \<and> arp s h = None" if "handleICMP pkt ?s = None"
    using that n by (auto simp: handleICMP_def Let_def sendIPv4_def dest!: held_send_None split: sum.splits if_splits option.splits)
  moreover have "\<exists>seg. ParseTCP (pPayload pkt) = Inr seg \<and> (connLock s = Some (tDstPort seg) \<or>
      (\<exists>c h. conns (tcp_handle pkt (s_tcp s)) (tDstPort seg) = Some c \<and> next_hop (RemoteIP c) s = Some h \<and> arp s h = None))"
    if "handleTCP pkt ?s = None"
    using that n by (auto simp: handleTCP_def Let_def dest!: held_segs_None split: sum.splits if_splits option.splits)
  ultimately show ?thesis using f(1) p by (intro exI [of _ f] exI [of _ pkt]) auto
qed

text \<open>C40: A single echo request from a host whose next hop is not in the ARP cache blocks the stack: the handler
  has to resolve the address, resolution waits for the receive lock, and that lock is held by the
  handler itself.\<close>

theorem echo_request_blocks:
  assumes "stack_ok s" "length src = 4" "src \<noteq> broadcastIP" "next_hop src s = Some h" "arp s h = None"
    "length mac = 6" "length data \<le> 1484"
    "IP4_Build \<lparr>pSrc = src, pDst = s_IP s, pProto = IP4ProtoICMP, pTTL = ttl,
       pPayload = ICMP_Build \<lparr>iType = ICMPEchoRequest, iCode = 0, iID = i, iSeq = sq, iData = data\<rparr>\<rparr> = Inr dg"
  shows "handleFrame (BuildEth (s_MAC s) mac EthTypeIPv4 dg) s = None"
proof -
  have l: "length (s_MAC s) = 6" "length (s_IP s) = 4" using assms(1) by (simp_all add: stack_ok_def)
  let ?p = "\<lparr>pSrc = src, pDst = s_IP s, pProto = 1, pTTL = ip_ttl ttl,
    pPayload = ICMP_Build \<lparr>iType = ICMPEchoRequest, iCode = 0, iID = i, iSeq = sq, iData = data\<rparr>\<rparr>"
  have "sendIPv4From pump_held x src 1 y ((counted s)\<lparr>RxICMP := z\<rparr>) = None" for x y z
    by (rule send_held) (use assms(3-5) in simp_all)
  then show ?thesis
    using handle_ip_frame [OF assms(8), of "s_MAC s" mac s] l assms(2,6,7) handle_echo_request [of ?p 0 i sq data "counted s"]
    by (simp add: sendIPv4_def)
qed

theorem echo_request_blocks_witness:
  "\<exists>dg. handleFrame (BuildEth [2,0,0,0,0,1] [2,0,0,0,0,9] EthTypeIPv4 dg) ex_a = None"
proof -
  obtain dg where "IP4_Build \<lparr>pSrc = [10,0,2,99], pDst = s_IP ex_a, pProto = 1, pTTL = 64,
      pPayload = ICMP_Build \<lparr>iType = 8, iCode = 0, iID = 7, iSeq = 1, iData = [1,2,3]\<rparr>\<rparr> = Inr dg"
    by (auto simp: IP4_Build_def length_ICMP_Build Let_def)
  from echo_request_blocks [OF ex_ab(1) _ _ _ _ _ _ this, of "[10,0,2,99]" "[2,0,0,0,0,9]"]
  show ?thesis by (auto simp: broadcastIP_def)
qed

theorem handle_blocks_only_witness:
  "\<exists>raw f pkt. handleFrame raw ex_a = None \<and> ParseEth raw = Inr f \<and> ParseIP4 (ePayload f) = Inr pkt \<and>
     (pProto pkt = IP4ProtoICMP \<or> pProto pkt = IP4ProtoTCP)"
proof -
  obtain dg where dg: "IP4_Build \<lparr>pSrc = [10,0,2,99], pDst = s_IP ex_a, pProto = 1, pTTL = 64,
      pPayload = ICMP_Build \<lparr>iType = 8, iCode = 0, iID = 7, iSeq = 1, iData = [1,2,3]\<rparr>\<rparr> = Inr dg"
    by (auto simp: IP4_Build_def length_ICMP_Build Let_def)
  let ?raw = "BuildEth [2,0,0,0,0,1] [2,0,0,0,0,9] EthTypeIPv4 dg"
  have s: "sendIPv4From pump_held x [10,0,2,99] 1 y ((counted ex_a)\<lparr>RxICMP := z\<rparr>) = None" for x y z
    by (rule send_held) (simp_all add: broadcastIP_def)
  have "handleFrame ?raw ex_a = None"
    using handle_ip_frame [OF dg, of "[2,0,0,0,0,1]" "[2,0,0,0,0,9]" ex_a] s
      handle_echo_request [of "\<lparr>pSrc = [10,0,2,99], pDst = s_IP ex_a, pProto = 1, pTTL = ip_ttl 64,
        pPayload = ICMP_Build \<lparr>iType = 8, iCode = 0, iID = 7, iSeq = 1, iData = [1,2,3]\<rparr>\<rparr>" 0 7 1 "[1,2,3]" "counted ex_a"]
    by (simp add: sendIPv4_def)
  from handle_blocks_only [OF this] show ?thesis using \<open>handleFrame ?raw ex_a = None\<close> by blast
qed

text \<open>Routing: a datagram for another subnet goes to the gateway's hardware address and one for the own subnet to
  the destination's own, in exactly one frame that the receiver reads back as the datagram; a broadcast
  goes to the broadcast address without any resolution; without a gateway an off-subnet destination
  is refused and nothing is sent; an oversized datagram is refused and nothing is sent.\<close>

theorem send_routes:
  assumes "stack_ok s" "length src = 4" "length dst = 4"
    "dst = broadcastIP \<longrightarrow> hop = BroadcastMAC"
    "dst \<noteq> broadcastIP \<longrightarrow> (\<exists>h. next_hop dst s = Some h \<and> arp s h = Some hop)" "length hop = 6"
  shows "case sendIPv4From pump src dst pr payload s of
      None \<Rightarrow> False
    | Some (Inl e, s') \<Rightarrow> e = ErrTooBig \<and> 1492 < length payload \<and> s' = s
    | Some (Inr u, s') \<Rightarrow> \<exists>f. s_tx s' = s_tx s @ [f] \<and> s' = s\<lparr>s_tx := s_tx s'\<rparr> \<and> length payload \<le> 1492 \<and>
        (\<exists>g. ParseEth f = Inr g \<and> eDst g = hop \<and> eSrc g = s_MAC s \<and>
          ParseIP4 (ePayload g) = Inr \<lparr>pSrc = src, pDst = dst, pProto = pr, pTTL = 64, pPayload = payload\<rparr>)"
proof -
  let ?p = "\<lparr>pSrc = src, pDst = dst, pProto = pr, pTTL = 0, pPayload = payload\<rparr>"
  have l: "length (s_MAC s) = 6" using assms(1) by (simp add: stack_ok_def)
  have h: "(if dst \<noteq> broadcastIP then nextHopMAC pump dst s else Some (Inr BroadcastMAC, s)) = Some (Inr hop, s)"
    using assms(4,5) hop_cached by auto
  show ?thesis
  proof (cases "length payload \<le> 1492")
    case True
    then obtain dg where dg: "IP4_Build ?p = Inr dg" by (auto simp: IP4_Build_def Let_def)
    have "ParseIP4 (dg @ pad) = Inr (?p\<lparr>pTTL := 64\<rparr>)" for pad
      using ParseIP4_Build [OF dg, of pad] assms(2,3) by (simp add: ip_ttl_def)
    then show ?thesis
      using True dg by (simp add: sendIPv4From_def h sink_Send_def ParseEth_BuildEth [OF assms(6) l])
  next
    case False
    then show ?thesis by (simp add: sendIPv4From_def h IP4_Build_def)
  qed
qed

theorem send_routes_witness:
  "case sendIPv4From pump [10,0,2,15] [8,8,8,8] 17 [1,2,3]
      ((arp_Update [10,0,2,1] [2,0,0,0,0,7] ex_a)\<lparr>Netmask := [255,255,255,0], Gateway := [10,0,2,1]\<rparr>) of
     Some (Inr u, s') \<Rightarrow> \<exists>f g. s_tx s' = [f] \<and> ParseEth f = Inr g \<and> eDst g = [2,0,0,0,0,7] | _ \<Rightarrow> False"
proof -
  let ?s = "(arp_Update [10,0,2,1] [2,0,0,0,0,7] ex_a)\<lparr>Netmask := [255,255,255,0], Gateway := [10,0,2,1]\<rparr>"
  have "stack_ok ?s" "next_hop [8,8,8,8] ?s = Some [10,0,2,1]" "arp ?s [10,0,2,1] = Some [2,0,0,0,0,7]" "s_tx ?s = []"
    by (simp_all add: arp_Update_def stack_ok_def next_hop_def onLink_def IsZero_def ex_a_def NewStack_def)
  then show ?thesis
    using send_routes [of ?s "[10,0,2,15]" "[8,8,8,8]" "[2,0,0,0,0,7]" "[1,2,3]" 17]
    by (fastforce simp: broadcastIP_def split: option.splits sum.splits prod.splits)
qed

fun pumps :: "nat \<Rightarrow> Stack \<Rightarrow> Stack option" where
  "pumps 0 s = Some s"
| "pumps (Suc n) s = (case pump s of None \<Rightarrow> None | Some (_, s') \<Rightarrow> pumps n s')"

lemma pump_kept:
  assumes "pump s = Some (b, s')"
  shows "addr_kept s (s'\<lparr>s_rx := s_rx s\<rparr>) \<and> s_rx s' = tl (s_rx s)"
proof (cases "s_rx s")
  case (Cons raw rest)
  then obtain u where "handleFrame raw (s\<lparr>s_rx := rest\<rparr>) = Some (u, s')"
    using assms by (auto simp: pump_def split: option.splits)
  then have "addr_kept (s\<lparr>s_rx := rest\<rparr>) s'" by (rule handleFrame_kept)
  then show ?thesis by (simp add: addr_kept_def Cons)
qed (use assms in \<open>auto simp: pump_def addr_kept_def\<close>)

text \<open>Whatever frames arrive, and in whatever number, the receive path keeps the stack's identity and routes,
  binds and unbinds no port, forgets no resolved address, consumes one frame per pump, and
  never buffers more than 64 echo replies.\<close>

theorem pump_inv:
  assumes "pumps n s = Some s'" "length (icmpIn s) \<le> 64"
  shows "s_MAC s' = s_MAC s \<and> s_IP s' = s_IP s \<and> Netmask s' = Netmask s \<and> Gateway s' = Gateway s \<and>
    length (icmpIn s') \<le> 64 \<and> udp_ports s' = udp_ports s \<and>
    (\<forall>ip. arp s ip \<noteq> None \<longrightarrow> arp s' ip \<noteq> None) \<and> s_rx s' = drop n (s_rx s)"
  using assms
proof (induction n arbitrary: s)
  case (Suc n)
  then obtain b s1 where s1: "pump s = Some (b, s1)" "pumps n s1 = Some s'" by (auto split: option.splits)
  have k: "addr_kept s (s1\<lparr>s_rx := s_rx s\<rparr>)" "s_rx s1 = tl (s_rx s)" using pump_kept [OF s1(1)] by simp_all
  then have "length (icmpIn s1) \<le> 64" using Suc.prems(2) by (simp add: addr_kept_def)
  from Suc.IH [OF s1(2) this] k show ?case by (simp add: addr_kept_def drop_Suc)
qed simp

theorem pump_inv_witness:
  "\<exists>s'. pumps 3 (ex_a\<lparr>s_rx := [[], [1, 2, 3], []]\<rparr>) = Some s' \<and> s_IP s' = [10,0,2,15] \<and> s_rx s' = []"
proof -
  have "handleFrame [] s = Some ((), s)" "handleFrame [1,2,3] s = Some ((), s)" for s
    by (simp_all add: handleFrame_def ParseEth_def)
  then obtain s' where "pumps 3 (ex_a\<lparr>s_rx := [[], [1, 2, 3], []]\<rparr>) = Some s'"
    by (simp add: eval_nat_numeral pump_def)
  from pump_inv [OF this] show ?thesis using \<open>pumps 3 _ = Some s'\<close> by simp
qed

end
