(* ===== verification/Net_Dhcp.thy ===== *)
theory Net_Dhcp
  imports Net_Stack_Props
begin

text \<open>
  The DHCP client (\<^verbatim>\<open>services/net/dhcp.go\<close>): the message layer, the exchange
  DISCOVER, OFFER, REQUEST, ACK over the stack, and the lease with its renewal times and backoff.
\<close>

section \<open>Messages\<close>

datatype derr = errShort | errMagic | errHType | errTruncated | errOptLen | errNoEnd
  | errNoReply | errNoOffer | errNoAck | errEntropy

abbreviation (input) dhcpMinLen :: nat where "dhcpMinLen \<equiv> 240"
abbreviation (input) dhcpMagic :: u32 where "dhcpMagic \<equiv> 0x63825363"
abbreviation (input) dhcpFlagBroadcast :: u16 where "dhcpFlagBroadcast \<equiv> 0x8000"
abbreviation (input) dhcpOptSubnetMask :: byte where "dhcpOptSubnetMask \<equiv> 1"
abbreviation (input) dhcpOptRouter :: byte where "dhcpOptRouter \<equiv> 3"
abbreviation (input) dhcpOptDNS :: byte where "dhcpOptDNS \<equiv> 6"
abbreviation (input) dhcpOptHostname :: byte where "dhcpOptHostname \<equiv> 12"
abbreviation (input) dhcpOptRequestedIP :: byte where "dhcpOptRequestedIP \<equiv> 50"
abbreviation (input) dhcpOptLeaseTime :: byte where "dhcpOptLeaseTime \<equiv> 51"
abbreviation (input) dhcpOptMessageType :: byte where "dhcpOptMessageType \<equiv> 53"
abbreviation (input) dhcpOptServerID :: byte where "dhcpOptServerID \<equiv> 54"
abbreviation (input) dhcpOptParamReqList :: byte where "dhcpOptParamReqList \<equiv> 55"
abbreviation (input) DHCPDiscover :: byte where "DHCPDiscover \<equiv> 1"
abbreviation (input) DHCPOffer :: byte where "DHCPOffer \<equiv> 2"
abbreviation (input) DHCPRequest :: byte where "DHCPRequest \<equiv> 3"
abbreviation (input) DHCPACK :: byte where "DHCPACK \<equiv> 5"
abbreviation (input) DHCPRelease :: byte where "DHCPRelease \<equiv> 7"

record DHCPMessage =
  Op :: byte
  Xid :: u32
  Flags :: u16
  CIAddr :: IP4
  YIAddr :: IP4
  SIAddr :: IP4
  GIAddr :: IP4
  CHAddr :: bytes
  MsgType :: byte
  SubnetMask :: IP4
  Router :: IP4
  DNS :: "IP4 list"
  LeaseTime :: u32
  ServerID :: IP4
  HasMask :: bool
  HasRouter :: bool
  HasLease :: bool
  HasServer :: bool

definition ip4From :: "bytes \<Rightarrow> IP4" where
  "ip4From b = [b ! 0, b ! 1, b ! 2, b ! 3]"

definition dhcpHeader :: "byte \<Rightarrow> u32 \<Rightarrow> bytes \<Rightarrow> u16 \<Rightarrow> bytes" where
  "dhcpHeader op xid mac flags =
     (let b = replicate dhcpMinLen 0;
          b = b[0 := op, 1 := 1, 2 := 6, 3 := 0];
          b = go_copy b 4 (be32 xid);
          b = go_copy b 8 (be16 flags);
          b = go_copy b 28 mac;
          b = go_copy b 236 (be32 dhcpMagic)
      in b)"

definition dhcpOpt :: "bytes \<Rightarrow> byte \<Rightarrow> bytes \<Rightarrow> bytes" where
  "dhcpOpt b code val =
     (if length val = 0 then b @ [code, 0] else b @ [code, of_nat (length val)] @ val)"

definition dhcpOptIP :: "bytes \<Rightarrow> byte \<Rightarrow> IP4 \<Rightarrow> bytes" where
  "dhcpOptIP b code ip = dhcpOpt b code ip"

definition dhcpOptU32 :: "bytes \<Rightarrow> byte \<Rightarrow> u32 \<Rightarrow> bytes" where
  "dhcpOptU32 b code v = dhcpOpt b code (be32 v)"

text \<open>The host name and parameter list options, the same statements in two builders.\<close>

definition dhcp_host_params :: "bytes \<Rightarrow> bytes \<Rightarrow> bytes \<Rightarrow> bytes" where
  "dhcp_host_params b hostname params =
     (let b = (if hostname \<noteq> []
               then dhcpOpt b dhcpOptHostname (if length hostname > 63 then take 63 hostname else hostname) else b);
          b = (if length params > 0
               then dhcpOpt b dhcpOptParamReqList (if length params > 255 then take 255 params else params) else b)
      in b @ [255])"

definition BuildDiscover :: "bytes \<Rightarrow> u32 \<Rightarrow> bytes \<Rightarrow> bytes \<Rightarrow> bytes" where
  "BuildDiscover mac xid hostname params =
     (let b = dhcpHeader 1 xid mac dhcpFlagBroadcast;
          b = dhcpOpt b dhcpOptMessageType [DHCPDiscover]
      in dhcp_host_params b hostname params)"

definition BuildRequest :: "bytes \<Rightarrow> u32 \<Rightarrow> IP4 \<Rightarrow> IP4 \<Rightarrow> bytes \<Rightarrow> bytes \<Rightarrow> bytes" where
  "BuildRequest mac xid offered serverID hostname params =
     (let b = dhcpHeader 1 xid mac dhcpFlagBroadcast;
          b = dhcpOpt b dhcpOptMessageType [DHCPRequest];
          b = dhcpOptIP b dhcpOptRequestedIP offered;
          b = (if \<not> IsZero serverID then dhcpOptIP b dhcpOptServerID serverID else b)
      in dhcp_host_params b hostname params)"

definition BuildRelease :: "bytes \<Rightarrow> u32 \<Rightarrow> IP4 \<Rightarrow> IP4 \<Rightarrow> bytes" where
  "BuildRelease mac xid addr serverID =
     (let b = dhcpHeader 1 xid mac 0;
          b = dhcpOpt b dhcpOptMessageType [DHCPRelease];
          b = dhcpOptIP b dhcpOptServerID serverID
      in b @ [255])"

fun dns_list :: "bytes \<Rightarrow> IP4 list" where
  "dns_list (a # b # c # d # rest) = [a, b, c, d] # dns_list rest"
| "dns_list _ = []"

text \<open>The body of the option switch.\<close>

definition dhcp_option :: "byte \<Rightarrow> bytes \<Rightarrow> DHCPMessage \<Rightarrow> derr + DHCPMessage" where
  "dhcp_option code val m =
     (if code = dhcpOptMessageType
      then (if length val \<noteq> 1 then Inl errOptLen else Inr (m\<lparr>MsgType := val ! 0\<rparr>))
      else if code = dhcpOptSubnetMask
      then (if length val \<noteq> 4 then Inl errOptLen else Inr (m\<lparr>SubnetMask := ip4From val, HasMask := True\<rparr>))
      else if code = dhcpOptRouter
      then (if length val \<ge> 4 then Inr (m\<lparr>Router := ip4From (take 4 val), HasRouter := True\<rparr>) else Inr m)
      else if code = dhcpOptDNS then Inr (m\<lparr>DNS := DNS m @ dns_list val\<rparr>)
      else if code = dhcpOptLeaseTime
      then (if length val = 4 then Inr (m\<lparr>LeaseTime := BeGet32 val, HasLease := True\<rparr>) else Inr m)
      else if code = dhcpOptServerID
      then (if length val = 4 then Inr (m\<lparr>ServerID := ip4From val, HasServer := True\<rparr>) else Inr m)
      else Inr m)"

text \<open>The option loop, over the bytes from the current offset on.\<close>

function dhcp_options :: "bytes \<Rightarrow> DHCPMessage \<Rightarrow> derr + DHCPMessage" where
  "dhcp_options b m =
     (case b of
        [] \<Rightarrow> Inl errNoEnd
      | code # rest \<Rightarrow>
          if code = 0 then dhcp_options rest m
          else if code = 255 then Inr m
          else case rest of
            [] \<Rightarrow> Inl errTruncated
          | l # body \<Rightarrow>
              if unat l > length body then Inl errTruncated
              else case dhcp_option code (take (unat l) body) m of
                Inl e \<Rightarrow> Inl e
              | Inr m' \<Rightarrow> dhcp_options (drop (unat l) body) m')"
  by pat_completeness auto
termination
  by (relation "measure (\<lambda>(b, m). length b)") auto

declare dhcp_options.simps [simp del]

definition ParseDHCP :: "bytes \<Rightarrow> derr + DHCPMessage" where
  "ParseDHCP b =
     (if length b < dhcpMinLen then Inl errShort
      else if BeGet32 (drop 236 b) \<noteq> dhcpMagic then Inl errMagic
      else
        let m = \<lparr>Op = b ! 0, Xid = BeGet32 (drop 4 b), Flags = BeGet16 (drop 8 b),
                 CIAddr = ip4From (drop 12 b), YIAddr = ip4From (drop 16 b),
                 SIAddr = ip4From (drop 20 b), GIAddr = ip4From (drop 24 b), CHAddr = window 28 6 b,
                 MsgType = 0, SubnetMask = zeroIP, Router = zeroIP, DNS = [], LeaseTime = 0,
                 ServerID = zeroIP, HasMask = False, HasRouter = False, HasLease = False, HasServer = False\<rparr>
        in if b ! 1 \<noteq> 1 \<or> b ! 2 \<noteq> 6 then Inl errHType else dhcp_options (drop dhcpMinLen b) m)"

record Offer =
  o_YIAddr :: IP4
  o_Netmask :: IP4
  o_Router :: IP4
  o_DNS :: "IP4 list"
  o_LeaseTime :: u32
  o_ServerID :: IP4

definition OfferFrom :: "DHCPMessage \<Rightarrow> Offer option" where
  "OfferFrom m =
     (if MsgType m \<noteq> DHCPOffer \<and> MsgType m \<noteq> DHCPACK then None
      else if IsZero (YIAddr m) then None
      else Some \<lparr>o_YIAddr = YIAddr m, o_Netmask = SubnetMask m, o_Router = Router m, o_DNS = DNS m,
                 o_LeaseTime = LeaseTime m, o_ServerID = ServerID m\<rparr>)"

section \<open>The exchange\<close>

abbreviation (input) dhcpClientPort :: u16 where "dhcpClientPort \<equiv> 68"
abbreviation (input) dhcpServerPort :: u16 where "dhcpServerPort \<equiv> 67"

definition DefaultDHCPOptions :: bytes where
  "DefaultDHCPOptions = [dhcpOptSubnetMask, dhcpOptRouter, dhcpOptDNS, dhcpOptLeaseTime]"

text \<open>\<^verbatim>\<open>NewXID(read)\<close>, over what the entropy source returned.\<close>

definition NewXID :: "(derr + bytes) \<Rightarrow> derr + u32" where
  "NewXID rd = (case rd of Inl e \<Rightarrow> Inl e | Inr b \<Rightarrow> Inr (BeGet32 b))"

definition sendDHCP :: "bytes \<Rightarrow> (nerr + unit) op" where
  "sendDHCP msg s =
     sendIPv4From pump zeroIP broadcastIP IP4ProtoUDP
       (UDP_Build \<lparr>uSrcPort = dhcpClientPort, uDstPort = dhcpServerPort, uData = msg,
                   checksumSrc = zeroIP, checksumDst = broadcastIP\<rparr>) s"

definition sendDHCPRelease :: "IP4 \<Rightarrow> (nerr + unit) op" where
  "sendDHCPRelease serverID s =
     (let xid = BeGet32 (s_IP s);
          msg = BuildRelease (s_MAC s) xid (s_IP s) serverID
      in sendIPv4From pump (s_IP s) serverID IP4ProtoUDP
           (UDP_Build \<lparr>uSrcPort = dhcpClientPort, uDstPort = dhcpServerPort, uData = msg,
                       checksumSrc = s_IP s, checksumDst = serverID\<rparr>) s)"

text \<open>The inner loop of \<^verbatim>\<open>awaitDHCP\<close>: datagrams are taken until one matches or the queue is empty.\<close>

fun dhcp_scan :: "u32 \<Rightarrow> bytes list \<Rightarrow> DHCPMessage option \<times> bytes list" where
  "dhcp_scan xid [] = (None, [])"
| "dhcp_scan xid (raw # q) =
     (case ParseDHCP raw of
        Inl e \<Rightarrow> dhcp_scan xid q
      | Inr m \<Rightarrow> if Xid m \<noteq> xid then dhcp_scan xid q else (Some m, q))"

fun awaitDHCP :: "nat \<Rightarrow> u32 \<Rightarrow> nat \<Rightarrow> (derr + DHCPMessage) op" where
  "awaitDHCP q xid 0 s = Some (Inl errNoReply, s)"
| "awaitDHCP q xid (Suc budget) s =
     (let (r, frames) = dhcp_scan xid (udp_qs s q);
          s = s\<lparr>udp_qs := (udp_qs s)(q := frames)\<rparr>
      in case r of
           Some m \<Rightarrow> Some (Inr m, s)
         | None \<Rightarrow> (case pump s of None \<Rightarrow> None | Some (_, s') \<Rightarrow> awaitDHCP q xid budget s'))"

text \<open>One send and wait; a failed send or wait is \<^verbatim>\<open>continue\<close>.\<close>

definition dhcp_try :: "nat \<Rightarrow> bytes \<Rightarrow> u32 \<Rightarrow> nat \<Rightarrow> DHCPMessage option op" where
  "dhcp_try q msg xid budget s =
     (case sendDHCP msg s of
        None \<Rightarrow> None
      | Some (Inl e, s) \<Rightarrow> Some (None, s)
      | Some (Inr u, s) \<Rightarrow>
          (case awaitDHCP q xid budget s of
             None \<Rightarrow> None
           | Some (Inl e, s) \<Rightarrow> Some (None, s)
           | Some (Inr m, s) \<Rightarrow> Some (Some m, s)))"

fun discover_loop :: "nat \<Rightarrow> bytes \<Rightarrow> u32 \<Rightarrow> nat \<Rightarrow> nat \<Rightarrow> Offer option op" where
  "discover_loop q msg xid budget 0 s = Some (None, s)"
| "discover_loop q msg xid budget (Suc tries) s =
     (case dhcp_try q msg xid budget s of
        None \<Rightarrow> None
      | Some (None, s) \<Rightarrow> discover_loop q msg xid budget tries s
      | Some (Some m, s) \<Rightarrow>
          if MsgType m \<noteq> DHCPOffer then discover_loop q msg xid budget tries s
          else case OfferFrom m of
            None \<Rightarrow> discover_loop q msg xid budget tries s
          | Some off \<Rightarrow> Some (Some off, s))"

fun request_loop :: "nat \<Rightarrow> bytes \<Rightarrow> IP4 \<Rightarrow> u32 \<Rightarrow> nat \<Rightarrow> nat \<Rightarrow> (derr + Offer) op" where
  "request_loop q msg server xid budget 0 s = Some (Inl errNoAck, s)"
| "request_loop q msg server xid budget (Suc tries) s =
     (case dhcp_try q msg xid budget s of
        None \<Rightarrow> None
      | Some (None, s) \<Rightarrow> request_loop q msg server xid budget tries s
      | Some (Some m, s) \<Rightarrow>
          (case (if MsgType m = DHCPACK then OfferFrom m else None) of
             None \<Rightarrow> request_loop q msg server xid budget tries s
           | Some a \<Rightarrow> Some (Inr (a\<lparr>o_ServerID := server\<rparr>), s)))"

definition DHCPAcquire :: "u32 \<Rightarrow> bytes \<Rightarrow> bytes \<Rightarrow> nat \<Rightarrow> nat \<Rightarrow> (derr + Offer) op" where
  "DHCPAcquire xid hostname params tries budget s =
     (let ((q, _), s) = udp_Bind dhcpClientPort s
      in case discover_loop q (BuildDiscover (s_MAC s) xid hostname params) xid budget tries s of
           None \<Rightarrow> None
         | Some (None, s) \<Rightarrow> Some (Inl errNoOffer, udp_Unbind dhcpClientPort s)
         | Some (Some off, s) \<Rightarrow>
             (case request_loop q (BuildRequest (s_MAC s) xid (o_YIAddr off) (o_ServerID off) hostname params)
                     (o_ServerID off) xid budget tries s of
                None \<Rightarrow> None
              | Some (r, s) \<Rightarrow> Some (r, udp_Unbind dhcpClientPort s)))"

section \<open>Leases\<close>

text \<open>The injected clock is either absent or read as an argument of the operations.\<close>

record Lease =
  l_Offer :: Offer
  GrantedMs :: u64
  hasClock :: bool
  renewFailures :: u64
  renewNextMs :: u64
  renewBackoffMs :: u64

definition NewLease :: "Offer \<Rightarrow> bool \<Rightarrow> Lease" where
  "NewLease off clock = \<lparr>l_Offer = off,
     GrantedMs = (if o_LeaseTime off > 0 then ucast (o_LeaseTime off) * 1000 else 0),
     hasClock = clock, renewFailures = 0, renewNextMs = 0, renewBackoffMs = 0\<rparr>"

definition T1Ms :: "Lease \<Rightarrow> u64" where
  "T1Ms l = GrantedMs l div 2"

definition T2Ms :: "Lease \<Rightarrow> u64" where
  "T2Ms l = GrantedMs l * 7 div 8"

definition BackoffMs :: "u64 \<Rightarrow> Lease \<Rightarrow> u64" where
  "BackoffMs now l =
     (if renewNextMs l = 0 then 0
      else if \<not> hasClock l then 0
      else if now < renewNextMs l then renewNextMs l - now
      else 0)"

definition RecordRenewResult :: "bool \<Rightarrow> u64 \<Rightarrow> Lease \<Rightarrow> Lease" where
  "RecordRenewResult ok now l =
     (if ok then l\<lparr>renewFailures := 0, renewBackoffMs := 0, renewNextMs := 0\<rparr>
      else
        let l = l\<lparr>renewFailures := renewFailures l + 1\<rparr>;
            l = (if renewBackoffMs l = 0 then l\<lparr>renewBackoffMs := 1000\<rparr>
                 else
                   let l = l\<lparr>renewBackoffMs := renewBackoffMs l * 2\<rparr>
                   in if renewBackoffMs l > 60000 then l\<lparr>renewBackoffMs := 60000\<rparr> else l)
        in if hasClock l then l\<lparr>renewNextMs := now + renewBackoffMs l\<rparr> else l)"

definition Due :: "u64 \<Rightarrow> Lease \<Rightarrow> bool \<times> bool" where
  "Due now l =
     (if GrantedMs l = 0 \<or> \<not> hasClock l then (False, False)
      else if BackoffMs now l > 0 then (False, False)
      else if now \<ge> T2Ms l then (False, True)
      else (now \<ge> T1Ms l, False))"

definition Expired :: "u64 \<Rightarrow> Lease \<Rightarrow> bool" where
  "Expired now l = (if GrantedMs l = 0 \<or> \<not> hasClock l then False else now \<ge> T2Ms l)"

text \<open>The renewal step that \<^verbatim>\<open>NewRenewer\<close> returns.\<close>

definition renew :: "(derr + bytes) \<Rightarrow> (derr + Offer) op" where
  "renew entropy s =
     (case NewXID entropy of
        Inl e \<Rightarrow> Some (Inl e, s)
      | Inr xid \<Rightarrow>
          (case DHCPAcquire xid (str ''net'') DefaultDHCPOptions 3 20000 s of
             None \<Rightarrow> None
           | Some (Inl e, s) \<Rightarrow> Some (Inl e, s)
           | Some (Inr off, s) \<Rightarrow>
               Some (Inr off, s\<lparr>s_IP := o_YIAddr off, Netmask := o_Netmask off, Gateway := o_Router off\<rparr>)))"

end
