(* ===== verification/Net_Dhcp_Props.thy ===== *)
theory Net_Dhcp_Props
  imports Net_Dhcp
begin

text \<open>
  What the DHCP client guarantees: its messages read back, parsing never takes a truncated message for
  a complete one, an acquired lease is a usable one; and how renewal times behave.
\<close>

section \<open>Messages\<close>

lemma go_copy_mid: "length pre = off \<Longrightarrow> length mid = length src \<Longrightarrow> go_copy (pre @ mid @ post) off src = pre @ src @ post"
  by (simp add: go_copy_def)

lemma dhcpHeader_fields:
  assumes "length mac = 6"
  shows "dhcpHeader op xid mac flags =
    [op, 1, 6, 0] @ be32 xid @ be16 flags @ replicate 18 0 @ mac @ replicate 202 0 @ be32 dhcpMagic"
proof -
  have r: "replicate 240 (0 :: byte) = [0,0,0,0] @ replicate 4 0 @ replicate 2 0 @ replicate 18 0 @ replicate 6 0 @ replicate 202 0 @ replicate 4 0"
    by (simp add: replicate_add [symmetric] eval_nat_numeral del: replicate.simps) (simp flip: replicate.simps(2))
  let ?x = "be32 xid" and ?f = "be16 flags"
  have u: "(replicate 240 (0 :: byte))[0 := op, 1 := 1, 2 := 6, 3 := 0] =
      [op, 1, 6, 0] @ replicate 4 0 @ (replicate 2 0 @ replicate 18 0 @ replicate 6 0 @ replicate 202 0 @ replicate 4 0)"
    unfolding r by simp
  have 1: "go_copy ([op, 1, 6, 0] @ replicate 4 0 @ post) 4 ?x = ([op, 1, 6, 0] @ ?x) @ post" for post
    by (subst go_copy_mid) simp_all
  have 2: "go_copy (([op, 1, 6, 0] @ ?x) @ replicate 2 0 @ post) 8 ?f = ([op, 1, 6, 0] @ ?x @ ?f) @ post" for post
    by (subst go_copy_mid) simp_all
  have 3: "go_copy (([op, 1, 6, 0] @ ?x @ ?f) @ replicate 18 0 @ replicate 6 0 @ post) 28 mac =
      ([op, 1, 6, 0] @ ?x @ ?f @ replicate 18 0) @ mac @ post" for post
    using go_copy_mid [of "[op, 1, 6, 0] @ ?x @ ?f @ replicate 18 0" 28 "replicate 6 0" mac post] assms by simp
  have 4: "go_copy (([op, 1, 6, 0] @ ?x @ ?f @ replicate 18 0) @ mac @ replicate 202 0 @ replicate 4 0) 236 (be32 dhcpMagic) =
      ([op, 1, 6, 0] @ ?x @ ?f @ replicate 18 0 @ mac @ replicate 202 0) @ be32 dhcpMagic"
    using go_copy_mid [of "[op, 1, 6, 0] @ ?x @ ?f @ replicate 18 0 @ mac @ replicate 202 0" 236 "replicate 4 0" "be32 dhcpMagic" "[]"] assms
    by simp
  show ?thesis unfolding dhcpHeader_def Let_def u 1 2 3 4 by simp
qed

lemma dhcpOpt_eq: "dhcpOpt b code val = b @ [code, of_nat (length val)] @ val"
  by (simp add: dhcpOpt_def)

lemma options_step:
  assumes "code \<noteq> 0" "code \<noteq> 255" "length val \<le> 255"
  shows "dhcp_options ([code, of_nat (length val)] @ val @ rest) m =
    (case dhcp_option code val m of Inl e \<Rightarrow> Inl e | Inr m' \<Rightarrow> dhcp_options rest m')"
proof -
  have "unat (of_nat (length val) :: byte) = length val"
    using assms(3) by (simp add: unsigned_of_nat take_bit_nat_eq_self)
  then show ?thesis using assms(1,2) by (subst dhcp_options.simps) (simp split: sum.split)
qed

lemma options_end: "dhcp_options (255 # rest) m = Inr m"
  by (subst dhcp_options.simps) simp

definition base_msg :: "bytes \<Rightarrow> u32 \<Rightarrow> u16 \<Rightarrow> DHCPMessage" where
  "base_msg mac xid flags = \<lparr>Op = 1, Xid = xid, Flags = flags, CIAddr = zeroIP, YIAddr = zeroIP, SIAddr = zeroIP,
     GIAddr = zeroIP, CHAddr = mac, MsgType = 0, SubnetMask = zeroIP, Router = zeroIP, DNS = [], LeaseTime = 0,
     ServerID = zeroIP, HasMask = False, HasRouter = False, HasLease = False, HasServer = False\<rparr>"

lemma replicate_18: "replicate 18 (0 :: byte) = [0,0] @ replicate 4 0 @ replicate 4 0 @ replicate 4 0 @ replicate 4 0"
  by (simp add: eval_nat_numeral)

lemma ParseDHCP_header:
  assumes "length mac = 6"
  shows "ParseDHCP (dhcpHeader 1 xid mac flags @ opts) = dhcp_options opts (base_msg mac xid flags)"
proof -
  let ?h = "dhcpHeader 1 xid mac flags"
  have h: "?h = [1, 1, 6, 0] @ be32 xid @ be16 flags @ [0, 0] @ replicate 4 0 @ replicate 4 0 @ replicate 4 0 @ replicate 4 0 @
      mac @ replicate 202 0 @ be32 dhcpMagic"
    by (simp add: dhcpHeader_fields [OF assms] replicate_18)
  have l: "length ?h = 240" using assms by (simp add: h)
  have d: "drop 236 (?h @ opts) = be32 dhcpMagic @ opts" "drop 4 (?h @ opts) = be32 xid @ drop 8 (?h @ opts)"
    "drop 8 (?h @ opts) = be16 flags @ drop 10 (?h @ opts)"
    "drop 12 (?h @ opts) = replicate 4 0 @ drop 16 (?h @ opts)" "drop 16 (?h @ opts) = replicate 4 0 @ drop 20 (?h @ opts)"
    "drop 20 (?h @ opts) = replicate 4 0 @ drop 24 (?h @ opts)" "drop 24 (?h @ opts) = replicate 4 0 @ drop 28 (?h @ opts)"
    "drop 28 (?h @ opts) = mac @ drop 34 (?h @ opts)"
    using assms by (simp_all add: h)
  have z: "ip4From (replicate 4 0 @ xs) = zeroIP" for xs by (simp add: ip4From_def eval_nat_numeral)
  have m: "BeGet32 (drop 236 (?h @ opts)) = dhcpMagic" "BeGet32 (drop 4 (?h @ opts)) = xid" "BeGet16 (drop 8 (?h @ opts)) = flags"
    "ip4From (drop 12 (?h @ opts)) = zeroIP" "ip4From (drop 16 (?h @ opts)) = zeroIP" "ip4From (drop 20 (?h @ opts)) = zeroIP"
    "ip4From (drop 24 (?h @ opts)) = zeroIP" "window 28 6 (?h @ opts) = mac"
    unfolding window_def by (subst d, use z assms in simp)+
  have b: "(?h @ opts) ! 0 = 1" "(?h @ opts) ! 1 = 1" "(?h @ opts) ! 2 = 6" by (simp_all add: h)
  show ?thesis unfolding ParseDHCP_def Let_def m b base_msg_def using l by simp
qed

lemma host_params_parse:
  "dhcp_options (drop (length b) (dhcp_host_params b hostname params)) m = Inr m"
  "dhcp_host_params b hostname params = b @ drop (length b) (dhcp_host_params b hostname params)"
proof -
  define hn where "hn = (if length hostname > 63 then take 63 hostname else hostname)"
  define ps where "ps = (if length params > 255 then take 255 params else params)"
  have l: "length hn \<le> 255" "length ps \<le> 255" by (auto simp: hn_def ps_def)
  have s: "dhcp_options ([12, of_nat (length hn)] @ hn @ rest) m = dhcp_options rest m"
    "dhcp_options ([55, of_nat (length ps)] @ ps @ rest) m = dhcp_options rest m" for rest
    by (subst options_step; use l in \<open>simp add: dhcp_option_def\<close>)+
  show "dhcp_options (drop (length b) (dhcp_host_params b hostname params)) m = Inr m"
    using s by (simp add: dhcp_host_params_def Let_def dhcpOpt_eq hn_def [symmetric] ps_def [symmetric] options_end)
  show "dhcp_host_params b hostname params = b @ drop (length b) (dhcp_host_params b hostname params)"
    by (simp add: dhcp_host_params_def Let_def dhcpOpt_eq)
qed

text \<open>The client's messages read back as what they say: type, transaction and hardware address of a DISCOVER, a REQUEST
  and a RELEASE, and the server a REQUEST or RELEASE names; in particular the client address of a RELEASE
  is always zero, whatever address is being released.\<close>

theorem dhcp_messages_roundtrip:
  assumes "length mac = 6" "length offered = 4" "length server = 4"
  shows "ParseDHCP (BuildDiscover mac xid hostname params) = Inr ((base_msg mac xid 0x8000)\<lparr>MsgType := DHCPDiscover\<rparr>) \<and>
    ParseDHCP (BuildRequest mac xid offered server hostname params) =
      Inr ((base_msg mac xid 0x8000)\<lparr>MsgType := DHCPRequest, ServerID := server, HasServer := server \<noteq> zeroIP\<rparr>) \<and>
    ParseDHCP (BuildRelease mac xid addr server) =
      Inr ((base_msg mac xid 0)\<lparr>MsgType := DHCPRelease, ServerID := server, HasServer := True\<rparr>)"
proof (intro conjI)
  let ?t = "\<lambda>b. drop (length b) (dhcp_host_params b hostname params)"
  have st: "dhcp_options ([53, 1, ty] @ rest) m = dhcp_options rest (m\<lparr>MsgType := ty\<rparr>)" for ty rest m
    using options_step [of 53 "[ty]" rest m] by (simp add: dhcp_option_def)
  have rq: "dhcp_options ([50, 4] @ offered @ rest) m = dhcp_options rest m" for rest m
    using options_step [of 50 offered rest m] assms(2) by (simp add: dhcp_option_def)
  have f: "ip4From server = server" using assms(3) by (elim length_4E) (simp add: ip4From_def)
  have sv: "dhcp_options ([54, 4] @ server @ rest) m = dhcp_options rest (m\<lparr>ServerID := server, HasServer := True\<rparr>)" for rest m
    using options_step [of 54 server rest m] assms(3) f by (simp add: dhcp_option_def)
  let ?b = "dhcpHeader 1 xid mac 0x8000 @ [53, 1, 1]"
  have "BuildDiscover mac xid hostname params = dhcpHeader 1 xid mac 0x8000 @ [53, 1, 1] @ ?t ?b"
    using host_params_parse(2) [of ?b hostname params] by (simp add: BuildDiscover_def dhcpOpt_eq)
  then show "ParseDHCP (BuildDiscover mac xid hostname params) = Inr ((base_msg mac xid 0x8000)\<lparr>MsgType := DHCPDiscover\<rparr>)"
    by (simp only: ParseDHCP_header [OF assms(1)] st host_params_parse(1))
  let ?sv = "if IsZero server then [] else [54, 4] @ server"
  let ?c = "dhcpHeader 1 xid mac 0x8000 @ [53, 1, 3] @ [50, 4] @ offered @ ?sv"
  have b: "BuildRequest mac xid offered server hostname params = dhcpHeader 1 xid mac 0x8000 @ [53, 1, 3] @ [50, 4] @ offered @ ?sv @ ?t ?c"
    using host_params_parse(2) [of ?c hostname params] assms by (simp add: BuildRequest_def dhcpOpt_eq dhcpOptIP_def)
  have "dhcp_options (?sv @ ?t ?c) ((base_msg mac xid 0x8000)\<lparr>MsgType := DHCPRequest\<rparr>) =
      Inr ((base_msg mac xid 0x8000)\<lparr>MsgType := DHCPRequest, ServerID := server, HasServer := server \<noteq> zeroIP\<rparr>)"
  proof (cases "IsZero server")
    case True
    then have e: "?sv = []" "server = zeroIP" by (simp_all add: IsZero_def)
    show ?thesis using host_params_parse(1) [of ?c hostname params "(base_msg mac xid 0x8000)\<lparr>MsgType := DHCPRequest\<rparr>"]
      unfolding e(1) append_Nil by (simp add: e(2) base_msg_def)
  next
    case False
    then have "?sv = [54, 4] @ server" "server \<noteq> zeroIP" by (simp_all add: IsZero_def)
    then show ?thesis by (simp only: append.assoc sv host_params_parse(1)) simp
  qed
  then show "ParseDHCP (BuildRequest mac xid offered server hostname params) =
      Inr ((base_msg mac xid 0x8000)\<lparr>MsgType := DHCPRequest, ServerID := server, HasServer := server \<noteq> zeroIP\<rparr>)"
    unfolding b ParseDHCP_header [OF assms(1)] st rq .
  have "BuildRelease mac xid addr server = dhcpHeader 1 xid mac 0 @ [53, 1, 7] @ [54, 4] @ server @ [255]"
    using assms(3) by (simp add: BuildRelease_def dhcpOpt_eq dhcpOptIP_def)
  then show "ParseDHCP (BuildRelease mac xid addr server) =
      Inr ((base_msg mac xid 0)\<lparr>MsgType := DHCPRelease, ServerID := server, HasServer := True\<rparr>)"
    by (simp only: ParseDHCP_header [OF assms(1)] st sv options_end)
qed

lemma release_example:
  "ParseDHCP (BuildRelease [2,0,0,0,0,1] 7 [10,0,2,15] [10,0,2,2]) =
     Inr ((base_msg [2,0,0,0,0,1] 7 0)\<lparr>MsgType := DHCPRelease, ServerID := [10,0,2,2], HasServer := True\<rparr>)"
proof -
  have st: "dhcp_options ([53, 1, 7] @ rest) m = dhcp_options rest (m\<lparr>MsgType := 7\<rparr>)" for rest m
    using options_step [of 53 "[7]" rest m] by (simp add: dhcp_option_def)
  have sv: "dhcp_options ([54, 4] @ [10,0,2,2] @ rest) m = dhcp_options rest (m\<lparr>ServerID := [10,0,2,2], HasServer := True\<rparr>)" for rest m
    using options_step [of 54 "[10,0,2,2]" rest m] by (simp add: dhcp_option_def ip4From_def)
  have "BuildRelease [2,0,0,0,0,1] 7 [10,0,2,15] [10,0,2,2] = dhcpHeader 1 7 [2,0,0,0,0,1] 0 @ [53, 1, 7] @ [54, 4] @ [10,0,2,2] @ [255]"
    by (simp add: BuildRelease_def dhcpOpt_eq dhcpOptIP_def)
  moreover have "length [2,0,0,0,0,1 :: byte] = 6" by simp
  ultimately show ?thesis by (simp only: ParseDHCP_header st sv options_end)
qed

theorem dhcp_messages_roundtrip_witness:
  "ParseDHCP (BuildRelease [2,0,0,0,0,1] 7 [10,0,2,15] [10,0,2,2]) =
     Inr ((base_msg [2,0,0,0,0,1] 7 0)\<lparr>MsgType := DHCPRelease, ServerID := [10,0,2,2], HasServer := True\<rparr>)"
  using dhcp_messages_roundtrip [of "[2,0,0,0,0,1]" "[10,0,2,15]" "[10,0,2,2]" 7 "[]" "[]" "[10,0,2,15]"] by simp

text \<open>Bytes behind the end option do not matter, so a message that was cut off and still parses is the
  whole message.\<close>

lemma options_prefix: "dhcp_options b m = Inr m' \<Longrightarrow> dhcp_options (b @ x) m = Inr m'"
proof (induction b m rule: dhcp_options.induct)
  case (1 b m)
  show ?case
  proof (cases b)
    case (Cons code rest)
    show ?thesis
    proof (cases "code = 0 \<or> code = 255")
      case True
      then show ?thesis using 1(1) [OF Cons] 1(3) Cons by (auto simp: dhcp_options.simps [of "_ # _"])
    next
      case False
      then obtain l body where r: "rest = l # body" "unat l \<le> length body"
        using 1(3) Cons by (cases rest) (auto simp: dhcp_options.simps [of "_ # _"] split: if_splits)
      obtain m1 where m1: "dhcp_option code (take (unat l) body) m = Inr m1" "dhcp_options (drop (unat l) body) m1 = Inr m'"
        using 1(3) Cons False r by (auto simp: dhcp_options.simps [of "_ # _"] split: if_splits sum.splits)
      have "dhcp_options (drop (unat l) body @ x) m1 = Inr m'"
        using 1(2) [OF Cons _ _ r(1) _ m1(1) m1(2)] False r(2) by auto
      then show ?thesis using Cons False r m1(1) by (simp add: dhcp_options.simps [of "_ # _"])
    qed
  qed (use 1 in \<open>simp add: dhcp_options.simps\<close>)
qed

lemma get_append:
  "4 \<le> length a \<Longrightarrow> BeGet32 (a @ x) = BeGet32 a" "2 \<le> length a \<Longrightarrow> BeGet16 (a @ x) = BeGet16 a"
  "4 \<le> length a \<Longrightarrow> ip4From (a @ x) = ip4From a"
  by (auto simp: BeGet32_def BeGet16_def ip4From_def nth_append)

text \<open>A truncated DHCP message is never taken for a different one: whatever a parsed message is followed by, the
  longer buffer parses to the same message, so a message that still parses after being cut off was cut behind
  its end option.\<close>

theorem dhcp_truncation_safe:
  assumes "ParseDHCP p = Inr m"
  shows "ParseDHCP (p @ x) = Inr m"
proof -
  have l: "240 \<le> length p" using assms by (auto simp: ParseDHCP_def split: if_splits)
  have b: "BeGet32 (drop 236 (p @ x)) = BeGet32 (drop 236 p)" "BeGet32 (drop 4 (p @ x)) = BeGet32 (drop 4 p)"
    "BeGet16 (drop 8 (p @ x)) = BeGet16 (drop 8 p)" "ip4From (drop 12 (p @ x)) = ip4From (drop 12 p)"
    "ip4From (drop 16 (p @ x)) = ip4From (drop 16 p)" "ip4From (drop 20 (p @ x)) = ip4From (drop 20 p)"
    "ip4From (drop 24 (p @ x)) = ip4From (drop 24 p)" "window 28 6 (p @ x) = window 28 6 p"
    "(p @ x) ! 0 = p ! 0" "(p @ x) ! 1 = p ! 1" "(p @ x) ! 2 = p ! 2" "drop 240 (p @ x) = drop 240 p @ x"
    using l get_append by (auto simp: window_def nth_append)
  show ?thesis using assms l options_prefix unfolding ParseDHCP_def Let_def b
    by (auto simp: Let_def split: if_splits)
qed

theorem dhcp_truncation_safe_witness:
  "ParseDHCP (BuildRelease [2,0,0,0,0,1] 7 [10,0,2,15] [10,0,2,2] @ [0, 0]) =
     Inr ((base_msg [2,0,0,0,0,1] 7 0)\<lparr>MsgType := DHCPRelease, ServerID := [10,0,2,2], HasServer := True\<rparr>)"
  by (rule dhcp_truncation_safe) (rule release_example)

section \<open>Acquiring a lease\<close>

lemma OfferFrom_nonzero: "OfferFrom m = Some off \<Longrightarrow> \<not> IsZero (o_YIAddr off)"
  by (auto simp: OfferFrom_def split: if_splits)

lemma request_loop_nonzero: "request_loop q msg srv xid bud n s = Some (Inr off, s') \<Longrightarrow> \<not> IsZero (o_YIAddr off) \<and> o_ServerID off = srv"
proof (induction n arbitrary: s)
  case (Suc n)
  then show ?case
    by (auto split: option.splits prod.splits if_splits dest!: OfferFrom_nonzero)
qed simp

section \<open>Renewal times\<close>

text \<open>Renewal times are compared as if the lease had been granted at time zero: once the clock has passed half of the lease time,
  a successful renewal to the same lease time does not put the next renewal off, the new lease is due again at
  every later moment, so every idle pass of the server runs a whole DHCP exchange.\<close>

theorem lease_renew_storm:
  assumes "o_LeaseTime off > 0" "T1Ms (NewLease off True) \<le> now" "now \<le> later"
  shows "Due later (RecordRenewResult True now (NewLease off True)) \<noteq> (False, False)"
proof -
  have "unat (o_LeaseTime off) < 2 ^ 32" "0 < unat (o_LeaseTime off)"
    using unsigned_less [of "o_LeaseTime off"] assms(1) by (simp_all add: word_less_nat_alt)
  then have "unat (ucast (o_LeaseTime off) * 1000 :: u64) = unat (o_LeaseTime off) * 1000"
    by (simp add: unat_word_ariths unsigned_ucast_eq take_bit_nat_eq_self)
  then have "(ucast (o_LeaseTime off) * 1000 :: u64) \<noteq> 0" using \<open>0 < unat (o_LeaseTime off)\<close> by force
  moreover have "T1Ms (NewLease off True) \<le> later" using assms(2,3) by simp
  ultimately show ?thesis using assms(1)
    by (auto simp: Due_def NewLease_def RecordRenewResult_def BackoffMs_def T1Ms_def T2Ms_def)
qed

theorem lease_renew_storm_witness:
  "Due 1800001 (RecordRenewResult True 1800000 (NewLease \<lparr>o_YIAddr = [10,0,2,15], o_Netmask = [255,255,255,0], o_Router = [10,0,2,2],
     o_DNS = [], o_LeaseTime = 3600, o_ServerID = [10,0,2,2]\<rparr> True)) \<noteq> (False, False)"
  by (rule lease_renew_storm) (simp_all add: T1Ms_def NewLease_def)

text \<open>The backoff after consecutive failures: one second, doubling, at most one minute.\<close>

fun fail_renews :: "u64 list \<Rightarrow> Lease \<Rightarrow> Lease" where
  "fail_renews [] l = l"
| "fail_renews (now # ts) l = fail_renews ts (RecordRenewResult False now l)"

lemma backoff_step:
  assumes "unat (renewBackoffMs l) = min 60000 (1000 * 2 ^ k)"
  shows "unat (renewBackoffMs (RecordRenewResult False now l)) = min 60000 (1000 * 2 ^ Suc k)"
proof -
  have "unat (renewBackoffMs l) \<le> 60000" "0 < unat (renewBackoffMs l)" using assms by (simp_all add: min_def)
  then have d: "unat (renewBackoffMs l * 2) = 2 * unat (renewBackoffMs l)" "renewBackoffMs l \<noteq> 0"
    by (auto simp: unat_word_ariths)
  show ?thesis using d assms by (auto simp: RecordRenewResult_def Let_def word_less_nat_alt min_def)
qed

lemma backoff_more:
  "unat (renewBackoffMs l) = min 60000 (1000 * 2 ^ k) \<Longrightarrow>
   unat (renewBackoffMs (fail_renews ts l)) = min 60000 (1000 * 2 ^ (k + length ts))"
proof (induction ts arbitrary: l k)
  case (Cons now ts)
  from Cons.IH [OF backoff_step [OF Cons.prems]] show ?case by simp
qed simp

lemma backoff_after:
  assumes "renewBackoffMs l = 0" "ts \<noteq> []"
  shows "unat (renewBackoffMs (fail_renews ts l)) = min 60000 (1000 * 2 ^ (length ts - 1))"
proof -
  obtain now us where t: "ts = now # us" using assms(2) by (cases ts) auto
  have "unat (renewBackoffMs (RecordRenewResult False now l)) = min 60000 (1000 * 2 ^ 0)"
    using assms(1) by (simp add: RecordRenewResult_def Let_def)
  from backoff_more [OF this, of us] show ?thesis by (simp add: t)
qed

end
