(* ===== verification/Net_Port.thy ===== *)
theory Net_Port
  imports Net_Dhcp_Props Port_Frame "HOL-Library.AList"
begin

text \<open>
  The socket server behind the well-known port "net" (\<^verbatim>\<open>services/net/netport.go\<close>): one request
  datagram in, one reply out.  The kernel's clock is an argument, read before and after a ping;
  so is what the entropy source returns when a lease is renewed.  A connection is named by its local port, the
  receive queue of a UDP socket by its reference (read only for sockets of that kind).  The socket table is a list of pairs, because
  the status request enumerates it; the order of that list stands for the unspecified order of a Go map.
\<close>

section \<open>The server\<close>

abbreviation (input) NetOpOpen :: u16 where "NetOpOpen \<equiv> 1"
abbreviation (input) NetOpConn :: u16 where "NetOpConn \<equiv> 2"
abbreviation (input) NetOpSend :: u16 where "NetOpSend \<equiv> 3"
abbreviation (input) NetOpRecv :: u16 where "NetOpRecv \<equiv> 4"
abbreviation (input) NetOpClose :: u16 where "NetOpClose \<equiv> 5"
abbreviation (input) NetOpPing :: u16 where "NetOpPing \<equiv> 6"
abbreviation (input) NetOpStatus :: u16 where "NetOpStatus \<equiv> 7"
abbreviation (input) NetOpRenew :: u16 where "NetOpRenew \<equiv> 8"
abbreviation (input) NetKindTCP :: u16 where "NetKindTCP \<equiv> 0"
abbreviation (input) NetKindUDP :: u16 where "NetKindUDP \<equiv> 1"
abbreviation (input) netStatusOK :: u32 where "netStatusOK \<equiv> 0"
abbreviation (input) errNoSuchSock :: u32 where "errNoSuchSock \<equiv> - 1"
abbreviation (input) errBadOp :: u32 where "errBadOp \<equiv> - 2"
abbreviation (input) errState :: u32 where "errState \<equiv> - 3"

record netSocket =
  sk_kind :: u16
  sk_tcp :: "u16 option"
  sk_listen :: "u16 option"
  udpQ :: nat
  udpPort :: u16
  peerIP :: IP4
  peerPort :: u16

record NetServer =
  n_stack :: Stack
  sockets :: "(u16 \<times> netSocket) list"
  nextID :: u16
  n_renew :: bool
  n_lease :: "Lease option"

definition sock :: "u16 \<Rightarrow> NetServer \<Rightarrow> netSocket option" where
  "sock i ns = map_of (sockets ns) i"

definition put_sock :: "u16 \<Rightarrow> netSocket \<Rightarrow> NetServer \<Rightarrow> NetServer" where
  "put_sock i sk ns = ns\<lparr>sockets := AList.update i sk (sockets ns)\<rparr>"

text \<open>Each case of \<^verbatim>\<open>dispatch\<close> yields a status, a body and the server; None when it blocks.\<close>

type_synonym case_result = "((u32 \<times> bytes) \<times> NetServer) option"

definition openBody :: "u16 \<Rightarrow> bytes" where
  "openBody i = le16 i"

definition new_sock :: "netSocket \<Rightarrow> NetServer \<Rightarrow> case_result" where
  "new_sock sk ns =
     (let ns = ns\<lparr>nextID := nextID ns + 1\<rparr>; i = nextID ns
      in Some ((netStatusOK, openBody i), put_sock i sk ns))"

definition do_open :: "bytes \<Rightarrow> NetServer \<Rightarrow> case_result" where
  "do_open payload ns =
     (if length payload < 4 then Some ((errBadOp, []), ns)
      else
        let kind = Get16 payload; port = Get16 (drop 2 payload);
            sk = \<lparr>sk_kind = kind, sk_tcp = None, sk_listen = None, udpQ = 0, udpPort = 0, peerIP = zeroIP, peerPort = 0\<rparr>
        in if kind = NetKindTCP
           then
             (if port \<noteq> 0
              then (case Listen port (s_tcp (n_stack ns)) of
                      (Inl e, t) \<Rightarrow> Some ((errState, []), ns)
                    | (Inr l, t) \<Rightarrow>
                        new_sock (sk\<lparr>sk_listen := Some l\<rparr>) (ns\<lparr>n_stack := (n_stack ns)\<lparr>s_tcp := t\<rparr>\<rparr>))
              else new_sock sk ns)
           else if kind = NetKindUDP
           then
             (let ((q, p), s) = udp_Bind port (n_stack ns)
              in new_sock (sk\<lparr>udpQ := q, udpPort := p\<rparr>) (ns\<lparr>n_stack := s\<rparr>))
           else Some ((errBadOp, []), ns))"

definition do_conn :: "bytes \<Rightarrow> NetServer \<Rightarrow> case_result" where
  "do_conn payload ns =
     (if length payload < 8 then Some ((errBadOp, []), ns)
      else case sock (Get16 payload) ns of
        None \<Rightarrow> Some ((errNoSuchSock, []), ns)
      | Some sk \<Rightarrow>
          let dip = window 2 4 payload; dport = Get16 (drop 6 payload);
              sk = sk\<lparr>peerIP := dip, peerPort := dport\<rparr>
          in if sk_kind sk = NetKindTCP
             then
               (case tcp_Dial (s_IP (n_stack ns)) dip dport (n_stack ns) of
                  None \<Rightarrow> None
                | Some (c, s) \<Rightarrow>
                    Some ((netStatusOK, []), put_sock (Get16 payload) (sk\<lparr>sk_tcp := Some c\<rparr>) (ns\<lparr>n_stack := s\<rparr>)))
             else Some ((netStatusOK, []), put_sock (Get16 payload) sk ns))"

definition do_send :: "bytes \<Rightarrow> NetServer \<Rightarrow> case_result" where
  "do_send payload ns =
     (if length payload < 4 then Some ((errBadOp, []), ns)
      else
        let n = unat (Get16 (drop 2 payload))
        in case sock (Get16 payload) ns of
             None \<Rightarrow> Some ((errNoSuchSock, []), ns)
           | Some sk \<Rightarrow>
               if 4 + n > length payload then Some ((errNoSuchSock, []), ns)
               else
                 let data = window 4 n payload
                 in if sk_kind sk = NetKindUDP
                    then
                      (case udp_SendTo pump (udpPort sk) (peerIP sk) (peerPort sk) data (n_stack ns) of
                         None \<Rightarrow> None
                       | Some (Inl e, s) \<Rightarrow> Some ((errState, []), ns\<lparr>n_stack := s\<rparr>)
                       | Some (Inr u, s) \<Rightarrow> Some ((netStatusOK, []), ns\<lparr>n_stack := s\<rparr>))
                    else
                      (case sk_tcp sk of
                         None \<Rightarrow> Some ((errState, []), ns)
                       | Some c \<Rightarrow>
                           (case tcp_Write c data (n_stack ns) of
                              None \<Rightarrow> None
                            | Some (Inl e, s) \<Rightarrow> Some ((errState, []), ns\<lparr>n_stack := s\<rparr>)
                            | Some (Inr k, s) \<Rightarrow> Some ((netStatusOK, []), ns\<lparr>n_stack := s\<rparr>))))"

text \<open>A listening socket adopts an accepted connection before it reads.\<close>

definition adopt :: "netSocket \<Rightarrow> Stack \<Rightarrow> netSocket \<times> Stack" where
  "adopt sk s =
     (case sk_listen sk of
        None \<Rightarrow> (sk, s)
      | Some l \<Rightarrow>
          (case Accept l (s_tcp s) of
             (Inl e, t) \<Rightarrow> (sk, s)
           | (Inr c, t) \<Rightarrow> (sk\<lparr>sk_tcp := Some c\<rparr>, s\<lparr>s_tcp := t\<rparr>)))"

definition got_body :: "bytes \<Rightarrow> bytes" where
  "got_body d = le16 (of_nat (length d)) @ d"

definition do_recv :: "bytes \<Rightarrow> NetServer \<Rightarrow> case_result" where
  "do_recv payload ns =
     (if length payload < 4 then Some ((errBadOp, []), ns)
      else
        let mx = unat (Get16 (drop 2 payload))
        in case sock (Get16 payload) ns of
             None \<Rightarrow> Some ((errNoSuchSock, []), ns)
           | Some sk \<Rightarrow>
               if mx = 0 \<and> sk_kind sk = NetKindUDP then Some ((errNoSuchSock, []), ns)
               else if sk_kind sk = NetKindUDP
               then
                 (let (d, s) = udp_Recv (udpQ sk) (n_stack ns)
                  in Some ((netStatusOK, got_body (case d of None \<Rightarrow> [] | Some d \<Rightarrow> take mx d)), ns\<lparr>n_stack := s\<rparr>))
               else
                 let (sk, s) = adopt sk (n_stack ns);
                     ns = put_sock (Get16 payload) sk (ns\<lparr>n_stack := s\<rparr>)
                 in case sk_tcp sk of
                      None \<Rightarrow> Some ((netStatusOK, got_body []), ns)
                    | Some c \<Rightarrow>
                        (case tcp_Recv c mx s of
                           None \<Rightarrow> None
                         | Some (d, s) \<Rightarrow> Some ((netStatusOK, got_body d), ns\<lparr>n_stack := s\<rparr>)))"

definition do_close :: "bytes \<Rightarrow> NetServer \<Rightarrow> case_result" where
  "do_close payload ns =
     (if length payload < 2 then Some ((errBadOp, []), ns)
      else
        let i = Get16 payload; sk = sock i ns;
            ns = ns\<lparr>sockets := AList.delete i (sockets ns)\<rparr>
        in case sk of
             None \<Rightarrow> Some ((errNoSuchSock, []), ns)
           | Some sk \<Rightarrow>
               (case (if sk_kind sk = NetKindTCP then sk_tcp sk else None) of
                  None \<Rightarrow> Some ((netStatusOK, []), ns)
                | Some c \<Rightarrow>
                    (case tcp_Close c (n_stack ns) of
                       None \<Rightarrow> None
                     | Some (r, s) \<Rightarrow> Some ((netStatusOK, []), ns\<lparr>n_stack := s\<rparr>))))"

definition do_ping :: "(u64 \<times> u64) option \<Rightarrow> bytes \<Rightarrow> NetServer \<Rightarrow> case_result" where
  "do_ping clk payload ns =
     (if length payload < 10 then Some ((errBadOp, []), ns)
      else
        let dst = window 0 4 payload; i = Get16 (drop 4 payload); sq = Get16 (drop 6 payload);
            dlen = unat (Get16 (drop 8 payload))
        in if dlen \<noteq> length payload - 10 then Some ((errBadOp, []), ns)
           else case Ping dst i sq (window 10 dlen payload) 4000 (n_stack ns) of
             None \<Rightarrow> None
           | Some (Inl e, s) \<Rightarrow> Some ((errState, []), ns\<lparr>n_stack := s\<rparr>)
           | Some (Inr r, s) \<Rightarrow>
               let rtt = (case clk of None \<Rightarrow> 0 | Some (start, now) \<Rightarrow> ucast (now - start))
               in Some ((netStatusOK, le16 rtt @ iData r), ns\<lparr>n_stack := s\<rparr>))"

definition do_status :: "bytes \<Rightarrow> NetServer \<Rightarrow> case_result" where
  "do_status payload ns =
     (if length payload < 2 then Some ((errBadOp, []), ns)
      else
        let what = Get16 payload
        in if what = 0 then Some ((netStatusOK, s_IP (n_stack ns)), ns)
           else if what = 1
           then (let (e, a, vi, ic) = Stats (n_stack ns)
                 in Some ((netStatusOK, le64 e @ le64 a @ le64 vi @ le64 ic), ns))
           else if what = 2 then Some ((netStatusOK, concat (map (le16 \<circ> fst) (sockets ns))), ns)
           else Some ((errBadOp, []), ns))"

definition do_renew :: "(derr + bytes) \<Rightarrow> NetServer \<Rightarrow> case_result" where
  "do_renew entropy ns =
     (case (if n_renew ns then n_lease ns else None) of
        None \<Rightarrow> Some ((netStatusOK, le16 1), ns)
      | Some l \<Rightarrow>
          (case renew entropy (n_stack ns) of
             None \<Rightarrow> None
           | Some (Inl e, s) \<Rightarrow> Some ((netStatusOK, le16 2), ns\<lparr>n_stack := s\<rparr>)
           | Some (Inr off, s) \<Rightarrow>
               Some ((netStatusOK, le16 0), ns\<lparr>n_stack := s, n_lease := Some (NewLease off True)\<rparr>)))"

definition dispatch :: "(u64 \<times> u64) option \<Rightarrow> (derr + bytes) \<Rightarrow> u16 \<Rightarrow> u16 \<Rightarrow> bytes \<Rightarrow> NetServer \<Rightarrow>
    (bytes option \<times> NetServer) option" where
  "dispatch clk entropy op sq payload ns =
     (if op \<in> {1, 2, 3, 4, 5, 6, 7, 8}
      then
        (case (if op = NetOpOpen then do_open payload ns
               else if op = NetOpConn then do_conn payload ns
               else if op = NetOpSend then do_send payload ns
               else if op = NetOpRecv then do_recv payload ns
               else if op = NetOpClose then do_close payload ns
               else if op = NetOpPing then do_ping clk payload ns
               else if op = NetOpStatus then do_status payload ns
               else do_renew entropy ns) of
           None \<Rightarrow> None
         | Some ((status, body), ns) \<Rightarrow> Some (Some (reply_frame op sq status body), ns))
      else Some (None, ns))"

section \<open>Properties of the server\<close>

lemma sock_put [simp]: "sock j (put_sock i sk ns) = (if j = i then Some sk else sock j ns)"
  by (simp add: sock_def put_sock_def update_conv')

lemma put_distinct [simp]: "distinct (map fst (sockets ns)) \<Longrightarrow> distinct (map fst (sockets (put_sock i sk ns)))"
  by (simp add: put_sock_def distinct_update)

lemma sock_stack [simp]: "sock j (ns\<lparr>n_stack := s\<rparr>) = sock j ns" "sock j (ns\<lparr>nextID := k\<rparr>) = sock j ns"
  "sock j (ns\<lparr>n_lease := l\<rparr>) = sock j ns"
  by (simp_all add: sock_def)

definition tables_kept :: "u16 \<Rightarrow> NetServer \<Rightarrow> NetServer \<Rightarrow> bool" where
  "tables_kept i ns ns' \<longleftrightarrow> (distinct (map fst (sockets ns)) \<longrightarrow> distinct (map fst (sockets ns'))) \<and>
     (\<forall>j. j \<noteq> i \<longrightarrow> sock j ns' = sock j ns)"

lemma new_sock_kept: "new_sock sk ns = Some (r, ns') \<Longrightarrow> tables_kept (nextID ns + 1) ns ns'"
  by (auto simp: new_sock_def tables_kept_def Let_def put_sock_def distinct_update sock_def update_conv')

lemma kept_same [simp]: "tables_kept i ns ns" "tables_kept i ns (ns\<lparr>n_stack := s\<rparr>)" "tables_kept i ns (put_sock i sk ns)"
  "tables_kept i ns (put_sock i sk (ns\<lparr>n_stack := s\<rparr>))" "tables_kept i ns ((put_sock i sk (ns\<lparr>n_stack := s\<rparr>))\<lparr>n_stack := s'\<rparr>)"
  "tables_kept i ns (ns\<lparr>n_stack := s, n_lease := l\<rparr>)"
  by (auto simp: tables_kept_def put_sock_def distinct_update sock_def update_conv')

lemma do_open_kept: "do_open p ns = Some (r, ns') \<Longrightarrow> tables_kept (nextID ns + 1) ns ns'"
  by (auto simp: do_open_def Let_def split: if_splits prod.splits sum.splits dest!: new_sock_kept)
     (auto simp: tables_kept_def)

lemma do_conn_kept: "do_conn p ns = Some (r, ns') \<Longrightarrow> tables_kept (Get16 p) ns ns'"
  by (auto simp: do_conn_def Let_def split: if_splits prod.splits option.splits)

lemma do_send_kept: "do_send p ns = Some (r, ns') \<Longrightarrow> tables_kept (Get16 p) ns ns'"
  by (auto simp: do_send_def Let_def split: if_splits prod.splits option.splits sum.splits)

lemma do_recv_kept: "do_recv p ns = Some (r, ns') \<Longrightarrow> tables_kept (Get16 p) ns ns'"
  by (auto simp: do_recv_def Let_def split: if_splits prod.splits option.splits)

lemma do_close_kept: "do_close p ns = Some (r, ns') \<Longrightarrow> tables_kept (Get16 p) ns ns'"
  by (auto simp: do_close_def Let_def tables_kept_def sock_def delete_conv' distinct_delete
      split: if_splits prod.splits option.splits)

lemma do_ping_kept: "do_ping clk p ns = Some (r, ns') \<Longrightarrow> tables_kept i ns ns'"
  by (auto simp: do_ping_def Let_def split: if_splits prod.splits option.splits sum.splits)

lemma do_status_kept: "do_status p ns = Some (r, ns') \<Longrightarrow> tables_kept i ns ns'"
  by (auto simp: do_status_def Let_def split: if_splits prod.splits)

lemma do_renew_kept: "do_renew ent ns = Some (r, ns') \<Longrightarrow> tables_kept i ns ns'"
  by (auto simp: do_renew_def Let_def split: if_splits prod.splits option.splits sum.splits)

lemmas do_kept = do_open_kept do_conn_kept do_send_kept do_recv_kept do_close_kept do_ping_kept do_status_kept do_renew_kept

text \<open>The shortest payload each request may have, as the request table of the port documents it.\<close>

definition request_min :: "u16 \<Rightarrow> nat" where
  "request_min op = (if op \<in> {NetOpOpen, NetOpSend, NetOpRecv} then 4 else if op = NetOpConn then 8
     else if op \<in> {NetOpClose, NetOpStatus} then 2 else if op = NetOpPing then 10 else 0)"

lemma short_request:
  assumes "length p < request_min op" "dispatch clk ent op sq p ns = Some (rep, ns')"
  shows "rep = Some (reply_frame op sq errBadOp []) \<and> ns' = ns"
  using assms
  by (auto simp: request_min_def dispatch_def do_open_def do_conn_def do_send_def do_recv_def do_close_def do_ping_def
      do_status_def split: if_splits)


definition ex_server :: NetServer where
  "ex_server = \<lparr>n_stack = ex_a, sockets = [], nextID = 0, n_renew = False, n_lease = None\<rparr>"


text \<open>C16: A datagram travels from one client's socket to another's: a send on a connected UDP socket, the
  frame handed to the other host, and a receive on the socket bound to that port return exactly the bytes sent,
  when the next hop is resolved and the receiver's buffer is large enough.\<close>

theorem socket_datagram:
  assumes "stack_ok (n_stack A)" "stack_ok (n_stack B)"
    "next_hop (s_IP (n_stack B)) (n_stack A) = Some h" "arp (n_stack A) h = Some (s_MAC (n_stack B))"
    "s_IP (n_stack B) \<noteq> broadcastIP"
    "sock i A = Some sk" "sk_kind sk = NetKindUDP" "peerIP sk = s_IP (n_stack B)" "peerPort sk = dport"
    "sock j B = Some sk'" "sk_kind sk' = NetKindUDP" "udp_ports (n_stack B) dport = Some (udpQ sk')"
    "udp_qs (n_stack B) (udpQ sk') = []"
    "0 < length data" "length data \<le> 1484" "length data \<le> unat mx"
  shows "\<exists>frame b'.
    dispatch clk ent NetOpSend sq (le16 i @ le16 (of_nat (length data)) @ data) A =
      Some (Some (reply_frame NetOpSend sq netStatusOK []), A\<lparr>n_stack := (n_stack A)\<lparr>s_tx := s_tx (n_stack A) @ [frame]\<rparr>\<rparr>) \<and>
    handleFrame frame (n_stack B) = Some ((), b') \<and>
    (\<exists>B'. dispatch clk ent NetOpRecv sq' (le16 j @ le16 mx) (B\<lparr>n_stack := b'\<rparr>) =
      Some (Some (reply_frame NetOpRecv sq' netStatusOK (le16 (of_nat (length data)) @ data)), B'))"
proof -
  obtain frame where f: "udp_SendTo pump (udpPort sk) (s_IP (n_stack B)) dport data (n_stack A) =
      Some (Inr (), (n_stack A)\<lparr>s_tx := s_tx (n_stack A) @ [frame]\<rparr>)"
    "handleFrame frame (n_stack B) = Some ((), (n_stack B)\<lparr>RxEth := RxEth (n_stack B) + 1,
      RxIPv4 := RxIPv4 (n_stack B) + 1, udp_qs := (udp_qs (n_stack B))(udpQ sk' := [data])\<rparr>)"
    using udp_delivered [OF assms(1-5,12,15), of "udpPort sk"] assms(13) by auto
  have g: "drop 2 (le16 x @ rest) = rest" "length (le16 x @ rest) = 2 + length rest" for x rest by simp_all
  have n: "unat (of_nat (length data) :: u16) = length data" using assms(15) by (simp add: unat_of_nat16)
  have w: "window 4 (length data) (le16 i @ le16 (of_nat (length data)) @ data) = data" by (simp add: window_def)
  have mx: "mx \<noteq> 0" using assms(14,16) by auto
  have "dispatch clk ent NetOpSend sq (le16 i @ le16 (of_nat (length data)) @ data) A =
      Some (Some (reply_frame NetOpSend sq netStatusOK []), A\<lparr>n_stack := (n_stack A)\<lparr>s_tx := s_tx (n_stack A) @ [frame]\<rparr>\<rparr>)"
    using f(1) assms(6-9) by (simp add: dispatch_def do_send_def g n w Let_def)
  moreover have "\<exists>B'. dispatch clk ent NetOpRecv sq' (le16 j @ le16 mx) (B\<lparr>n_stack := (n_stack B)\<lparr>RxEth := RxEth (n_stack B) + 1,
      RxIPv4 := RxIPv4 (n_stack B) + 1, udp_qs := (udp_qs (n_stack B))(udpQ sk' := [data])\<rparr>\<rparr>) =
      Some (Some (reply_frame NetOpRecv sq' netStatusOK (le16 (of_nat (length data)) @ data)), B')"
    using assms(10,11,16) mx by (simp add: dispatch_def do_recv_def g Let_def udp_Recv_def got_body_def unat_eq_0)
  ultimately show ?thesis using f(2) by blast
qed

definition ex_udp_sock :: "u16 \<Rightarrow> IP4 \<Rightarrow> u16 \<Rightarrow> netSocket" where
  "ex_udp_sock port ip pport =
     \<lparr>sk_kind = NetKindUDP, sk_tcp = None, sk_listen = None, udpQ = 0, udpPort = port, peerIP = ip, peerPort = pport\<rparr>"

definition ex_sender :: NetServer where
  "ex_sender = ex_server\<lparr>n_stack := arp_Update [10,0,2,2] [2,0,0,0,0,2] ex_a,
     sockets := [(1, ex_udp_sock 49152 [10,0,2,2] 53)]\<rparr>"

definition ex_receiver :: NetServer where
  "ex_receiver = ex_server\<lparr>n_stack := snd (udp_Bind 53 ex_b), sockets := [(1, ex_udp_sock 53 [10,0,2,15] 49152)]\<rparr>"

theorem socket_datagram_witness:
  "\<exists>frame b' A'. dispatch None (Inr []) NetOpSend 5 (le16 1 @ le16 3 @ [1,2,3]) ex_sender =
       Some (Some (reply_frame NetOpSend 5 0 []), A') \<and> s_tx (n_stack A') = [frame] \<and>
     handleFrame frame (n_stack ex_receiver) = Some ((), b') \<and>
     (\<exists>B'. dispatch None (Inr []) NetOpRecv 6 (le16 1 @ le16 64) (ex_receiver\<lparr>n_stack := b'\<rparr>) =
       Some (Some (reply_frame NetOpRecv 6 0 (le16 3 @ [1,2,3])), B'))"
proof -
  have a: "stack_ok (n_stack ex_sender)" "next_hop [10,0,2,2] (n_stack ex_sender) = Some [10,0,2,2]"
    "arp (n_stack ex_sender) [10,0,2,2] = Some [2,0,0,0,0,2]" "sock 1 ex_sender = Some (ex_udp_sock 49152 [10,0,2,2] 53)"
    "s_tx (n_stack ex_sender) = []"
    using ex_ab(1) by (simp_all add: ex_sender_def arp_Update_def stack_ok_def sock_def ex_server_def ex_a_def NewStack_def
      next_hop_def onLink_def IsZero_def)
  have b: "stack_ok (n_stack ex_receiver)" "s_IP (n_stack ex_receiver) = [10,0,2,2]"
    "s_MAC (n_stack ex_receiver) = [2,0,0,0,0,2]" "sock 1 ex_receiver = Some (ex_udp_sock 53 [10,0,2,15] 49152)"
    "udp_ports (n_stack ex_receiver) 53 = Some 0" "udp_qs (n_stack ex_receiver) 0 = []"
    by (simp_all add: ex_receiver_def udp_Bind_def stack_ok_def ex_b_def NewStack_def sock_def ex_server_def)
  show ?thesis
    using socket_datagram [OF a(1) b(1), of "[10,0,2,2]" 1 "ex_udp_sock 49152 [10,0,2,2] 53" 53 1
        "ex_udp_sock 53 [10,0,2,15] 49152" "[1,2,3]" 64 None "Inr []" 5 6] a b
    by (force simp: broadcastIP_def ex_udp_sock_def)
qed

end
