(* ===== verification/Kern_Ports.thy ===== *)
theory Kern_Ports
  imports Net_Ring Port_Frame
begin

text \<open>
  The kernel's message ports (\<^verbatim>\<open>core/ports.cc\<close>), the interception of awaited replies
  (\<^verbatim>\<open>core/fsroute.cc\<close>), the parts of the session table they consult (\<^verbatim>\<open>core/sched.cc\<close>), the
  port imports of \<^verbatim>\<open>core/engine.cc\<close> and the LOGIN operation of \<^verbatim>\<open>core/kernsvc.cc\<close>.  Locks and interrupt
  masking have no counterpart: every operation is one step.  Allocation may fail: \<^verbatim>\<open>mem\<close> says whether it succeeds.
\<close>

section \<open>State\<close>

abbreviation (input) MAX_PORTS :: nat where "MAX_PORTS \<equiv> 24"
abbreviation (input) MAX_Q :: nat where "MAX_Q \<equiv> 32"
abbreviation (input) MSG_MAX :: nat where "MSG_MAX \<equiv> 4096"
abbreviation (input) H_PER_SESS :: nat where "H_PER_SESS \<equiv> 16"
abbreviation (input) MAX_SESSIONS :: nat where "MAX_SESSIONS \<equiv> 12"
abbreviation (input) MAXPENDING :: nat where "MAXPENDING \<equiv> 8"
abbreviation (input) RESP_MAX :: nat where "RESP_MAX \<equiv> 4096"

datatype sstate = S_FREE | S_RUNNABLE | S_RUNNING | S_ZOMBIE

record session =
  s_state :: sstate
  s_uid :: u32
  s_capmask :: u64
  s_source :: byte
  s_name :: bytes

record msg =
  from_sid :: nat
  m_data :: bytes

record port =
  p_used :: bool
  p_kernel :: bool
  p_creator :: nat
  p_name :: bytes
  p_qn :: nat
  p_qh :: nat
  p_qt :: nat
  p_ring :: "msg option list"

record pending =
  pd_used :: bool
  pd_seq :: u16
  pd_name :: bytes
  pd_done :: bool
  pd_resp :: bytes

text \<open>A handle is an index into the session's row of \<^verbatim>\<open>htab\<close>; \<^term>\<open>None\<close> is the empty entry -1.\<close>

record kern =
  k_sessions :: "session list"
  k_ports :: "port list"
  k_htab :: "nat option list list"
  k_pending :: "pending list"

text \<open>A C string: the bytes before the first zero.\<close>

definition cstr :: "bytes \<Rightarrow> bytes" where
  "cstr b = takeWhile (\<lambda>c. c \<noteq> 0) b"

definition fresh_port :: port where
  "fresh_port = \<lparr>p_used = False, p_kernel = False, p_creator = 0, p_name = replicate 16 0, p_qn = 0, p_qh = 0, p_qt = 0,
     p_ring = replicate MAX_Q None\<rparr>"

definition fresh_pending :: pending where
  "fresh_pending = \<lparr>pd_used = False, pd_seq = 0, pd_name = replicate 16 0, pd_done = False, pd_resp = []\<rparr>"

section \<open>Sessions\<close>

definition sess :: "kern \<Rightarrow> nat \<Rightarrow> session option" where
  "sess st sid = (if sid < MAX_SESSIONS \<and> sid < length (k_sessions st) \<and> s_state (k_sessions st ! sid) \<noteq> S_FREE
     then Some (k_sessions st ! sid) else None)"

definition sched_capmask_of :: "kern \<Rightarrow> nat \<Rightarrow> u64" where
  "sched_capmask_of st sid = (case sess st sid of Some s \<Rightarrow> s_capmask s | None \<Rightarrow> 0)"

definition sched_uid_of :: "kern \<Rightarrow> nat \<Rightarrow> u32" where
  "sched_uid_of st sid = (case sess st sid of Some s \<Rightarrow> s_uid s | None \<Rightarrow> 0)"

definition sched_alive :: "kern \<Rightarrow> nat \<Rightarrow> bool" where
  "sched_alive st sid \<longleftrightarrow> 0 < sid \<and> (case sess st sid of Some s \<Rightarrow> s_state s \<noteq> S_ZOMBIE | None \<Rightarrow> False)"

definition sched_session_by_name :: "kern \<Rightarrow> bytes \<Rightarrow> nat option" where
  "sched_session_by_name st name =
     find (\<lambda>i. s_state (k_sessions st ! i) \<in> {S_RUNNABLE, S_RUNNING} \<and> cstr (s_name (k_sessions st ! i)) = cstr name)
       [1..<min MAX_SESSIONS (length (k_sessions st))]"

definition sched_set_identity :: "kern \<Rightarrow> nat \<Rightarrow> u32 \<Rightarrow> u64 \<Rightarrow> kern" where
  "sched_set_identity st sid uid capmask =
     (case sess st sid of
        None \<Rightarrow> st
      | Some s \<Rightarrow> st\<lparr>k_sessions := (k_sessions st)[sid := s\<lparr>s_uid := uid, s_capmask := capmask, s_source := 0\<rparr>]\<rparr>)"

definition sched_set_capmask :: "kern \<Rightarrow> nat \<Rightarrow> u64 \<Rightarrow> u64 \<Rightarrow> byte \<Rightarrow> kern" where
  "sched_set_capmask st sid clear add src =
     (case sess st sid of
        None \<Rightarrow> st
      | Some s \<Rightarrow> st\<lparr>k_sessions := (k_sessions st)[sid :=
          s\<lparr>s_capmask := or (and (s_capmask s) (not clear)) add, s_source := src\<rparr>]\<rparr>)"

definition sched_is_init :: "kern \<Rightarrow> nat \<Rightarrow> bool" where
  "sched_is_init st sid = (case sess st sid of Some s \<Rightarrow> cstr (s_name s) = str ''init'' | None \<Rightarrow> False)"

section \<open>Names\<close>

text \<open>
  \<^verbatim>\<open>name_eq\<close>: a counted string against a C string.  The loop of \<^verbatim>\<open>is_well_known_name\<close> has the same shape.
\<close>

fun name_eq :: "bytes \<Rightarrow> bytes \<Rightarrow> bool" where
  "name_eq [] [] = True"
| "name_eq [] (c # b) = (c = 0)"
| "name_eq (a # as) [] = False"
| "name_eq (a # as) (c # b) = (c \<noteq> 0 \<and> a = c \<and> name_eq as b)"

definition kWellKnownNames :: "bytes list" where
  "kWellKnownNames = [str ''registry'', str ''devman'', str ''power'', str ''console'', str ''login'', str ''fs'',
     str ''net'', str ''init'', str ''shell'']"

definition is_well_known_name :: "bytes \<Rightarrow> bool" where
  "is_well_known_name name = list_ex (\<lambda>w. name_eq name w) kWellKnownNames"

section \<open>Ports and handles\<close>

definition set_port :: "nat \<Rightarrow> (port \<Rightarrow> port) \<Rightarrow> kern \<Rightarrow> kern" where
  "set_port i f st = st\<lparr>k_ports := (k_ports st)[i := f (k_ports st ! i)]\<rparr>"

text \<open>The first port with a property.\<close>

definition find_port :: "(port \<Rightarrow> bool) \<Rightarrow> kern \<Rightarrow> nat option" where
  "find_port P st = find (\<lambda>i. P (k_ports st ! i)) [0..<length (k_ports st)]"

definition ports_init_names :: "bytes list" where
  "ports_init_names = [str ''registry'', str ''devman'', str ''power'']"

definition own_kernel_port :: "bytes \<Rightarrow> kern \<Rightarrow> kern" where
  "own_kernel_port name st =
     (case find_port (\<lambda>p. \<not> p_used p) st of
        None \<Rightarrow> st
      | Some i \<Rightarrow> set_port i (\<lambda>p. p\<lparr>p_name := go_copy (p_name p) 0 (name @ [0]), p_used := True, p_kernel := True, p_creator := 0,
            p_qn := 0, p_qh := 0, p_qt := 0\<rparr>) st)"

definition ports_init :: "kern \<Rightarrow> kern" where
  "ports_init st =
     fold own_kernel_port ports_init_names
       (st\<lparr>k_ports := map (\<lambda>p. p\<lparr>p_used := False\<rparr>) (k_ports st),
           k_htab := replicate MAX_SESSIONS (replicate H_PER_SESS None)\<rparr>)"

definition port_of :: "kern \<Rightarrow> nat \<Rightarrow> int \<Rightarrow> nat option" where
  "port_of st sid h =
     (if sid \<ge> MAX_SESSIONS \<or> h < 0 \<or> h \<ge> int H_PER_SESS then None
      else case k_htab st ! sid ! nat h of
          None \<Rightarrow> None
        | Some g \<Rightarrow> if g \<ge> MAX_PORTS \<or> \<not> p_used (k_ports st ! g) then None else Some g)"

text \<open>Store a port in the first free handle of a session.\<close>

definition take_handle :: "nat \<Rightarrow> nat \<Rightarrow> kern \<Rightarrow> (nat \<times> kern) option" where
  "take_handle sid g st =
     (let row = k_htab st ! sid
      in case find (\<lambda>h. row ! h = None) [0..<H_PER_SESS] of
           None \<Rightarrow> None
         | Some h \<Rightarrow> Some (h, st\<lparr>k_htab := (k_htab st)[sid := row[h := Some g]]\<rparr>))"

definition own_port :: "nat \<Rightarrow> bytes \<Rightarrow> port \<Rightarrow> port" where
  "own_port sid name p = p\<lparr>p_name := go_copy (p_name p) 0 (name @ [0]), p_used := True, p_kernel := False,
     p_creator := sid, p_qn := 0, p_qh := 0, p_qt := 0\<rparr>"

definition port_create :: "nat \<Rightarrow> bytes \<Rightarrow> kern \<Rightarrow> int \<times> kern" where
  "port_create sid name st =
     (if length name = 0 \<or> length name > 15 \<or> sid = 0 \<or> \<not> sched_alive st sid then (- 1, st)
      else if find_port (\<lambda>p. p_used p \<and> name_eq name (p_name p)) st \<noteq> None then (- 1, st)
      else case find_port (\<lambda>p. \<not> p_used p) st of
          None \<Rightarrow> (- 1, st)
        | Some i \<Rightarrow>
            let st = set_port i (own_port sid name) st
            in case take_handle sid i st of
                 Some (h, st) \<Rightarrow> (int h, st)
               | None \<Rightarrow> (- 1, set_port i (\<lambda>p. p\<lparr>p_used := False\<rparr>) st))"

definition port_bind :: "nat \<Rightarrow> bytes \<Rightarrow> kern \<Rightarrow> int \<times> kern" where
  "port_bind sid name st =
     (if sid = 0 \<or> \<not> sched_alive st sid then (- 1, st)
      else case find_port (\<lambda>p. p_used p \<and> name_eq name (p_name p)) st of
          None \<Rightarrow> (- 1, st)
        | Some i \<Rightarrow> (case take_handle sid i st of Some (h, st) \<Rightarrow> (int h, st) | None \<Rightarrow> (- 1, st)))"

definition ports_owner_of_handle :: "nat \<Rightarrow> int \<Rightarrow> kern \<Rightarrow> int" where
  "ports_owner_of_handle sid h st = (case port_of st sid h of None \<Rightarrow> - 1 | Some g \<Rightarrow> int (p_creator (k_ports st ! g)))"

definition ports_name_owned_by :: "nat \<Rightarrow> bytes \<Rightarrow> kern \<Rightarrow> bool" where
  "ports_name_owned_by sid name st \<longleftrightarrow>
     \<not> (sid \<ge> MAX_SESSIONS \<or> sid = 0) \<and>
     list_ex (\<lambda>h. case k_htab st ! sid ! h of
         None \<Rightarrow> False
       | Some g \<Rightarrow> g < MAX_PORTS \<and> p_used (k_ports st ! g) \<and> p_creator (k_ports st ! g) = sid \<and>
           cstr (p_name (k_ports st ! g)) = cstr name) [0..<H_PER_SESS]"

definition sched_is_login :: "kern \<Rightarrow> nat \<Rightarrow> bool" where
  "sched_is_login st sid = ports_name_owned_by sid (str ''login'') st"

section \<open>Awaited replies\<close>

definition fsroute_init :: "kern \<Rightarrow> kern" where
  "fsroute_init st = st\<lparr>k_pending := map (\<lambda>e. e\<lparr>pd_used := False\<rparr>) (k_pending st)\<rparr>"

definition set_pending :: "nat \<Rightarrow> (pending \<Rightarrow> pending) \<Rightarrow> kern \<Rightarrow> kern" where
  "set_pending i f st = st\<lparr>k_pending := (k_pending st)[i := f (k_pending st ! i)]\<rparr>"

definition find_pending :: "(pending \<Rightarrow> bool) \<Rightarrow> kern \<Rightarrow> nat option" where
  "find_pending P st = find (\<lambda>i. P (k_pending st ! i)) [0..<length (k_pending st)]"

definition fsroute_expect :: "u16 \<Rightarrow> bytes \<Rightarrow> kern \<Rightarrow> int \<times> kern" where
  "fsroute_expect sq name st =
     (case find_pending (\<lambda>e. \<not> pd_used e) st of
        None \<Rightarrow> (- 1, st)
      | Some i \<Rightarrow> (0, set_pending i (\<lambda>e. e\<lparr>pd_used := True, pd_seq := sq, pd_done := False, pd_resp := [],
            pd_name := go_copy (pd_name e) 0 (take 15 (cstr name) @ [0])\<rparr>) st))"

definition fsroute_pending_for :: "bytes \<Rightarrow> kern \<Rightarrow> bool" where
  "fsroute_pending_for name st \<longleftrightarrow> find_pending (\<lambda>e. pd_used e \<and> \<not> pd_done e \<and> cstr (pd_name e) = cstr name) st \<noteq> None"

definition fsroute_intercept :: "bytes \<Rightarrow> bytes \<Rightarrow> kern \<Rightarrow> bool \<times> kern" where
  "fsroute_intercept name data st =
     (if length data < 4 then (False, st)
      else let sq = Get16 (drop 2 data)
           in case find_pending (\<lambda>e. pd_used e \<and> \<not> pd_done e \<and> cstr (pd_name e) = cstr name \<and> pd_seq e = sq) st of
                None \<Rightarrow> (False, st)
              | Some i \<Rightarrow> (True, set_pending i (\<lambda>e. e\<lparr>pd_resp := take RESP_MAX data, pd_done := True\<rparr>) st))"

text \<open>
  \<^verbatim>\<open>fsroute_wait_budget\<close>: \<^verbatim>\<open>yields\<close> are the kernel steps that other sessions take at each yield, one per spin.
\<close>

fun fsroute_wait_budget :: "u16 \<Rightarrow> nat \<Rightarrow> (kern \<Rightarrow> kern) list \<Rightarrow> kern \<Rightarrow> bytes option \<times> kern" where
  "fsroute_wait_budget sq cap [] st =
     (None, case find_pending (\<lambda>e. pd_used e \<and> pd_seq e = sq) st of
        None \<Rightarrow> st
      | Some i \<Rightarrow> set_pending i (\<lambda>e. e\<lparr>pd_used := False, pd_done := False\<rparr>) st)"
| "fsroute_wait_budget sq cap (y # ys) st =
     (case find_pending (\<lambda>e. pd_used e \<and> pd_done e \<and> pd_seq e = sq) st of
        Some i \<Rightarrow> (Some (take cap (pd_resp (k_pending st ! i))), set_pending i (\<lambda>e. e\<lparr>pd_used := False\<rparr>) st)
      | None \<Rightarrow> fsroute_wait_budget sq cap ys (y st))"

section \<open>The ring of a port\<close>

text \<open>
  The enqueue that \<^verbatim>\<open>port_send\<close>, \<^verbatim>\<open>ports_enqueue_by_name\<close> and \<^verbatim>\<open>ports_kernel_enqueue\<close> share, and the dequeue of
  \<^verbatim>\<open>port_recv\<close>.  An occupied slot at the tail is overwritten.
\<close>

definition ring_put :: "msg \<Rightarrow> port \<Rightarrow> port" where
  "ring_put m p = p\<lparr>p_ring := (p_ring p)[p_qt p := Some m], p_qt := (p_qt p + 1) mod MAX_Q, p_qn := p_qn p + 1\<rparr>"

definition ring_take :: "port \<Rightarrow> msg option \<times> port" where
  "ring_take p =
     (if p_qn p = 0 then (None, p)
      else case p_ring p ! p_qh p of
          None \<Rightarrow> (None, p)
        | Some m \<Rightarrow> (Some m, p\<lparr>p_ring := (p_ring p)[p_qh p := None], p_qn := p_qn p - 1, p_qh := (p_qh p + 1) mod MAX_Q\<rparr>))"

section \<open>Sending and receiving\<close>

text \<open>
  On send the kernel overwrites the uid field of a datagram of at least 8 bytes.  The dispatch of the kernel's own
  endpoints is the parameter \<^verbatim>\<open>disp\<close>: endpoint, sender, handle and datagram.
\<close>

type_synonym dispatcher = "bytes \<Rightarrow> nat \<Rightarrow> int \<Rightarrow> bytes \<Rightarrow> kern \<Rightarrow> kern"

definition stamp :: "nat \<Rightarrow> kern \<Rightarrow> bytes \<Rightarrow> bytes" where
  "stamp sid st data = (if length data \<ge> 8 then Put32 data 4 (sched_uid_of st sid) else data)"

definition port_send :: "dispatcher \<Rightarrow> bool \<Rightarrow> nat \<Rightarrow> int \<Rightarrow> bytes \<Rightarrow> kern \<Rightarrow> int \<times> kern" where
  "port_send disp mem sid h data st =
     (case port_of st sid h of
        None \<Rightarrow> (- 1, st)
      | Some i \<Rightarrow>
          if length data = 0 \<or> length data > MSG_MAX then (- 1, st)
          else let p = k_ports st ! i
               in if p_kernel p \<and> sid \<noteq> 0 then (0, disp (cstr (p_name p)) sid h (stamp sid st data) st)
                  else case fsroute_intercept (p_name p) data st of
                      (True, st) \<Rightarrow> (0, st)
                    | (False, st) \<Rightarrow>
                        if p_qn p \<ge> MAX_Q then (- 2, st)
                        else if \<not> mem then (- 1, st)
                        else (0, set_port i (ring_put \<lparr>from_sid = sid,
                                m_data = (if sid \<noteq> 0 then stamp sid st data else data)\<rparr>) st))"

definition ports_enqueue_by_name :: "bool \<Rightarrow> bytes \<Rightarrow> bytes \<Rightarrow> kern \<Rightarrow> bool \<times> kern" where
  "ports_enqueue_by_name mem name data st =
     (case fsroute_intercept name data st of
        (True, st) \<Rightarrow> (True, st)
      | (False, st) \<Rightarrow>
          (case find_port (\<lambda>p. p_used p \<and> cstr (p_name p) = cstr name) st of
             None \<Rightarrow> (False, st)
           | Some i \<Rightarrow>
               if p_qn (k_ports st ! i) \<ge> MAX_Q \<or> \<not> mem then (False, st)
               else (True, set_port i (ring_put \<lparr>from_sid = 0, m_data = take MSG_MAX data\<rparr>) st)))"

definition ports_kernel_enqueue :: "bool \<Rightarrow> nat \<Rightarrow> int \<Rightarrow> bytes \<Rightarrow> kern \<Rightarrow> kern" where
  "ports_kernel_enqueue mem sid h data st =
     (case port_of st sid h of
        None \<Rightarrow> st
      | Some i \<Rightarrow>
          if length data = 0 \<or> length data > MSG_MAX \<or> p_qn (k_ports st ! i) \<ge> MAX_Q \<or> \<not> mem then st
          else set_port i (ring_put \<lparr>from_sid = sid, m_data = data\<rparr>) st)"

text \<open>\<^verbatim>\<open>port_recv\<close>: -1 is \<^term>\<open>None\<close>; the result 0 is the empty datagram.\<close>

definition port_recv :: "nat \<Rightarrow> int \<Rightarrow> nat \<Rightarrow> kern \<Rightarrow> bytes option \<times> kern" where
  "port_recv sid h cap st =
     (case port_of st sid h of
        None \<Rightarrow> (None, st)
      | Some i \<Rightarrow>
          (case ring_take (k_ports st ! i) of
             (None, p) \<Rightarrow> (Some [], st)
           | (Some m, p) \<Rightarrow> (Some (take cap (m_data m)), set_port i (\<lambda>_. p) st)))"

section \<open>The end of a session\<close>

definition drain_port :: "nat \<Rightarrow> port \<Rightarrow> port" where
  "drain_port sid p =
     (if \<not> p_used p then p
      else let mine = (\<lambda>x. case x of Some m \<Rightarrow> from_sid m = sid | None \<Rightarrow> False)
           in p\<lparr>p_ring := map (\<lambda>x. if mine x then None else x) (p_ring p),
                p_qn := p_qn p - length (filter mine (p_ring p))\<rparr>)"

definition ports_drain_session :: "nat \<Rightarrow> kern \<Rightarrow> kern" where
  "ports_drain_session sid st = st\<lparr>k_ports := map (drain_port sid) (k_ports st)\<rparr>"

definition ports_clear_session_handles :: "nat \<Rightarrow> kern \<Rightarrow> kern" where
  "ports_clear_session_handles sid st =
     (if sid \<ge> MAX_SESSIONS then st else st\<lparr>k_htab := (k_htab st)[sid := replicate H_PER_SESS None]\<rparr>)"

abbreviation (input) SCHED_CAP_KILL :: u64 where "SCHED_CAP_KILL \<equiv> 1"
abbreviation (input) SCHED_CAP_PORTBIND :: u64 where "SCHED_CAP_PORTBIND \<equiv> 0x1000"

definition sched_kill :: "nat \<Rightarrow> nat \<Rightarrow> kern \<Rightarrow> int \<times> kern" where
  "sched_kill sid from st =
     (if \<not> sched_alive st sid then (- 1, st)
      else if and (sched_capmask_of st from) SCHED_CAP_KILL = 0 then (- 1, st)
      else let st = st\<lparr>k_sessions := (k_sessions st)[sid := (k_sessions st ! sid)\<lparr>s_state := S_ZOMBIE\<rparr>]\<rparr>
           in (0, ports_clear_session_handles sid (ports_drain_session sid st)))"

section \<open>Imports\<close>

definition owned_port_create :: "nat \<Rightarrow> bytes \<Rightarrow> kern \<Rightarrow> int \<times> kern" where
  "owned_port_create sid name st = port_create sid name st"

definition owned_port_bind :: "nat \<Rightarrow> bytes \<Rightarrow> kern \<Rightarrow> int \<times> kern" where
  "owned_port_bind sid name st =
     (if \<not> is_well_known_name name \<or> and (sched_capmask_of st sid) SCHED_CAP_PORTBIND \<noteq> 0
      then port_bind sid name st else (- 1, st))"

section \<open>The LOGIN operation of the registry\<close>

text \<open>
  Payload: target name (16 bytes), uid, capability mask.  The result is the reply status and the kernel.
\<close>

definition registry_login :: "nat \<Rightarrow> bytes \<Rightarrow> kern \<Rightarrow> u32 \<times> kern" where
  "registry_login from payload st =
     (if \<not> sched_is_login st from then (- 1, st)
      else if length payload < 24 then (- 1, st)
      else let tname = cstr (take 16 payload); nuid = Get32 (drop 16 payload); nmask = Get32 (drop 20 payload);
               caller = sched_capmask_of st from
           in if and (ucast nmask) (not caller) \<noteq> 0 \<and> \<not> sched_is_init st from \<and> \<not> sched_is_login st from then (- 1, st)
              else case sched_session_by_name st tname of
                  None \<Rightarrow> (- 1, st)
                | Some tsid \<Rightarrow>
                    let st = sched_set_identity st tsid nuid (ucast nmask);
                        st = (if sched_is_init st from then sched_set_capmask st tsid 0 (ucast nmask) 2 else st)
                    in (0, st))"

end
