(* ===== verification/Kern_Ports_Props.thy ===== *)
theory Kern_Ports_Props
  imports Kern_Ports
begin

text \<open>
  What the kernel's ports guarantee, as lemmas on \<^theory_text>\<open>Kern_Ports\<close>: the ring of a port is a bounded queue, names compare
  exactly, the tables stay well-formed along every run, the sender's identity is stamped, and two places where the
  code falls short: a killed session leaves a hole at the head of a ring, and a name with a zero byte is taken for another.
\<close>

section \<open>The ring is a queue\<close>

lemma mod32: "a < 32 \<Longrightarrow> i < 32 \<Longrightarrow> (a + i) mod 32 = (if a + i < 32 then a + i else a + i - (32 :: nat))"
  by (simp add: mod_if)

lemma slot_inj: "a < 32 \<Longrightarrow> i < 32 \<Longrightarrow> j < 32 \<Longrightarrow> (a + i) mod 32 = (a + j) mod (32 :: nat) \<longleftrightarrow> i = j"
  by (auto simp: mod32 split: if_splits)

text \<open>The slots from head to tail are occupied, the others are free.\<close>

definition pring_ok :: "port \<Rightarrow> bool" where
  "pring_ok p \<longleftrightarrow> length (p_ring p) = MAX_Q \<and> p_qh p < MAX_Q \<and> p_qn p \<le> MAX_Q \<and> p_qt p = (p_qh p + p_qn p) mod MAX_Q \<and>
     (\<forall>i < MAX_Q. p_ring p ! ((p_qh p + i) mod MAX_Q) \<noteq> None \<longleftrightarrow> i < p_qn p)"

definition port_queue :: "port \<Rightarrow> msg list" where
  "port_queue p = map (\<lambda>i. the (p_ring p ! ((p_qh p + i) mod MAX_Q))) [0..<p_qn p]"

lemma length_port_queue [simp]: "length (port_queue p) = p_qn p"
  by (simp add: port_queue_def)

lemma ring_put_queue:
  assumes "pring_ok p" "p_qn p < MAX_Q"
  shows "pring_ok (ring_put m p)" "port_queue (ring_put m p) = port_queue p @ [m]"
proof -
  let ?r = "\<lambda>i. (p_qh p + i) mod 32"
  have r: "length (p_ring p) = 32" "p_qh p < 32" "p_qt p = ?r (p_qn p)" "\<forall>i < 32. p_ring p ! ?r i \<noteq> None \<longleftrightarrow> i < p_qn p"
    using assms(1) by (simp_all add: pring_ok_def)
  have slot: "(p_ring p)[p_qt p := Some m] ! ?r i = (if i = p_qn p then Some m else p_ring p ! ?r i)" if "i < 32" for i
    using slot_inj [OF r(2) assms(2) that] r(1,3) by (auto simp: nth_list_update)
  have t: "(?r (p_qn p) + 1) mod 32 = ?r (p_qn p + 1)" by (simp add: mod_Suc_eq)
  show "pring_ok (ring_put m p)"
    using r assms(2) slot t by (auto simp: pring_ok_def ring_put_def less_Suc_eq)
  show "port_queue (ring_put m p) = port_queue p @ [m]"
    using slot assms(2) by (auto simp: port_queue_def ring_put_def)
qed

lemma ring_take_empty: "p_qn p = 0 \<Longrightarrow> ring_take p = (None, p)"
  by (simp add: ring_take_def)

lemma ring_take_queue:
  assumes "pring_ok p" "port_queue p = m # ms"
  obtains p' where "ring_take p = (Some m, p')" "pring_ok p'" "port_queue p' = ms"
proof -
  let ?r = "\<lambda>i. (p_qh p + i) mod 32"
  have r: "length (p_ring p) = 32" "p_qh p < 32" "p_qn p \<le> 32" "p_qt p = ?r (p_qn p)" "\<forall>i < 32. p_ring p ! ?r i \<noteq> None \<longleftrightarrow> i < p_qn p"
    using assms(1) by (simp_all add: pring_ok_def)
  have n: "p_qn p = Suc (length ms)" using assms(2) length_port_queue [of p] by simp
  have q: "map (\<lambda>i. the (p_ring p ! ?r i)) [0..<Suc (length ms)] = m # ms" using assms(2) n by (simp add: port_queue_def)
  have m: "p_ring p ! p_qh p = Some m"
  proof -
    have "the (p_ring p ! ?r 0) = m" using arg_cong [OF q, of hd] by (simp add: upt_conv_Cons del: upt_Suc)
    moreover have "p_ring p ! ?r 0 \<noteq> None" using r(5) n by (metis zero_less_Suc zero_less_numeral)
    ultimately show ?thesis using r(2) by auto
  qed
  let ?p = "p\<lparr>p_ring := (p_ring p)[p_qh p := None], p_qn := p_qn p - 1, p_qh := (p_qh p + 1) mod MAX_Q\<rparr>"
  have h: "((p_qh p + 1) mod 32 + i) mod 32 = ?r (Suc i)" for i by (simp add: mod_simps)
  have slot: "(p_ring p)[p_qh p := None] ! ?r (Suc i) = (if Suc i = 32 then None else p_ring p ! ?r (Suc i))" if "i < 32" for i
    using slot_inj [OF r(2), of "Suc i" 0] r(1,2) that by (auto simp: nth_list_update less_Suc_eq_le split: if_splits)
  have occ: "(p_ring p)[p_qh p := None] ! ?r (Suc i) \<noteq> None \<longleftrightarrow> i < length ms" if "i < 32" for i
  proof (cases "Suc i = 32")
    case True
    then show ?thesis using slot [OF that] r(3) n by simp
  next
    case False
    then have "Suc i < 32" using that by simp
    then have "p_ring p ! ?r (Suc i) \<noteq> None \<longleftrightarrow> Suc i < p_qn p" using r(5) by blast
    then show ?thesis unfolding slot [OF that] n using False by simp
  qed
  have ok: "pring_ok ?p"
    using r(1-4) n occ by (simp add: pring_ok_def h [simplified])
  have "port_queue ?p = map (\<lambda>i. the (p_ring p ! ?r (Suc i))) [0..<length ms]"
    using slot h r(3) n by (auto simp: port_queue_def)
  also have "\<dots> = tl (map (\<lambda>i. the (p_ring p ! ?r i)) [0..<Suc (length ms)])"
    by (simp add: map_upt_Suc del: upt_Suc)
  finally have "port_queue ?p = ms" using q by simp
  with ok m n show ?thesis by (intro that [of ?p]) (simp_all add: ring_take_def)
qed

text \<open>The send and receive of a port as a frame queue.\<close>

definition pq_send :: "nat \<Rightarrow> bytes \<Rightarrow> port \<Rightarrow> bool \<times> port" where
  "pq_send sid f p = (if p_qn p \<ge> MAX_Q then (False, p) else (True, ring_put \<lparr>from_sid = sid, m_data = f\<rparr> p))"

definition pq_recv :: "port \<Rightarrow> bytes option \<times> port" where
  "pq_recv p = apfst (map_option m_data) (ring_take p)"

interpretation pq: frame_queue "pq_send sid" pq_recv pring_ok "\<lambda>p. map m_data (port_queue p)" for sid
proof
  fix q f fs
  assume a: "pring_ok q" "map m_data (port_queue q) = f # fs"
  then obtain m ms where m: "port_queue q = m # ms" "f = m_data m" "fs = map m_data ms" by auto
  obtain p' where "ring_take q = (Some m, p')" "pring_ok p'" "port_queue p' = ms" by (rule ring_take_queue [OF a(1) m(1)])
  then show "\<exists>q'. pq_recv q = (Some f, q') \<and> pring_ok q' \<and> map m_data (port_queue q') = fs"
    using m by (simp add: pq_recv_def)
next
  fix q f q' assume "pring_ok q" "pq_send sid f q = (True, q')"
  then show "pring_ok q' \<and> map m_data (port_queue q') = map m_data (port_queue q) @ [f]"
    using ring_put_queue [of q "\<lparr>from_sid = sid, m_data = f\<rparr>"] by (auto simp: pq_send_def split: if_splits)
qed (auto simp: pq_recv_def pq_send_def ring_take_empty port_queue_def split: if_splits)

section \<open>Names\<close>

lemma name_eq_iff: "name_eq a b \<longleftrightarrow> a = cstr b"
  by (induction a b rule: name_eq.induct) (auto simp: cstr_def)

lemma cstr_nul_free [simp]: "0 \<notin> set b \<Longrightarrow> cstr b = b"
  by (auto simp: cstr_def takeWhile_eq_all_conv)

lemma cstr_append0 [simp]: "cstr (a @ 0 # b) = cstr a"
  unfolding cstr_def by (induction a) auto

lemma cstr_copy:
  assumes "length nm = 16" "length a \<le> 15"
  shows "cstr (go_copy nm 0 (a @ [0])) = cstr a"
proof -
  have "go_copy nm 0 (a @ [0]) = a @ 0 # drop (Suc (length a)) nm" using assms by (simp add: go_copy_exact)
  then show ?thesis by simp
qed

lemma find_member: "find P xs = Some x \<Longrightarrow> x \<in> set xs \<and> P x"
  by (auto simp: find_Some_iff)

lemma find_upt_Some: "find P [0..<n] = Some i \<Longrightarrow> i < n \<and> P i"
  by (auto simp: find_Some_iff)

lemma find_upt_None: "find P [0..<n] = None \<longleftrightarrow> (\<forall>i < n. \<not> P i)"
  by (auto simp: find_None_iff)

lemma find_portD:
  "find_port P st = Some i \<Longrightarrow> i < length (k_ports st) \<and> P (k_ports st ! i)"
  "find_port P st = None \<Longrightarrow> i < length (k_ports st) \<Longrightarrow> \<not> P (k_ports st ! i)"
  by (auto simp: find_port_def find_upt_None dest: find_upt_Some)

section \<open>The tables stay well-formed\<close>

definition port_wf :: "port \<Rightarrow> bool" where
  "port_wf p \<longleftrightarrow> length (p_name p) = 16 \<and> length (p_ring p) = MAX_Q \<and> p_qh p < MAX_Q \<and> p_qt p < MAX_Q \<and> p_qn p \<le> MAX_Q \<and>
     length (filter (\<lambda>x. x \<noteq> None) (p_ring p)) \<le> p_qn p \<and> (p_used p \<or> p_qn p = 0)"

definition kern_ok :: "kern \<Rightarrow> bool" where
  "kern_ok st \<longleftrightarrow> length (k_sessions st) = MAX_SESSIONS \<and> length (k_ports st) = MAX_PORTS \<and> list_all port_wf (k_ports st) \<and>
     length (k_htab st) = MAX_SESSIONS \<and>
     list_all (\<lambda>row. length row = H_PER_SESS \<and> list_all (\<lambda>x. case x of Some g \<Rightarrow> g < MAX_PORTS | None \<Rightarrow> True) row) (k_htab st)"

text \<open>One owner per name: no two ports in use have the same name.\<close>

definition names_ok :: "kern \<Rightarrow> bool" where
  "names_ok st \<longleftrightarrow> (\<forall>i < length (k_ports st). \<forall>j < length (k_ports st). p_used (k_ports st ! i) \<and> p_used (k_ports st ! j) \<and>
     cstr (p_name (k_ports st ! i)) = cstr (p_name (k_ports st ! j)) \<longrightarrow> i = j)"

lemma count_put: "length (filter P (xs[i := x])) \<le> Suc (length (filter P xs))"
proof (cases "i < length xs")
  case True
  have "length (filter P xs) = length (filter P (take i xs)) + length (filter P (xs ! i # drop (Suc i) xs))"
    using True by (metis filter_append id_take_nth_drop length_append)
  moreover have "length (filter P (xs[i := x])) = length (filter P (take i xs)) + length (filter P (x # drop (Suc i) xs))"
    using True by (metis filter_append length_append upd_conv_take_nth_drop)
  ultimately show ?thesis by auto
next
  case False
  then have "xs[i := x] = xs" by (simp add: list_update_beyond)
  then show ?thesis by simp
qed

lemma count_clear:
  assumes "i < length xs" "P (xs ! i)" "\<not> P x"
  shows "length (filter P (xs[i := x])) = length (filter P xs) - 1"
proof -
  have "length (filter P xs) = length (filter P (take i xs)) + length (filter P (xs ! i # drop (Suc i) xs))"
    using assms(1) by (metis filter_append id_take_nth_drop length_append)
  moreover have "length (filter P (xs[i := x])) = length (filter P (take i xs)) + length (filter P (x # drop (Suc i) xs))"
    using assms(1) by (metis filter_append length_append upd_conv_take_nth_drop)
  ultimately show ?thesis using assms(2,3) by simp
qed

lemma ring_put_wf: "port_wf p \<Longrightarrow> p_used p \<Longrightarrow> p_qn p < MAX_Q \<Longrightarrow> port_wf (ring_put m p)"
  using count_put [of "\<lambda>x. x \<noteq> None" "p_ring p" "p_qt p" "Some m"] by (auto simp: port_wf_def ring_put_def)

lemma ring_take_wf: "port_wf p \<Longrightarrow> ring_take p = (r, p') \<Longrightarrow> port_wf p'"
  using count_clear [of "p_qh p" "p_ring p" "\<lambda>x. x \<noteq> None" None]
  by (auto simp: port_wf_def ring_take_def split: if_splits option.splits)

lemma drain_wf: "port_wf p \<Longrightarrow> port_wf (drain_port sid p)"
proof -
  let ?mine = "\<lambda>x :: msg option. case x of Some m \<Rightarrow> from_sid m = sid | None \<Rightarrow> False"
  have a: "length (filter (\<lambda>x. x \<noteq> None) (map (\<lambda>x. if ?mine x then None else x) xs)) + length (filter ?mine xs) =
      length (filter (\<lambda>x. x \<noteq> None) xs)" for xs
    by (induction xs) (auto split: option.splits)
  assume "port_wf p"
  then show ?thesis using a [of "p_ring p"] by (auto simp: port_wf_def drain_port_def Let_def)
qed

lemma kern_ok_port: "kern_ok st \<Longrightarrow> i < MAX_PORTS \<Longrightarrow> port_wf (k_ports st ! i)"
  by (simp add: kern_ok_def list_all_length)

lemma list_all_upd: "list_all P xs \<Longrightarrow> (i < length xs \<Longrightarrow> P x) \<Longrightarrow> list_all P (xs[i := x])"
  by (cases "i < length xs") (auto simp: list_all_length nth_list_update)

lemma set_port_ok:
  assumes "kern_ok st" "i < MAX_PORTS \<Longrightarrow> port_wf (f (k_ports st ! i))"
  shows "kern_ok (set_port i f st)"
  using assms by (auto simp: kern_ok_def set_port_def intro!: list_all_upd)

lemma take_handle_ok:
  assumes "kern_ok st" "take_handle sid g st = Some (h, st')" "g < MAX_PORTS" "sid < MAX_SESSIONS"
  shows "kern_ok st'" "k_ports st' = k_ports st" "h < H_PER_SESS" "k_htab st' ! sid ! h = Some g"
    "k_sessions st' = k_sessions st" "k_pending st' = k_pending st"
proof -
  have e: "h < 16" "st' = st\<lparr>k_htab := (k_htab st)[sid := (k_htab st ! sid)[h := Some g]]\<rparr>"
    using assms(2) by (auto simp: take_handle_def Let_def split: option.splits dest!: find_upt_Some)
  have r: "sid < length (k_htab st)" "length (k_htab st ! sid) = 16"
    "list_all (\<lambda>x. case x of Some g \<Rightarrow> g < MAX_PORTS | None \<Rightarrow> True) (k_htab st ! sid)"
    using assms(1,4) by (auto simp: kern_ok_def list_all_length)
  show "kern_ok st'" using assms(1,3) r e by (auto simp: kern_ok_def intro!: list_all_upd)
  show "k_ports st' = k_ports st" "h < H_PER_SESS" "k_htab st' ! sid ! h = Some g"
    "k_sessions st' = k_sessions st" "k_pending st' = k_pending st"
    using r e by simp_all
qed

lemma port_of_less: "port_of st sid h = Some i \<Longrightarrow> i < MAX_PORTS \<and> p_used (k_ports st ! i)"
  by (auto simp: port_of_def split: if_splits option.splits)

lemma intercept_frame:
  "fsroute_intercept name data st = (b, st') \<Longrightarrow> k_ports st' = k_ports st \<and> k_sessions st' = k_sessions st \<and> k_htab st' = k_htab st"
  by (auto simp: fsroute_intercept_def set_pending_def Let_def split: if_splits option.splits)

lemma kern_ok_frame:
  "kern_ok st \<Longrightarrow> k_ports st' = k_ports st \<Longrightarrow> k_sessions st' = k_sessions st \<Longrightarrow> k_htab st' = k_htab st \<Longrightarrow> kern_ok st'"
  by (simp add: kern_ok_def)

lemma alive_less: "sched_alive st sid \<Longrightarrow> sid < MAX_SESSIONS"
  by (auto simp: sched_alive_def sess_def split: option.splits if_splits)

section \<open>Runs\<close>

text \<open>The calls of sessions and of the kernel on the ports, as one sequence of steps.\<close>

datatype kop =
    KCreate nat bytes | KBind nat bytes | KSend bool nat int bytes | KRecv nat int nat | KByName bool bytes bytes
  | KReply bool nat int bytes | KKill nat nat | KExpect u16 bytes

fun kexec :: "dispatcher \<Rightarrow> kop \<Rightarrow> kern \<Rightarrow> kern" where
  "kexec disp (KCreate sid name) st = snd (owned_port_create sid name st)"
| "kexec disp (KBind sid name) st = snd (owned_port_bind sid name st)"
| "kexec disp (KSend mem sid h data) st = snd (port_send disp mem sid h data st)"
| "kexec disp (KRecv sid h cap) st = snd (port_recv sid h cap st)"
| "kexec disp (KByName mem name data) st = snd (ports_enqueue_by_name mem name data st)"
| "kexec disp (KReply mem sid h data) st = ports_kernel_enqueue mem sid h data st"
| "kexec disp (KKill sid by') st = snd (sched_kill sid by' st)"
| "kexec disp (KExpect sq name) st = snd (fsroute_expect sq name st)"

text \<open>What the dispatch of the kernel's endpoints keeps: well-formed tables, and which ports are in use under which name.\<close>

definition port_names :: "kern \<Rightarrow> (bool \<times> bytes) list" where
  "port_names st = map (\<lambda>p. (p_used p, cstr (p_name p))) (k_ports st)"

definition disp_ok :: "dispatcher \<Rightarrow> bool" where
  "disp_ok disp \<longleftrightarrow> (\<forall>ep sid h data st. kern_ok st \<longrightarrow> kern_ok (disp ep sid h data st) \<and> port_names (disp ep sid h data st) = port_names st)"

lemma names_ok_names: "port_names st = port_names st' \<Longrightarrow> names_ok st = names_ok st'"
proof -
  have "names_ok s \<longleftrightarrow> (\<forall>i < length (port_names s). \<forall>j < length (port_names s). fst (port_names s ! i) \<and> fst (port_names s ! j) \<and>
     snd (port_names s ! i) = snd (port_names s ! j) \<longrightarrow> i = j)" for s
    by (simp add: names_ok_def port_names_def)
  then show "port_names st = port_names st' \<Longrightarrow> names_ok st = names_ok st'" by simp
qed

lemma port_names_set:
  assumes "i < length (k_ports st) \<Longrightarrow> p_used (f (k_ports st ! i)) = p_used (k_ports st ! i) \<and> p_name (f (k_ports st ! i)) = p_name (k_ports st ! i)"
  shows "port_names (set_port i f st) = port_names st"
proof (cases "i < length (k_ports st)")
  case True
  then show ?thesis
    using assms by (intro nth_equalityI) (auto simp: port_names_def set_port_def nth_list_update split: if_splits)
next
  case False
  then show ?thesis by (simp add: port_names_def set_port_def list_update_beyond)
qed

lemma ring_names [simp]:
  "p_used (ring_put m p) = p_used p" "p_name (ring_put m p) = p_name p"
  "p_used (drain_port sid p) = p_used p" "p_name (drain_port sid p) = p_name p"
  by (simp_all add: ring_put_def drain_port_def Let_def)

lemma ring_take_names: "ring_take p = (r, p') \<Longrightarrow> p_used p' = p_used p \<and> p_name p' = p_name p"
  by (auto simp: ring_take_def split: if_splits option.splits)

lemma put_ok:
  assumes "kern_ok st" "i < MAX_PORTS" "p_used (k_ports st ! i)" "p_qn (k_ports st ! i) < MAX_Q"
  shows "kern_ok (set_port i (ring_put m) st)" "port_names (set_port i (ring_put m) st) = port_names st"
  using assms ring_put_wf [OF kern_ok_port [OF assms(1,2)] assms(3,4)]
  by (auto intro!: set_port_ok port_names_set)

lemma send_ok:
  assumes "kern_ok st" "disp_ok disp"
  shows "kern_ok (snd (port_send disp mem sid h data st)) \<and> port_names (snd (port_send disp mem sid h data st)) = port_names st"
proof (cases "port_of st sid h")
  case None
  then show ?thesis using assms by (simp add: port_send_def)
next
  case (Some i)
  obtain b st1 where f: "fsroute_intercept (p_name (k_ports st ! i)) data st = (b, st1)" by fastforce
  note fr = intercept_frame [OF f]
  have ok1: "kern_ok st1" using kern_ok_frame [OF assms(1)] fr by simp
  have n1: "port_names st1 = port_names st" using fr by (simp add: port_names_def)
  have i: "i < MAX_PORTS" "p_used (k_ports st1 ! i)" using port_of_less [OF Some] fr by simp_all
  have put: "kern_ok (set_port i (ring_put m) st1)" "port_names (set_port i (ring_put m) st1) = port_names st"
    if "\<not> MAX_Q \<le> p_qn (k_ports st ! i)" for m
    using put_ok [OF ok1 i] that fr n1 by auto
  show ?thesis
    using Some assms ok1 n1 put f by (auto simp: port_send_def disp_ok_def Let_def split: bool.splits)
qed

lemma recv_ok:
  assumes "kern_ok st"
  shows "kern_ok (snd (port_recv sid h cap st)) \<and> port_names (snd (port_recv sid h cap st)) = port_names st"
proof (cases "port_of st sid h")
  case (Some i)
  have i: "i < MAX_PORTS" using port_of_less [OF Some] by simp
  obtain r p where t: "ring_take (k_ports st ! i) = (r, p)" by fastforce
  have "kern_ok (set_port i (\<lambda>_. p) st)" "port_names (set_port i (\<lambda>_. p) st) = port_names st"
    using ring_take_wf [OF kern_ok_port [OF assms i] t] ring_take_names [OF t] assms
    by (auto intro!: set_port_ok port_names_set)
  then show ?thesis using Some t assms by (auto simp: port_recv_def split: option.splits)
qed (use assms in \<open>simp add: port_recv_def\<close>)

lemma by_name_ok:
  assumes "kern_ok st"
  shows "kern_ok (snd (ports_enqueue_by_name mem name data st)) \<and> port_names (snd (ports_enqueue_by_name mem name data st)) = port_names st"
proof -
  obtain b st1 where f: "fsroute_intercept name data st = (b, st1)" by fastforce
  note fr = intercept_frame [OF f]
  have ok1: "kern_ok st1" using kern_ok_frame [OF assms] fr by simp
  have n1: "port_names st1 = port_names st" using fr by (simp add: port_names_def)
  have put: "kern_ok (set_port i (ring_put m) st1)" "port_names (set_port i (ring_put m) st1) = port_names st"
    if "find_port (\<lambda>p. p_used p \<and> P p) st1 = Some i" "\<not> MAX_Q \<le> p_qn (k_ports st1 ! i)" for m i P
    using put_ok [OF ok1] that n1 find_portD(1) [OF that(1)] ok1 by (auto simp: kern_ok_def)
  show ?thesis
    using f ok1 n1 put by (auto simp: ports_enqueue_by_name_def split: bool.splits option.splits)
qed

lemma reply_ok:
  assumes "kern_ok st"
  shows "kern_ok (ports_kernel_enqueue mem sid h data st) \<and> port_names (ports_kernel_enqueue mem sid h data st) = port_names st"
  using assms put_ok [OF assms] port_of_less [of st sid h]
  by (auto simp: ports_kernel_enqueue_def not_le split: option.splits)

lemma kill_ok:
  assumes "kern_ok st"
  shows "kern_ok (snd (sched_kill sid by' st)) \<and> port_names (snd (sched_kill sid by' st)) = port_names st"
proof -
  have "list_all port_wf (map (drain_port sid) (k_ports st))" using assms drain_wf by (auto simp: kern_ok_def list_all_iff)
  then show ?thesis
    using assms
    by (auto simp: sched_kill_def ports_clear_session_handles_def ports_drain_session_def kern_ok_def port_names_def Let_def
        list_all_iff [of _ "replicate _ _"] intro!: list_all_upd)
qed

lemma bind_ok:
  assumes "kern_ok st"
  shows "kern_ok (snd (owned_port_bind sid name st)) \<and> port_names (snd (owned_port_bind sid name st)) = port_names st"
proof -
  have "kern_ok st' \<and> port_names st' = port_names st"
    if "find_port P st = Some i" "take_handle sid i st = Some (h, st')" "sched_alive st sid" for P i h st'
    using take_handle_ok [OF assms that(2) _ alive_less [OF that(3)]] find_portD(1) [OF that(1)] assms
    by (simp add: kern_ok_def port_names_def)
  then show ?thesis
    using assms by (auto simp: owned_port_bind_def port_bind_def split: option.splits)
qed

lemma own_port_wf: "port_wf p \<Longrightarrow> \<not> p_used p \<Longrightarrow> length name \<le> 15 \<Longrightarrow> port_wf (own_port sid name p)"
  by (auto simp: port_wf_def own_port_def)

lemma port_create_cases:
  assumes "kern_ok st" "port_create sid name st = (h, st')"
  obtains "st' = st" "h = - 1"
  | i st1 where "find_port (\<lambda>p. \<not> p_used p) st = Some i" "st1 = set_port i (own_port sid name) st" "take_handle sid i st1 = Some (nat h, st')"
      "0 \<le> h" "length name \<le> 15" "find_port (\<lambda>p. p_used p \<and> name_eq name (p_name p)) st = None" "sched_alive st sid"
  | i where "find_port (\<lambda>p. \<not> p_used p) st = Some i" "h = - 1" "length name \<le> 15" "st' = set_port i (\<lambda>p. (own_port sid name p)\<lparr>p_used := False\<rparr>) st"
proof -
  consider "st' = st" "h = - 1" | i where "find_port (\<lambda>p. \<not> p_used p) st = Some i" "length name \<le> 15"
      "find_port (\<lambda>p. p_used p \<and> name_eq name (p_name p)) st = None" "sched_alive st sid"
      "(case take_handle sid i (set_port i (own_port sid name) st) of Some (h, st) \<Rightarrow> (int h, st)
        | None \<Rightarrow> (- 1, set_port i (\<lambda>p. p\<lparr>p_used := False\<rparr>) (set_port i (own_port sid name) st))) = (h, st')"
    using assms(2) by (auto simp: port_create_def Let_def split: if_splits option.splits)
  then show ?thesis
  proof cases
    case 2
    have i: "i < length (k_ports st)" using find_portD(1) [OF 2(1)] by simp
    show ?thesis
    proof (cases "take_handle sid i (set_port i (own_port sid name) st)")
      case None
      then show ?thesis using 2 i that(3) by (simp add: set_port_def)
    next
      case (Some x)
      then show ?thesis using 2 that(2) by (cases x) auto
    qed
  qed (rule that(1))
qed

lemma port_names_own:
  assumes "i < length (k_ports st)" "length (p_name (k_ports st ! i)) = 16" "length name \<le> 15"
  shows "port_names (set_port i (own_port sid name) st) = (port_names st)[i := (True, cstr name)]"
  using assms cstr_copy by (simp add: port_names_def set_port_def map_update own_port_def)

lemma create_ok:
  assumes "kern_ok st"
  shows "kern_ok (snd (port_create sid name st))" "names_ok st \<Longrightarrow> 0 \<notin> set name \<Longrightarrow> names_ok (snd (port_create sid name st))"
proof -
  obtain h st' where c: "port_create sid name st = (h, st')" by fastforce
  have l: "length (k_ports st) = 24" using assms by (simp add: kern_ok_def)
  have own: "kern_ok (set_port i (own_port sid name) st)" if "find_port (\<lambda>p. \<not> p_used p) st = Some i" "length name \<le> 15" for i
    using find_portD(1) [OF that(1)] kern_ok_port [OF assms] that(2) l by (auto intro!: set_port_ok own_port_wf assms)
  have "kern_ok st' \<and> (names_ok st \<and> 0 \<notin> set name \<longrightarrow> names_ok st')"
    using assms c
  proof (cases rule: port_create_cases)
    case (2 i st1)
    have i: "i < 24" "\<not> p_used (k_ports st ! i)" using find_portD(1) [OF 2(1)] l by simp_all
    have li: "length (p_name (k_ports st ! i)) = 16" using kern_ok_port [OF assms i(1)] by (simp add: port_wf_def)
    note t = take_handle_ok [OF own [OF 2(1,5)] 2(3) [unfolded 2(2)] i(1) alive_less [OF 2(7)]]
    have nm: "port_names st' = (port_names st)[i := (True, cstr name)]"
      using port_names_own [of i st name sid] i li 2(5) l t(2) by (simp add: port_names_def)
    have "names_ok st'" if n: "names_ok st" "0 \<notin> set name"
    proof -
      have fresh: "\<not> (p_used (k_ports st ! j) \<and> cstr (p_name (k_ports st ! j)) = name)" if "j < 24" for j
        using find_portD(2) [OF 2(6), of j] that l by (auto simp: name_eq_iff)
      have ps: "port_names st' ! j = (if j = i then (True, name) else (p_used (k_ports st ! j), cstr (p_name (k_ports st ! j))))" if "j < 24" for j
        using that n(2) l i(1) unfolding nm by (auto simp: port_names_def nth_list_update)
      have "length (k_ports st') = 24" using t(1) by (simp add: kern_ok_def)
      then have pp: "p_used (k_ports st' ! j) = fst (port_names st' ! j)" "cstr (p_name (k_ports st' ! j)) = snd (port_names st' ! j)" if "j < 24" for j
        using that by (simp_all add: port_names_def)
      show ?thesis
        using n(1) fresh \<open>length (k_ports st') = 24\<close> l by (simp add: names_ok_def pp ps) metis
    qed
    then show ?thesis using t(1) by blast
  next
    case (3 i)
    have i: "i < 24" "\<not> p_used (k_ports st ! i)" using find_portD(1) [OF 3(1)] l by simp_all
    have "kern_ok st'"
      unfolding 3(4) using own_port_wf [OF kern_ok_port [OF assms i(1)] i(2) 3(3)] assms
      by (intro set_port_ok) (auto simp: port_wf_def own_port_def)
    moreover have "names_ok st'" if "names_ok st"
      using that i l unfolding 3(4) names_ok_def by (auto simp: set_port_def nth_list_update own_port_def split: if_splits)
    ultimately show ?thesis by blast
  qed (use assms in simp_all)
  then show "kern_ok (snd (port_create sid name st))" "names_ok st \<Longrightarrow> 0 \<notin> set name \<Longrightarrow> names_ok (snd (port_create sid name st))"
    by (simp_all add: c)
qed

fun nul_free :: "kop \<Rightarrow> bool" where
  "nul_free (KCreate sid name) = (0 \<notin> set name)"
| "nul_free _ = True"

lemma expect_frame: "port_names (snd (fsroute_expect sq name st)) = port_names st" "kern_ok st \<Longrightarrow> kern_ok (snd (fsroute_expect sq name st))"
  by (auto simp: fsroute_expect_def set_pending_def port_names_def kern_ok_def split: option.splits)

lemma kexec_ok:
  assumes "kern_ok st" "disp_ok disp"
  shows "kern_ok (kexec disp oper st)" "names_ok st \<Longrightarrow> nul_free oper \<Longrightarrow> names_ok (kexec disp oper st)"
proof -
  have frame: "kern_ok (kexec disp oper st) \<and> port_names (kexec disp oper st) = port_names st" if "\<forall>sid name. oper \<noteq> KCreate sid name"
    using that send_ok [OF assms] recv_ok [OF assms(1)] by_name_ok [OF assms(1)] reply_ok [OF assms(1)] kill_ok [OF assms(1)]
      bind_ok [OF assms(1)] expect_frame assms(1)
    by (cases oper) simp_all
  have "kern_ok (kexec disp oper st) \<and> (names_ok st \<and> nul_free oper \<longrightarrow> names_ok (kexec disp oper st))"
  proof (cases "\<exists>sid name. oper = KCreate sid name")
    case True
    then show ?thesis using create_ok [OF assms(1)] by (auto simp: owned_port_create_def)
  next
    case False
    then show ?thesis using frame names_ok_names [of "kexec disp oper st" st] by simp
  qed
  then show "kern_ok (kexec disp oper st)" "names_ok st \<Longrightarrow> nul_free oper \<Longrightarrow> names_ok (kexec disp oper st)" by simp_all
qed

lemma run_ok:
  "kern_ok st \<Longrightarrow> disp_ok disp \<Longrightarrow>
   kern_ok (fold (kexec disp) ops st) \<and> (names_ok st \<and> list_all nul_free ops \<longrightarrow> names_ok (fold (kexec disp) ops st))"
proof (induction ops arbitrary: st)
  case (Cons oper ops)
  then show ?case using kexec_ok [OF Cons.prems(1,2)] by simp
qed simp

section \<open>A kernel at boot\<close>

text \<open>Two running sessions beside the kernel's own: a shell with no capability and one with all.\<close>

definition no_session :: session where
  "no_session = \<lparr>s_state = S_FREE, s_uid = 0, s_capmask = 0, s_source = 0, s_name = []\<rparr>"

definition boot_kern :: kern where
  "boot_kern = ports_init \<lparr>
     k_sessions = [no_session,
       \<lparr>s_state = S_RUNNABLE, s_uid = 0, s_capmask = 0x1FFF, s_source = 2, s_name = str ''login''\<rparr>,
       \<lparr>s_state = S_RUNNABLE, s_uid = 1001, s_capmask = 0, s_source = 0, s_name = str ''shell''\<rparr>] @ replicate 9 no_session,
     k_ports = replicate MAX_PORTS fresh_port, k_htab = [], k_pending = replicate MAXPENDING fresh_pending\<rparr>"

lemma boot_ports:
  "k_ports boot_kern = map (\<lambda>n. fresh_port\<lparr>p_name := n @ replicate (16 - length n) 0, p_used := True, p_kernel := True\<rparr>) ports_init_names
     @ replicate 21 fresh_port"
  "k_htab boot_kern = replicate 12 (replicate 16 None)"
  by (simp_all add: boot_kern_def ports_init_def ports_init_names_def own_kernel_port_def find_port_def set_port_def fresh_port_def
      eval_nat_numeral go_copy_def str_def)

lemma boot_ok: "kern_ok boot_kern" "names_ok boot_kern"
proof -
  have n: "length (k_sessions boot_kern) = 12"
    by (simp add: boot_kern_def ports_init_def own_kernel_port_def ports_init_names_def set_port_def split: option.splits)
  have w: "port_wf fresh_port" "list_all port_wf (map (\<lambda>n. fresh_port\<lparr>p_name := n @ replicate (16 - length n) 0, p_used := True, p_kernel := True\<rparr>) ports_init_names)"
    by (simp_all add: port_wf_def fresh_port_def ports_init_names_def str_def)
  show "kern_ok boot_kern"
    using n w by (simp add: kern_ok_def boot_ports list_all_iff ports_init_names_def)
  have l3: "length ports_init_names = 3" by (simp add: ports_init_names_def)
  have u: "i \<in> {0, 1, 2}" if "p_used (k_ports boot_kern ! i)" "i < 24" for i
  proof (rule ccontr)
    assume "i \<notin> {0, 1, 2}"
    then have "3 \<le> i" by auto
    then have "k_ports boot_kern ! i = fresh_port" using that(2) by (simp add: boot_ports nth_append l3)
    then show False using that(1) by (simp add: fresh_port_def)
  qed
  have nm: "cstr (p_name (k_ports boot_kern ! 0)) = str ''registry''" "cstr (p_name (k_ports boot_kern ! 1)) = str ''devman''"
    "cstr (p_name (k_ports boot_kern ! 2)) = str ''power''"
    by (simp_all add: boot_ports ports_init_names_def str_def cstr_def)
  show "names_ok boot_kern"
    unfolding names_ok_def
  proof (intro allI impI)
    fix i j
    assume "i < length (k_ports boot_kern)" "j < length (k_ports boot_kern)" and a: "p_used (k_ports boot_kern ! i) \<and> p_used (k_ports boot_kern ! j) \<and>
      cstr (p_name (k_ports boot_kern ! i)) = cstr (p_name (k_ports boot_kern ! j))"
    then have "i < 24" "j < 24" by (simp_all add: boot_ports l3)
    then have "i \<in> {0, 1, 2}" "j \<in> {0, 1, 2}" using u a by blast+
    then show "i = j" using a nm by (auto simp: str_def simp del: One_nat_def)
  qed
qed

section \<open>Binding a well-known name\<close>

lemma take_handle_port:
  assumes "kern_ok st" "take_handle sid g st = Some (h, st')" "g < MAX_PORTS" "sid < MAX_SESSIONS" "p_used (k_ports st ! g)"
  shows "port_of st' sid (int h) = Some g"
  using take_handle_ok [OF assms(1-4)] assms(3-5) by (simp add: port_of_def)

lemma bind_result:
  assumes "kern_ok st" "port_bind sid name st = (h, st')" "0 \<le> h"
  obtains i where "port_of st' sid h = Some i" "cstr (p_name (k_ports st' ! i)) = name" "k_ports st' = k_ports st"
proof -
  from assms(2,3) obtain i n where b: "find_port (\<lambda>p. p_used p \<and> name_eq name (p_name p)) st = Some i"
    "take_handle sid i st = Some (n, st')" "h = int n" "sched_alive st sid"
    by (auto simp: port_bind_def split: if_splits option.splits)
  have i: "i < 24" "p_used (k_ports st ! i)" "name = cstr (p_name (k_ports st ! i))"
    using find_portD(1) [OF b(1)] assms(1) by (auto simp: kern_ok_def name_eq_iff)
  note t = take_handle_ok [OF assms(1) b(2) i(1) alive_less [OF b(4)]]
  show ?thesis
    using that [of i] take_handle_port [OF assms(1) b(2) i(1) alive_less [OF b(4)] i(2)] b(3) i(3) t(2) by simp
qed

lemma well_known_iff: "is_well_known_name name \<longleftrightarrow> name \<in> set kWellKnownNames"
proof -
  have "w \<in> set kWellKnownNames \<Longrightarrow> cstr w = w" for w by (auto simp: kWellKnownNames_def str_def cstr_def)
  then show ?thesis by (auto simp: is_well_known_name_def list_ex_iff name_eq_iff)
qed

section \<open>A stalled port\<close>

text \<open>
  With a hole at the head nothing is received, and a send fills the hole only when the tail comes round to it.
\<close>

fun sends :: "qop list \<Rightarrow> nat" where
  "sends [] = 0"
| "sends (QSend f # ops) = Suc (sends ops)"
| "sends (QRecv # ops) = sends ops"

definition head_hole :: "nat \<Rightarrow> port \<Rightarrow> bool" where
  "head_hole j p \<longleftrightarrow> length (p_ring p) = MAX_Q \<and> p_qh p < MAX_Q \<and> p_ring p ! p_qh p = None \<and> 0 < j \<and> p_qt p = (p_qh p + j) mod MAX_Q"

lemma hole_recv: "head_hole j p \<Longrightarrow> pq_recv p = (None, p)"
  by (simp add: head_hole_def pq_recv_def ring_take_def)

lemma hole_send:
  assumes "head_hole j p" "j < MAX_Q"
  shows "head_hole (if fst (pq_send sid f p) then Suc j else j) (snd (pq_send sid f p))"
proof -
  have "p_qt p \<noteq> p_qh p" using assms slot_inj [of "p_qh p" j 0] by (auto simp: head_hole_def)
  then show ?thesis
    using assms by (auto simp: head_hole_def pq_send_def ring_put_def mod_Suc_eq)
qed

lemma hole_run:
  "head_hole j p \<Longrightarrow> j + sends ops \<le> MAX_Q \<Longrightarrow> qrun (pq_send sid) pq_recv ops p = (ins, outs, p') \<Longrightarrow> outs = []"
proof (induction ops arbitrary: j p ins outs p' rule: sends.induct)
  case (2 f ops)
  obtain b q where s: "pq_send sid f p = (b, q)" by fastforce
  have "head_hole (if b then Suc j else j) q" using hole_send [OF 2(2), of sid f] 2(3) s by simp
  then show ?case using 2 s by (fastforce split: prod.splits if_splits)
next
  case (3 ops)
  then show ?case using hole_recv [OF 3(2)] by (fastforce split: prod.splits)
qed simp

lemma drain_hole:
  assumes "pring_ok p" "p_used p" "port_queue p = m # ms" "from_sid m = sid"
  shows "head_hole (p_qn p) (drain_port sid p)"
proof -
  have "p_qn p \<noteq> 0" using assms(3) length_port_queue [of p] by (metis length_0_conv list.distinct(1))
  moreover have "ring_take p = (Some m, snd (ring_take p))" using ring_take_queue [OF assms(1,3)] by (metis snd_conv)
  then have "p_ring p ! p_qh p = Some m" using \<open>p_qn p \<noteq> 0\<close> by (auto simp: ring_take_def split: option.splits)
  ultimately show ?thesis
    using assms(1,2,4) by (simp add: head_hole_def drain_port_def pring_ok_def Let_def)
qed

lemma drain_keeps:
  assumes "port_wf p" "m \<in> set (port_queue p)" "from_sid m \<noteq> sid" "pring_ok p"
  shows "0 < p_qn (drain_port sid p)"
proof -
  let ?mine = "\<lambda>x :: msg option. case x of Some m \<Rightarrow> from_sid m = sid | None \<Rightarrow> False"
  obtain i where i: "i < p_qn p" "m = the (p_ring p ! ((p_qh p + i) mod 32))" using assms(2) by (auto simp: port_queue_def)
  have "p_ring p ! ((p_qh p + i) mod 32) \<noteq> None" using assms(4) i(1) by (simp add: pring_ok_def)
  then have x: "Some m \<in> set (p_ring p)" using i(2) assms(4) by (auto simp: pring_ok_def in_set_conv_nth intro!: exI [of _ "(p_qh p + i) mod 32"])
  have "length (filter ?mine xs) < length (filter (\<lambda>x. x \<noteq> None) xs)" if "Some m \<in> set xs" for xs
    using that assms(3)
  proof (induction xs)
    case (Cons y ys)
    have "length (filter ?mine ys) \<le> length (filter (\<lambda>x. x \<noteq> None) ys)" by (induction ys) (auto split: option.splits)
    then show ?case using Cons by (auto split: option.splits)
  qed simp
  from this [OF x] show ?thesis using assms(1) by (auto simp: port_wf_def drain_port_def Let_def)
qed

section \<open>Two sessions and a port\<close>

text \<open>
  A sender whose datagrams start with eight header bytes, which the kernel may overwrite, and a receiver on the same
  port, with no reply awaited under the port's name.
\<close>

definition not_awaited :: "bytes \<Rightarrow> kern \<Rightarrow> bool" where
  "not_awaited name st \<longleftrightarrow> list_all (\<lambda>e. \<not> (pd_used e \<and> \<not> pd_done e \<and> cstr (pd_name e) = cstr name)) (k_pending st)"

lemma not_awaited_intercept: "not_awaited name st \<Longrightarrow> fsroute_intercept name data st = (False, st)"
proof -
  assume "not_awaited name st"
  then have "find_pending (\<lambda>e. pd_used e \<and> \<not> pd_done e \<and> cstr (pd_name e) = cstr name \<and> pd_seq e = sq) st = None" for sq
    by (auto simp: not_awaited_def find_pending_def find_upt_None list_all_length)
  then show ?thesis by (simp add: fsroute_intercept_def Let_def)
qed

lemma stamp_fields:
  "length (stamp sid st data) = length data" "drop 8 (stamp sid st data) = drop 8 data" "take 4 (stamp sid st data) = take 4 data"
  "8 \<le> length data \<Longrightarrow> Get32 (drop 4 (stamp sid st data)) = sched_uid_of st sid"
proof -
  have d: "8 \<le> length data \<Longrightarrow> Put32 data 4 u = take 4 data @ le32 u @ drop 8 data" for u
    by (simp add: Put32_def go_copy_exact)
  show "length (stamp sid st data) = length data" "drop 8 (stamp sid st data) = drop 8 data" "take 4 (stamp sid st data) = take 4 data"
    "8 \<le> length data \<Longrightarrow> Get32 (drop 4 (stamp sid st data)) = sched_uid_of st sid"
    by (auto simp: stamp_def d)
qed

lemma send_queued:
  assumes "port_of st sid h = Some i" "\<not> p_kernel (k_ports st ! i)" "sid \<noteq> 0" "not_awaited (p_name (k_ports st ! i)) st"
  shows "port_send disp mem sid h data st =
    (if data = [] \<or> MSG_MAX < length data then (- 1, st)
     else if MAX_Q \<le> p_qn (k_ports st ! i) then (- 2, st)
     else if \<not> mem then (- 1, st)
     else (0, set_port i (ring_put \<lparr>from_sid = sid, m_data = stamp sid st data\<rparr>) st))"
  using assms by (simp add: port_send_def not_awaited_intercept Let_def)

definition ksend :: "dispatcher \<Rightarrow> bytes \<Rightarrow> nat \<Rightarrow> int \<Rightarrow> bytes \<Rightarrow> kern \<Rightarrow> bool \<times> kern" where
  "ksend disp hdr sid h f st = apfst (\<lambda>r. r = 0) (port_send disp True sid h (hdr @ f) st)"

definition krecv :: "nat \<Rightarrow> int \<Rightarrow> kern \<Rightarrow> bytes option \<times> kern" where
  "krecv sid h st =
     (case port_recv sid h MSG_MAX st of
        (Some d, st) \<Rightarrow> (if d = [] then None else Some (drop 8 d), st)
      | (None, st) \<Rightarrow> (None, st))"

definition kport_ok :: "nat \<Rightarrow> bytes \<Rightarrow> nat \<Rightarrow> int \<Rightarrow> nat \<Rightarrow> int \<Rightarrow> kern \<Rightarrow> bool" where
  "kport_ok i hdr sid h sid' h' st \<longleftrightarrow> port_of st sid h = Some i \<and> port_of st sid' h' = Some i \<and> sid \<noteq> 0 \<and> length hdr = 8 \<and>
     i < length (k_ports st) \<and> \<not> p_kernel (k_ports st ! i) \<and> not_awaited (p_name (k_ports st ! i)) st \<and> pring_ok (k_ports st ! i) \<and>
     list_all (\<lambda>m. 8 \<le> length (m_data m) \<and> length (m_data m) \<le> MSG_MAX) (port_queue (k_ports st ! i))"

definition kqueue :: "nat \<Rightarrow> kern \<Rightarrow> bytes list" where
  "kqueue i st = map (\<lambda>m. drop 8 (m_data m)) (port_queue (k_ports st ! i))"

lemma port_of_set:
  assumes "i < length (k_ports st) \<Longrightarrow> p_used (f (k_ports st ! i)) = p_used (k_ports st ! i)"
  shows "port_of (set_port i f st) sid h = port_of st sid h"
  using assms by (cases "i < length (k_ports st)")
    (auto simp: port_of_def set_port_def nth_list_update list_update_beyond split: option.splits)

lemma kport_ok_set:
  assumes "kport_ok i hdr sid h sid' h' st" "pring_ok (f (k_ports st ! i))" "p_used (f (k_ports st ! i)) = p_used (k_ports st ! i)"
    "p_kernel (f (k_ports st ! i)) = p_kernel (k_ports st ! i)" "p_name (f (k_ports st ! i)) = p_name (k_ports st ! i)"
    "list_all (\<lambda>m. 8 \<le> length (m_data m) \<and> length (m_data m) \<le> MSG_MAX) (port_queue (f (k_ports st ! i)))"
  shows "kport_ok i hdr sid h sid' h' (set_port i f st)"
proof -
  have "k_ports (set_port i f st) ! i = f (k_ports st ! i)" "k_pending (set_port i f st) = k_pending st"
    using assms(1) by (simp_all add: set_port_def kport_ok_def)
  then show ?thesis
    using assms port_of_set [of i st f] by (simp add: kport_ok_def not_awaited_def) (simp add: set_port_def)
qed

lemma ring_kernel: "p_kernel (ring_put m p) = p_kernel p" "ring_take p = (r, p') \<Longrightarrow> p_kernel p' = p_kernel p"
  by (auto simp: ring_put_def ring_take_def split: if_splits option.splits)

interpretation kq: frame_queue "ksend disp hdr sid h" "krecv sid' h'" "kport_ok i hdr sid h sid' h'" "kqueue i"
  for disp hdr sid h sid' h' i
proof
  fix st f fs
  assume a: "kport_ok i hdr sid h sid' h' st" "kqueue i st = f # fs"
  then obtain m ms where m: "port_queue (k_ports st ! i) = m # ms" "f = drop 8 (m_data m)" "fs = map (\<lambda>m. drop 8 (m_data m)) ms"
    by (auto simp: kqueue_def)
  have ok: "pring_ok (k_ports st ! i)" "port_of st sid' h' = Some i" "i < length (k_ports st)" using a(1) by (simp_all add: kport_ok_def)
  have l: "8 \<le> length (m_data m)" "length (m_data m) \<le> 4096" "list_all (\<lambda>m. 8 \<le> length (m_data m) \<and> length (m_data m) \<le> 4096) ms"
    using a(1) m(1) by (simp_all add: kport_ok_def)
  obtain p' where p': "ring_take (k_ports st ! i) = (Some m, p')" "pring_ok p'" "port_queue p' = ms" by (rule ring_take_queue [OF ok(1) m(1)])
  have "krecv sid' h' st = (Some f, set_port i (\<lambda>_. p') st)"
    using ok(2) p'(1) l m(2) by (auto simp: krecv_def port_recv_def)
  moreover have "kport_ok i hdr sid h sid' h' (set_port i (\<lambda>_. p') st)"
    by (rule kport_ok_set [OF a(1)]) (use p' l ring_take_names [OF p'(1)] ring_kernel(2) [OF p'(1)] in simp_all)
  moreover have "kqueue i (set_port i (\<lambda>_. p') st) = fs" using ok(3) p'(3) m(3) by (simp add: kqueue_def set_port_def)
  ultimately show "\<exists>q'. krecv sid' h' st = (Some f, q') \<and> kport_ok i hdr sid h sid' h' q' \<and> kqueue i q' = fs" by blast
next
  fix st f st'
  assume a: "kport_ok i hdr sid h sid' h' st" "ksend disp hdr sid h f st = (True, st')"
  have ok: "pring_ok (k_ports st ! i)" "i < length (k_ports st)" "length hdr = 8" using a(1) by (simp_all add: kport_ok_def)
  let ?m = "\<lparr>from_sid = sid, m_data = stamp sid st (hdr @ f)\<rparr>"
  have s: "p_qn (k_ports st ! i) < 32" "st' = set_port i (ring_put ?m) st" "length (hdr @ f) \<le> 4096"
    using a send_queued [of st sid h i disp True "hdr @ f"] by (auto simp: ksend_def kport_ok_def split: if_splits)
  note q = ring_put_queue [OF ok(1) s(1), of ?m]
  have "kport_ok i hdr sid h sid' h' st'"
    unfolding s(2)
    by (rule kport_ok_set [OF a(1)])
       (use q s(3) ok(3) a(1) ring_kernel(1) stamp_fields(1) [of sid st "hdr @ f"] in \<open>simp_all add: kport_ok_def\<close>)
  moreover have "kqueue i st' = kqueue i st @ [f]"
    using q(2) ok(2,3) stamp_fields(2) [of sid st "hdr @ f"] by (simp add: s(2) kqueue_def set_port_def)
  ultimately show "kport_ok i hdr sid h sid' h' st' \<and> kqueue i st' = kqueue i st @ [f]" by blast
next
  fix st f st'
  assume "kport_ok i hdr sid h sid' h' st" "ksend disp hdr sid h f st = (False, st')"
  then show "st' = st"
    using send_queued [of st sid h i disp True "hdr @ f"] by (auto simp: ksend_def kport_ok_def split: if_splits)
next
  fix st
  assume "kport_ok i hdr sid h sid' h' st" "kqueue i st = []"
  then have "port_of st sid' h' = Some i" "p_qn (k_ports st ! i) = 0" by (simp_all add: kport_ok_def kqueue_def port_queue_def)
  then show "krecv sid' h' st = (None, st)" by (simp add: krecv_def port_recv_def ring_take_def)
qed

text \<open>The kernel with one port, which every session has bound, empty and with messages of two sessions in its queue.\<close>

definition chat_port :: port where
  "chat_port = own_port 1 (str ''chat'') fresh_port"

definition chat_kern :: kern where
  "chat_kern = boot_kern\<lparr>k_ports := chat_port # replicate 23 fresh_port, k_htab := replicate 12 (Some 0 # replicate 15 None)\<rparr>"

definition chat_full :: kern where
  "chat_full = set_port 0 (ring_put \<lparr>from_sid = 1, m_data = [9]\<rparr>) (set_port 0 (ring_put \<lparr>from_sid = 2, m_data = [7]\<rparr>) chat_kern)"

lemma boot_fields:
  "k_sessions boot_kern = [no_session,
     \<lparr>s_state = S_RUNNABLE, s_uid = 0, s_capmask = 0x1FFF, s_source = 2, s_name = str ''login''\<rparr>,
     \<lparr>s_state = S_RUNNABLE, s_uid = 1001, s_capmask = 0, s_source = 0, s_name = str ''shell''\<rparr>] @ replicate 9 no_session"
  "k_pending boot_kern = replicate 8 fresh_pending"
  by (simp_all add: boot_kern_def ports_init_def own_kernel_port_def ports_init_names_def set_port_def split: option.splits)

lemma chat_port_ok: "port_wf chat_port" "pring_ok chat_port" "port_queue chat_port = []" "p_used chat_port" "\<not> p_kernel chat_port"
  by (simp_all add: chat_port_def own_port_def fresh_port_def port_wf_def pring_ok_def port_queue_def str_def)

lemma chat_ok: "kern_ok chat_kern"
proof -
  have "port_wf fresh_port" by (simp add: port_wf_def fresh_port_def)
  then show ?thesis using chat_port_ok by (simp add: kern_ok_def chat_kern_def boot_fields list_all_iff)
qed

lemma chat_state:
  "sid < 12 \<Longrightarrow> port_of chat_kern sid 0 = Some 0" "k_ports chat_kern ! 0 = chat_port" "not_awaited nm chat_kern"
  using chat_port_ok by (simp_all add: chat_kern_def port_of_def not_awaited_def boot_fields fresh_pending_def list_all_iff)

lemma chat_full_state:
  "k_ports chat_full ! 0 = ring_put \<lparr>from_sid = 1, m_data = [9]\<rparr> (ring_put \<lparr>from_sid = 2, m_data = [7]\<rparr> chat_port)"
  "kern_ok chat_full" "pring_ok (k_ports chat_full ! 0)"
  "port_queue (k_ports chat_full ! 0) = [\<lparr>from_sid = 2, m_data = [7]\<rparr>, \<lparr>from_sid = 1, m_data = [9]\<rparr>]"
proof -
  let ?p = "ring_put \<lparr>from_sid = 2, m_data = [7]\<rparr> chat_port"
  have n: "p_qn chat_port = 0" "p_qn ?p = 1" by (simp_all add: chat_port_def own_port_def ring_put_def)
  have q1: "pring_ok ?p" "port_queue ?p = [\<lparr>from_sid = 2, m_data = [7]\<rparr>]"
    using ring_put_queue [OF chat_port_ok(2)] n chat_port_ok(3) by simp_all
  show e: "k_ports chat_full ! 0 = ring_put \<lparr>from_sid = 1, m_data = [9]\<rparr> ?p"
    by (simp add: chat_full_def set_port_def chat_kern_def)
  show "pring_ok (k_ports chat_full ! 0)"
    "port_queue (k_ports chat_full ! 0) = [\<lparr>from_sid = 2, m_data = [7]\<rparr>, \<lparr>from_sid = 1, m_data = [9]\<rparr>]"
    unfolding e using ring_put_queue [OF q1(1)] n q1(2) by simp_all
  have p1: "kern_ok (set_port 0 (ring_put \<lparr>from_sid = 2, m_data = [7]\<rparr>) chat_kern)"
    by (rule put_ok [OF chat_ok]) (use chat_port_ok n in \<open>simp_all add: chat_state\<close>)
  show "kern_ok chat_full"
    unfolding chat_full_def
    by (rule put_ok [OF p1]) (use chat_port_ok n in \<open>simp_all add: chat_state set_port_def chat_kern_def\<close>)
qed

section \<open>Identity by name\<close>

lemma own_login:
  assumes "kern_ok st" "sched_alive st sid" "find_port (\<lambda>p. \<not> p_used p) st = Some i" "h0 < H_PER_SESS" "k_htab st ! sid ! h0 = None"
    "length name \<le> 15" "name \<noteq> []" "0 \<in> set name"
  obtains h st' where "port_create sid name st = (int h, st')" "kern_ok st'" "h < H_PER_SESS" "k_htab st' ! sid ! h = Some i"
    "k_ports st' ! i = own_port sid name (k_ports st ! i)" "k_sessions st' = k_sessions st"
proof -
  have l: "length (k_ports st) = 24" using assms(1) by (simp add: kern_ok_def)
  have i: "i < 24" "\<not> p_used (k_ports st ! i)" using find_portD(1) [OF assms(3)] l by simp_all
  have sid: "sid < 12" "sid \<noteq> 0" using alive_less [OF assms(2)] assms(2) by (auto simp: sched_alive_def)
  have "0 \<notin> set (cstr b)" for b :: bytes by (metis (mono_tags) cstr_def set_takeWhileD)
  then have "\<not> name_eq name b" for b using assms(8) by (auto simp: name_eq_iff)
  then have none: "find_port (\<lambda>p. p_used p \<and> name_eq name (p_name p)) st = None" by (simp add: find_port_def find_upt_None)
  let ?st1 = "set_port i (own_port sid name) st"
  have ok: "kern_ok ?st1"
    using kern_ok_port [OF assms(1)] i assms(6) by (auto intro!: set_port_ok own_port_wf assms(1))
  have "find (\<lambda>h. k_htab st ! sid ! h = None) [0..<16] \<noteq> None" using assms(4,5) by (auto simp: find_upt_None)
  then obtain h st' where t: "take_handle sid i ?st1 = Some (h, st')"
    by (auto simp: take_handle_def set_port_def Let_def)
  note r = take_handle_ok [OF ok t i(1) sid(1)]
  have "port_create sid name st = (int h, st')"
    using assms(2,3,6,7) sid none t by (simp add: port_create_def Let_def)
  then show ?thesis
    by (rule that) (use r i l in \<open>simp_all add: set_port_def\<close>)
qed

lemma set_identity_fields:
  assumes "sched_session_by_name st name = Some t"
  shows "sched_uid_of (sched_set_identity st t uid cm) t = uid" "sched_capmask_of (sched_set_identity st t uid cm) t = cm"
    "sched_uid_of (sched_set_capmask (sched_set_identity st t uid cm) t 0 cm src) t = uid"
    "sched_capmask_of (sched_set_capmask (sched_set_identity st t uid cm) t 0 cm src) t = cm"
proof -
  have t: "t < 12" "t < length (k_sessions st)" "s_state (k_sessions st ! t) \<noteq> S_FREE"
    using find_member [OF assms [unfolded sched_session_by_name_def]] by auto
  then have e: "sess st t = Some (k_sessions st ! t)" by (simp add: sess_def)
  show "sched_uid_of (sched_set_identity st t uid cm) t = uid" "sched_capmask_of (sched_set_identity st t uid cm) t = cm"
    "sched_uid_of (sched_set_capmask (sched_set_identity st t uid cm) t 0 cm src) t = uid"
    "sched_capmask_of (sched_set_capmask (sched_set_identity st t uid cm) t 0 cm src) t = cm"
    using t e by (simp_all add: sched_uid_of_def sched_capmask_of_def sched_set_identity_def sched_set_capmask_def sess_def)
qed

lemma create_sessions: "k_sessions (snd (port_create sid name st)) = k_sessions st"
  by (auto simp: port_create_def take_handle_def set_port_def Let_def split: option.splits)

section \<open>Properties\<close>



text \<open>C9: 
  A port is a queue.  Between two sessions on one port, along every sequence of sends and receives, the payloads
  received followed by those still queued are the payloads queued at first followed by those accepted: nothing is lost,
  duplicated, reordered or altered, up to the kernel's stamp in the header.
\<close>

theorem port_fifo:
  assumes "kport_ok i hdr sid h sid' h' st" "qrun (ksend disp hdr sid h) (krecv sid' h') ops st = (ins, outs, st')"
  shows "kqueue i st @ ins = outs @ kqueue i st' \<and> length (kqueue i st') \<le> MAX_Q"
proof -
  have "kport_ok i hdr sid h sid' h' st'" "kqueue i st @ ins = outs @ kqueue i st'" using kq.qrun_fifo [OF assms] by simp_all
  then show ?thesis by (simp add: kport_ok_def pring_ok_def kqueue_def)
qed


theorem port_fifo_witness:
  "\<exists>ins outs st'. qrun (ksend (\<lambda>ep sid h data st. st) (replicate 8 0) 2 0) (krecv 1 0) [QSend [5], QRecv, QSend [6]] chat_kern = (ins, outs, st') \<and>
     ins = outs @ kqueue 0 st'"
proof -
  have ok: "kport_ok 0 (replicate 8 0) 2 0 1 0 chat_kern"
    using chat_state chat_port_ok by (simp add: kport_ok_def) (simp add: chat_kern_def)
  obtain ins outs st' where r: "qrun (ksend (\<lambda>ep sid h data st. st) (replicate 8 0) 2 0) (krecv 1 0) [QSend [5], QRecv, QSend [6]] chat_kern = (ins, outs, st')"
    by (metis prod_cases3)
  have "kqueue 0 chat_kern = []" using chat_port_ok(3) by (simp add: kqueue_def chat_state(2))
  then show ?thesis using port_fifo [OF ok r] r by auto
qed
text \<open>
  A well-known name is bound with the capability only.  Without it, a handle that the bind import returns leads to a
  port that carries none of the reserved names.
\<close>

theorem bind_gated:
  assumes "kern_ok st" "owned_port_bind sid name st = (h, st')" "0 \<le> h" "and (sched_capmask_of st sid) SCHED_CAP_PORTBIND = 0"
  shows "\<exists>i. port_of st' sid h = Some i \<and> cstr (p_name (k_ports st' ! i)) \<notin> set kWellKnownNames"
proof -
  have b: "\<not> is_well_known_name name" "port_bind sid name st = (h, st')"
    using assms(2-4) by (auto simp: owned_port_bind_def split: if_splits)
  obtain i where "port_of st' sid h = Some i" "cstr (p_name (k_ports st' ! i)) = name"
    by (rule bind_result [OF assms(1) b(2) assms(3)])
  then show ?thesis using b(1) well_known_iff by auto
qed


theorem bind_gated_witness:
  "\<exists>h st' i. owned_port_bind 2 (str ''chat'') chat_kern = (h, st') \<and> 0 \<le> h \<and> port_of st' 2 h = Some i \<and>
     cstr (p_name (k_ports st' ! i)) \<notin> set kWellKnownNames"
proof -
  have f: "find_port (\<lambda>p. p_used p \<and> name_eq (str ''chat'') (p_name p)) chat_kern = Some 0"
    by (simp add: find_port_def chat_kern_def chat_port_def own_port_def fresh_port_def name_eq_iff go_copy_def str_def cstr_def)
       (simp add: upt_conv_Cons)
  have c: "sched_alive chat_kern 2" "and (sched_capmask_of chat_kern 2) SCHED_CAP_PORTBIND = 0"
    by (simp_all add: sched_alive_def sess_def sched_capmask_of_def chat_kern_def boot_fields)
  have t: "find (\<lambda>h. (Some 0 # replicate 15 None) ! h = (None :: nat option)) [0..<16] = Some 1"
    by (simp add: upt_conv_Cons)
  have w: "\<not> is_well_known_name (str ''chat'')" by (simp add: well_known_iff kWellKnownNames_def str_def)
  obtain st' where b: "owned_port_bind 2 (str ''chat'') chat_kern = (1, st')"
    using f c t w by (simp add: owned_port_bind_def port_bind_def take_handle_def Let_def) (simp add: chat_kern_def)
  show ?thesis using bind_gated [OF chat_ok b _ c(2)] b by auto
qed
text \<open>C34: 
  Killing a session stalls the ports it wrote to.  When the oldest message of a port comes from the killed session and
  another session's message waits behind it, the slot at the head is emptied but the head does not move: until the
  tail has come round, every receive finds nothing although messages are queued.
\<close>

theorem kill_stalls_port:
  assumes "kern_ok st" "i < MAX_PORTS" "p_used (k_ports st ! i)" "pring_ok (k_ports st ! i)" "port_queue (k_ports st ! i) = m # ms"
    and "from_sid m = sid" "m' \<in> set ms" "from_sid m' \<noteq> sid" "sched_kill sid by' st = (0, st')"
    and "length (m # ms) + sends ops \<le> MAX_Q" "qrun (pq_send s) pq_recv ops (k_ports st' ! i) = (ins, outs, p')"
  shows "outs = [] \<and> 0 < p_qn (k_ports st' ! i)"
proof -
  have "k_ports st' ! i = drain_port sid (k_ports st ! i)"
    using assms(1,2,9) by (auto simp: sched_kill_def ports_clear_session_handles_def ports_drain_session_def kern_ok_def Let_def
        split: if_splits)
  moreover have "head_hole (p_qn (k_ports st ! i)) (drain_port sid (k_ports st ! i))" by (rule drain_hole [OF assms(4,3,5,6)])
  moreover have "p_qn (k_ports st ! i) = length (m # ms)" using assms(5) length_port_queue [of "k_ports st ! i"] by simp
  moreover have "0 < p_qn (drain_port sid (k_ports st ! i))"
    by (rule drain_keeps [OF kern_ok_port [OF assms(1,2)] _ assms(8,4)]) (use assms(5,7) in simp)
  ultimately show ?thesis using hole_run [of "length (m # ms)" "k_ports st' ! i" ops s ins outs p'] assms(10,11) by simp
qed


theorem kill_stalls_port_witness:
  "\<exists>st' ins p'. sched_kill 2 1 chat_full = (0, st') \<and> qrun (pq_send 1) pq_recv [QRecv, QSend [8], QRecv] (k_ports st' ! 0) = (ins, [], p') \<and>
     0 < p_qn (k_ports st' ! 0)"
proof -
  have "k_sessions chat_full = k_sessions boot_kern" by (simp add: chat_full_def set_port_def chat_kern_def)
  then obtain st' where k: "sched_kill 2 1 chat_full = (0, st')"
    by (simp add: sched_kill_def sched_alive_def sess_def sched_capmask_of_def boot_fields Let_def)
  obtain ins outs p' where r: "qrun (pq_send 1) pq_recv [QRecv, QSend [8], QRecv] (k_ports st' ! 0) = (ins, outs, p')" by (metis prod_cases3)
  have "p_used (k_ports chat_full ! 0)" unfolding chat_full_state(1) by (simp add: chat_port_ok)
  from kill_stalls_port [OF chat_full_state(2) _ this chat_full_state(3,4) _ _ _ k _ r] k r show ?thesis by auto
qed
text \<open>C35: 
  The owner of the name login can be forged.  Any live session with a free handle, while a port slot is free, can
  create a port whose name continues with a zero byte, whether or not the login service owns the name already; the
  kernel then takes it for the login service, and it can give any running session any identity and any capabilities.
\<close>

theorem login_forgery:
  assumes "kern_ok st" "sched_alive st sid" "find_port (\<lambda>p. \<not> p_used p) st = Some i" "h0 < H_PER_SESS" "k_htab st ! sid ! h0 = None"
  shows "\<exists>h st'. owned_port_create sid (str ''login'' @ [0, 0x78]) st = (int h, st') \<and> sched_is_login st' sid \<and>
    (\<forall>payload t. 24 \<le> length payload \<and> sched_session_by_name st' (cstr (take 16 payload)) = Some t \<longrightarrow>
      (\<exists>st''. registry_login sid payload st' = (0, st'') \<and> sched_uid_of st'' t = Get32 (drop 16 payload) \<and>
        sched_capmask_of st'' t = ucast (Get32 (drop 20 payload))))"
proof -
  let ?n = "str ''login'' @ [0, 0x78]"
  have n: "length ?n \<le> 15" "?n \<noteq> []" "0 \<in> set ?n" by (simp_all add: str_def)
  obtain h st' where c: "port_create sid ?n st = (int h, st')" "kern_ok st'" "h < 16" "k_htab st' ! sid ! h = Some i"
    "k_ports st' ! i = own_port sid ?n (k_ports st ! i)" "k_sessions st' = k_sessions st"
    by (rule own_login [OF assms n])
  have i: "i < 24" "length (p_name (k_ports st ! i)) = 16"
    using find_portD(1) [OF assms(3)] assms(1) kern_ok_port [OF assms(1)] by (auto simp: kern_ok_def port_wf_def)
  have sid: "sid < 12" "sid \<noteq> 0" using alive_less [OF assms(2)] assms(2) by (auto simp: sched_alive_def)
  have "cstr (p_name (own_port sid ?n (k_ports st ! i))) = cstr (str ''login'' @ 0 # [0x78])"
    unfolding own_port_def using cstr_copy [OF i(2), of ?n] by (simp add: str_def)
  then have "cstr (p_name (k_ports st' ! i)) = cstr (str ''login'')" unfolding c(5) by simp
  moreover have "p_used (k_ports st' ! i)" "p_creator (k_ports st' ! i) = sid" unfolding c(5) by (simp_all add: own_port_def)
  ultimately have "sched_is_login st' sid"
    using sid c(3,4) i(1) by (auto simp: sched_is_login_def ports_name_owned_by_def list_ex_iff intro!: bexI [of _ h])
  moreover from this have "\<exists>st''. registry_login sid payload st' = (0, st'') \<and> sched_uid_of st'' t = Get32 (drop 16 payload) \<and>
        sched_capmask_of st'' t = ucast (Get32 (drop 20 payload))"
    if "24 \<le> length payload" "sched_session_by_name st' (cstr (take 16 payload)) = Some t" for payload t
    using that set_identity_fields [OF that(2)] by (simp add: registry_login_def Let_def)
  ultimately show ?thesis using c(1) by (auto simp: owned_port_create_def)
qed


theorem login_forgery_witness:
  "\<exists>h st' st''. owned_port_create 2 (str ''login'' @ [0, 0x78]) chat_kern = (int h, st') \<and> sched_is_login st' 2 \<and>
     registry_login 2 (str ''shell'' @ replicate 15 0 @ replicate 4 0xFF) st' = (0, st'') \<and> sched_uid_of st'' 2 = 0"
proof -
  have a: "sched_alive chat_kern 2" by (simp add: sched_alive_def sess_def chat_kern_def boot_fields)
  have f: "find_port (\<lambda>p. \<not> p_used p) chat_kern = Some 1"
    by (simp add: find_port_def chat_kern_def chat_port_def own_port_def) (simp add: upt_conv_Cons fresh_port_def)
  have h: "k_htab chat_kern ! 2 ! 1 = None" by (simp add: chat_kern_def)
  have l: "1 < (16 :: nat)" by simp
  let ?p = "str ''shell'' @ replicate 15 0 @ replicate 4 (0xFF :: byte)"
  have p: "24 \<le> length ?p" "cstr (take 16 ?p) = str ''shell''" "Get32 (drop 16 ?p) = 0" by code_simp+
  obtain h st' where c: "owned_port_create 2 (str ''login'' @ [0, 0x78]) chat_kern = (int h, st')" "sched_is_login st' 2"
    and g: "\<And>payload t. 24 \<le> length payload \<Longrightarrow> sched_session_by_name st' (cstr (take 16 payload)) = Some t \<Longrightarrow>
      \<exists>st''. registry_login 2 payload st' = (0, st'') \<and> sched_uid_of st'' t = Get32 (drop 16 payload)"
    using login_forgery [OF chat_ok a f l h] by metis
  have "k_sessions st' = k_sessions boot_kern"
    using create_sessions [of 2 "str ''login'' @ [0, 0x78]" chat_kern] c(1) by (simp add: owned_port_create_def chat_kern_def)
  then have "sched_session_by_name st' (cstr (take 16 ?p)) = Some 2"
    unfolding p(2) by (simp add: sched_session_by_name_def boot_fields upt_conv_Cons str_def cstr_def)
  from g [OF p(1) this] c p(3) show ?thesis by metis
qed
end
