(* ===== verification/Go_Text.thy ===== *)
theory Go_Text
  imports Fs_Server_Props Net_Codec
begin

text \<open>
  The functions of Go's \<^verbatim>\<open>strings\<close>, \<^verbatim>\<open>strconv\<close> and \<^verbatim>\<open>encoding/hex\<close> packages that the configuration parsers use,
  on arbitrary bytes.  White space is what \<^verbatim>\<open>unicode.IsSpace\<close> accepts, as the list of its UTF-8
  encodings: none of them starts inside another encoding, so scanning bytes and scanning runes agree.
\<close>

section \<open>White space\<close>

definition spaces :: "bytes list" where
  "spaces = map (\<lambda>c. [c]) [9, 10, 11, 12, 13, 32] @ [[0xC2, 0x85], [0xC2, 0xA0], [0xE1, 0x9A, 0x80]] @
     map (\<lambda>c. [0xE2, 0x80, c]) [0x80, 0x81, 0x82, 0x83, 0x84, 0x85, 0x86, 0x87, 0x88, 0x89, 0x8A, 0xA8, 0xA9, 0xAF] @
     [[0xE2, 0x81, 0x9F], [0xE3, 0x80, 0x80]]"

definition HasSuffix :: "bytes \<Rightarrow> bytes \<Rightarrow> bool" where
  "HasSuffix s p \<longleftrightarrow> length p \<le> length s \<and> drop (length s - length p) s = p"

definition space_at :: "bytes \<Rightarrow> bytes option" where
  "space_at s = find (\<lambda>e. HasPrefix s e) spaces"

definition space_end :: "bytes \<Rightarrow> bytes option" where
  "space_end s = find (\<lambda>e. HasSuffix s e) spaces"

lemma find_SomeD: "find P xs = Some x \<Longrightarrow> x \<in> set xs \<and> P x"
  by (auto simp: find_Some_iff)

lemma spaces_nonempty: "e \<in> set spaces \<Longrightarrow> e \<noteq> []"
  by (auto simp: spaces_def)

lemma space_at_Some: "space_at s = Some e \<Longrightarrow> e \<in> set spaces \<and> HasPrefix s e \<and> 0 < length e \<and> length e \<le> length s"
proof -
  assume "space_at s = Some e"
  then have e: "e \<in> set spaces" "HasPrefix s e" unfolding space_at_def by (auto dest: find_SomeD)
  then have "length (take (length e) s) = length e" unfolding HasPrefix_def by simp
  then have "length e \<le> length s" by simp
  then show ?thesis using e spaces_nonempty by blast
qed

lemma space_end_Some: "space_end s = Some e \<Longrightarrow> e \<in> set spaces \<and> HasSuffix s e \<and> 0 < length e \<and> length e \<le> length s"
proof -
  assume "space_end s = Some e"
  then have "e \<in> set spaces" "HasSuffix s e" unfolding space_end_def by (auto dest: find_SomeD)
  then show ?thesis using spaces_nonempty by (simp add: HasSuffix_def)
qed

lemma space_shrinks:
  "space_at s = Some e \<Longrightarrow> length s - length e < length s"
  "space_end s = Some e \<Longrightarrow> length s - length e < length s"
  using space_at_Some space_end_Some by (meson diff_less less_le_trans)+

function trim_left :: "bytes \<Rightarrow> bytes" where
  "trim_left s = (case space_at s of None \<Rightarrow> s | Some e \<Rightarrow> trim_left (drop (length e) s))"
  by pat_completeness auto
termination
proof (relation "measure length")
  fix s e
  assume "space_at s = Some e"
  from space_shrinks(1) [OF this] show "(drop (length e) s, s) \<in> measure length" by simp
qed simp

function trim_right :: "bytes \<Rightarrow> bytes" where
  "trim_right s = (case space_end s of None \<Rightarrow> s | Some e \<Rightarrow> trim_right (take (length s - length e) s))"
  by pat_completeness auto
termination
proof (relation "measure length")
  fix s e
  assume "space_end s = Some e"
  from space_shrinks(2) [OF this] show "(take (length s - length e) s, s) \<in> measure length" by simp
qed simp

declare trim_left.simps [simp del] trim_right.simps [simp del]

definition TrimSpace :: "bytes \<Rightarrow> bytes" where
  "TrimSpace s = trim_right (trim_left s)"

text \<open>\<^verbatim>\<open>strings.Fields\<close>: \<^verbatim>\<open>cur\<close> is the field being read, in reverse order.\<close>

function fields_loop :: "bytes \<Rightarrow> bytes \<Rightarrow> bytes list" where
  "fields_loop cur s =
     (case space_at s of
        Some e \<Rightarrow> (if cur = [] then [] else [rev cur]) @ fields_loop [] (drop (length e) s)
      | None \<Rightarrow> (case s of [] \<Rightarrow> (if cur = [] then [] else [rev cur]) | c # s' \<Rightarrow> fields_loop (c # cur) s'))"
  by pat_completeness auto
termination
proof (relation "measure (length \<circ> snd)")
  fix cur s e
  assume "space_at s = Some (e::bytes)"
  from space_shrinks(1) [OF this] show "(([], drop (length e) s), cur, s) \<in> measure (length \<circ> snd)" by simp
qed simp_all

declare fields_loop.simps [simp del]

definition Fields :: "bytes \<Rightarrow> bytes list" where
  "Fields s = fields_loop [] s"

section \<open>Splitting and joining\<close>

text \<open>\<^verbatim>\<open>strings.SplitN\<close> at a byte into at most \<^verbatim>\<open>n\<close> parts, for positive \<^verbatim>\<open>n\<close>.\<close>

fun SplitN :: "byte \<Rightarrow> nat \<Rightarrow> bytes \<Rightarrow> bytes list" where
  "SplitN sep 0 s = []"
| "SplitN sep (Suc 0) s = [s]"
| "SplitN sep (Suc n) s =
     (if sep \<in> set s then takeWhile (\<lambda>c. c \<noteq> sep) s # SplitN sep n (tl (dropWhile (\<lambda>c. c \<noteq> sep) s)) else [s])"

fun Join :: "bytes list \<Rightarrow> byte \<Rightarrow> bytes" where
  "Join [] sep = []"
| "Join [x] sep = x"
| "Join (x # xs) sep = x @ sep # Join xs sep"

definition IndexByte :: "bytes \<Rightarrow> byte \<Rightarrow> nat option" where
  "IndexByte s c = (if c \<in> set s then Some (length (takeWhile (\<lambda>x. x \<noteq> c) s)) else None)"

section \<open>Numbers and hexadecimal text\<close>

text \<open>\<^verbatim>\<open>strconv.ParseUint\<close> with an explicit base and bit size: any error is \<^term>\<open>None\<close>.\<close>

definition digit_val :: "byte \<Rightarrow> nat option" where
  "digit_val c = map_option unat (hexVal c)"

fun digits_val :: "nat \<Rightarrow> nat \<Rightarrow> bytes \<Rightarrow> nat option" where
  "digits_val base v [] = Some v"
| "digits_val base v (c # cs) =
     (case digit_val c of None \<Rightarrow> None | Some d \<Rightarrow> if d < base then digits_val base (v * base + d) cs else None)"

definition ParseUint :: "bytes \<Rightarrow> nat \<Rightarrow> nat \<Rightarrow> nat option" where
  "ParseUint s base bits =
     (if s = [] then None
      else case digits_val base 0 s of None \<Rightarrow> None | Some v \<Rightarrow> if v < 2 ^ bits then Some v else None)"

fun format_loop :: "nat \<Rightarrow> nat \<Rightarrow> bytes \<Rightarrow> bytes" where
  "format_loop base v acc =
     (if v = 0 \<or> base < 2 then acc else format_loop base (v div base) ((hexdigits ! (v mod base)) # acc))"

declare format_loop.simps [simp del]

definition FormatUint :: "nat \<Rightarrow> nat \<Rightarrow> bytes" where
  "FormatUint v base = (if v = 0 then [0x30] else format_loop base v [])"

definition EncodeToString :: "bytes \<Rightarrow> bytes" where
  "EncodeToString bs = concat (map (\<lambda>b. [hexdigits ! unat (drop_bit 4 b), hexdigits ! unat (b AND 0xf)]) bs)"

text \<open>\<^verbatim>\<open>hex.DecodeString\<close>: an odd length or a byte that is no digit is an error.\<close>

fun DecodeString :: "bytes \<Rightarrow> bytes option" where
  "DecodeString [] = Some []"
| "DecodeString [c] = None"
| "DecodeString (a # b # s) =
     (case (hexVal a, hexVal b, DecodeString s) of
        (Some hi, Some lo, Some r) \<Rightarrow> Some ((push_bit 4 hi OR lo) # r)
      | _ \<Rightarrow> None)"

section \<open>Trimmed text\<close>

definition trimmed :: "bytes \<Rightarrow> bool" where
  "trimmed s \<longleftrightarrow> (\<forall>e \<in> set spaces. \<not> HasPrefix s e \<and> \<not> HasSuffix s e)"

lemma space_None: "space_at s = None \<longleftrightarrow> (\<forall>e \<in> set spaces. \<not> HasPrefix s e)" "space_end s = None \<longleftrightarrow> (\<forall>e \<in> set spaces. \<not> HasSuffix s e)"
  by (auto simp: space_at_def space_end_def find_None_iff)

lemma TrimSpace_id: "trimmed s \<Longrightarrow> TrimSpace s = s"
proof -
  assume "trimmed s"
  then have "space_at s = None" "space_end s = None" by (simp_all add: trimmed_def space_None)
  then show ?thesis by (simp add: TrimSpace_def trim_left.simps trim_right.simps)
qed

lemma trim_left_at: "space_at (trim_left s) = None"
  by (induction s rule: trim_left.induct) (subst trim_left.simps, simp split: option.split)

lemma trim_right_end: "space_end (trim_right s) = None"
  by (induction s rule: trim_right.induct) (subst trim_right.simps, simp split: option.split)

lemma trim_right_prefix: "\<exists>t. s = trim_right s @ t"
proof (induction s rule: trim_right.induct)
  case (1 s)
  show ?case
  proof (cases "space_end s")
    case None
    then show ?thesis by (subst trim_right.simps) simp
  next
    case (Some e)
    obtain t where t: "take (length s - length e) s = trim_right (take (length s - length e) s) @ t" using 1 [OF Some] by blast
    have "s = take (length s - length e) s @ drop (length s - length e) s" by simp
    also have "\<dots> = trim_right (take (length s - length e) s) @ t @ drop (length s - length e) s"
      using t by (metis append.assoc)
    finally show ?thesis using Some trim_right.simps [of s] by auto
  qed
qed

lemma trim_left_suffix: "\<exists>t. s = t @ trim_left s"
proof (induction s rule: trim_left.induct)
  case (1 s)
  show ?case
  proof (cases "space_at s")
    case None
    then show ?thesis by (subst trim_left.simps) simp
  next
    case (Some e)
    obtain t where t: "drop (length e) s = t @ trim_left (drop (length e) s)" using 1 [OF Some] by blast
    have "s = (take (length e) s @ t) @ trim_left (drop (length e) s)" using t by (metis append.assoc append_take_drop_id)
    then show ?thesis using Some trim_left.simps [of s] by (metis option.simps(5))
  qed
qed

lemma HasPrefix_iff: "HasPrefix s e \<longleftrightarrow> (\<exists>t. s = e @ t)"
  unfolding HasPrefix_def by (metis append_eq_conv_conj append_take_drop_id)

lemma HasSuffix_iff: "HasSuffix s e \<longleftrightarrow> (\<exists>t. s = t @ e)"
proof
  assume "HasSuffix s e"
  then show "\<exists>t. s = t @ e" unfolding HasSuffix_def by (metis append_take_drop_id)
qed (auto simp: HasSuffix_def)

lemma TrimSpace_trimmed: "trimmed (TrimSpace s)"
proof -
  obtain t where t: "trim_left s = TrimSpace s @ t" using trim_right_prefix unfolding TrimSpace_def by blast
  have "\<not> HasPrefix (TrimSpace s) e" if "e \<in> set spaces" for e
  proof
    assume "HasPrefix (TrimSpace s) e"
    then have "HasPrefix (trim_left s) e" unfolding HasPrefix_iff t by auto
    then show False using that trim_left_at [of s] by (auto simp: space_None)
  qed
  then show ?thesis using trim_right_end [of "trim_left s"] unfolding trimmed_def by (auto simp: space_None TrimSpace_def)
qed

lemma TrimSpace_set: "set (TrimSpace s) \<subseteq> set s"
proof -
  obtain t where "trim_left s = TrimSpace s @ t" using trim_right_prefix unfolding TrimSpace_def by blast
  moreover obtain u where "s = u @ trim_left s" using trim_left_suffix by blast
  ultimately have "s = u @ TrimSpace s @ t" by simp
  then show ?thesis by (metis Un_upper1 Un_upper2 set_append subset_trans)
qed

text \<open>Text between a delimiter that is no part of white space: whether it is trimmed depends on its ends only.\<close>

lemma prefix_before_delim:
  assumes "a @ c # b = e @ t" "c \<notin> set e"
  shows "\<exists>u. a = e @ u"
  using assms by (auto simp: append_eq_append_conv2 Cons_eq_append_conv)

lemma suffix_after_delim:
  assumes "a @ c # b = t @ e" "c \<notin> set e"
  shows "\<exists>u. b = u @ e"
  using assms by (auto simp: append_eq_append_conv2 Cons_eq_append_conv append_eq_Cons_conv)

lemma trimmed_ends:
  assumes "trimmed (a @ c # m @ c # b)" "\<forall>e \<in> set spaces. c \<notin> set e"
  shows "trimmed (a @ c # m' @ c # b)"
  unfolding trimmed_def
proof (intro ballI conjI notI)
  fix e assume e: "e \<in> set spaces"
  { assume "HasPrefix (a @ c # m' @ c # b) e"
    then obtain t where "a @ c # m' @ c # b = e @ t" by (auto simp: HasPrefix_iff)
    then obtain u where "a = e @ u" using prefix_before_delim e assms(2) by metis
    then have "HasPrefix (a @ c # m @ c # b) e" by (auto simp: HasPrefix_iff)
    then show False using assms(1) e by (simp add: trimmed_def) }
  { assume "HasSuffix (a @ c # m' @ c # b) e"
    then obtain t where "(a @ c # m') @ c # b = t @ e" by (auto simp: HasSuffix_iff)
    then obtain u where "b = u @ e" using suffix_after_delim e assms(2) by metis
    then have "HasSuffix (a @ c # m @ c # b) e" unfolding HasSuffix_iff by (metis append.assoc append_Cons)
    then show False using assms(1) e by (simp add: trimmed_def) }
qed

section \<open>Splitting what was joined\<close>

lemma split_on_Join:
  assumes "xs \<noteq> []" "\<forall>x \<in> set xs. sep \<notin> set x"
  shows "split_on sep (Join xs sep) = xs"
  using assms by (induction xs sep rule: Join.induct) (auto simp: split_on_app split_on_none)

lemma split_on_no_sep: "x \<in> set (split_on sep s) \<Longrightarrow> sep \<notin> set x"
  by (induction sep s arbitrary: x rule: split_on.induct) (auto split: if_splits list.splits)

lemma split_on_nonempty [simp]: "split_on sep s \<noteq> []"
  by (induction sep s rule: split_on.induct) (auto split: list.splits)

lemma Join_split_on: "Join (split_on sep s) sep = s"
proof (induction sep s rule: split_on.induct)
  case (2 sep x xs)
  then obtain y ys where y: "split_on sep xs = y # ys" by (cases "split_on sep xs") auto
  have "Join (a # b # zs) sep = a @ sep # Join (b # zs) sep" for a b zs by simp
  then show ?case using 2 y by (cases ys) auto
qed simp

lemma SplitN_4:
  "SplitN sep 4 s = [a, b, c, d] \<longleftrightarrow> s = a @ sep # b @ sep # c @ sep # d \<and> sep \<notin> set a \<and> sep \<notin> set b \<and> sep \<notin> set c"
proof -
  have cut: "sep \<in> set s \<Longrightarrow> s = takeWhile (\<lambda>x. x \<noteq> sep) s @ sep # tl (dropWhile (\<lambda>x. x \<noteq> sep) s)" for s
    by (induction s) auto
  have no: "sep \<notin> set (takeWhile (\<lambda>x. x \<noteq> sep) s)" for s by (auto dest: set_takeWhileD)
  have tk: "sep \<notin> set x \<Longrightarrow> takeWhile (\<lambda>x. x \<noteq> sep) (x @ sep # y) = x \<and> tl (dropWhile (\<lambda>x. x \<noteq> sep) (x @ sep # y)) = y" for x y
    by (induction x) auto
  have n: "(4::nat) = Suc (Suc (Suc (Suc 0)))" by simp
  show ?thesis
  proof
    assume "SplitN sep 4 s = [a, b, c, d]"
    then show "s = a @ sep # b @ sep # c @ sep # d \<and> sep \<notin> set a \<and> sep \<notin> set b \<and> sep \<notin> set c"
      unfolding n using cut no by (auto split: if_splits)
  next
    assume "s = a @ sep # b @ sep # c @ sep # d \<and> sep \<notin> set a \<and> sep \<notin> set b \<and> sep \<notin> set c"
    then show "SplitN sep 4 s = [a, b, c, d]" unfolding n using tk by auto
  qed
qed

section \<open>Digits\<close>

lemma hexdigits_nth: "n < 16 \<Longrightarrow> hexdigits ! n \<in> set hexdigits" "length hexdigits = 16"
proof -
  show l: "length hexdigits = 16" by (simp add: hexdigits_def str_def)
  show "n < 16 \<Longrightarrow> hexdigits ! n \<in> set hexdigits" using l by (metis nth_mem)
qed

lemma nibble_less: "unat (drop_bit 4 (b::byte)) < 16" "unat (b AND 15) < 16"
  using nibbles(1,2) [of b] by (simp_all add: word_le_nat_alt)

lemma EncodeToString_set: "set (EncodeToString bs) \<subseteq> set hexdigits"
  using hexdigits_nth nibble_less by (auto simp: EncodeToString_def)

lemma FormatUint_set: "set (FormatUint v 16) \<subseteq> set hexdigits"
proof -
  have "set (format_loop 16 v acc) \<subseteq> set hexdigits \<union> set acc" for v acc
  proof (induction "16::nat" v acc rule: format_loop.induct)
    case (1 v acc)
    show ?case using 1 hexdigits_nth(1) [of "v mod 16"] by (subst format_loop.simps) auto
  qed
  from this [of v "[]"] show ?thesis by (simp add: FormatUint_def hexdigits_def str_def)
qed

lemma DecodeString_EncodeToString: "DecodeString (EncodeToString bs) = Some bs"
proof (induction bs)
  case (Cons b bs)
  then show ?case using nibbles(3) [of b] by (simp add: EncodeToString_def hex_nibbles)
qed (simp add: EncodeToString_def)

lemma EncodeToString_inj: "EncodeToString a = EncodeToString b \<longleftrightarrow> a = b"
  by (metis DecodeString_EncodeToString option.inject)

end
