(* ===== verification/Crypto_Sha256.thy ===== *)
theory Crypto_Sha256
  imports Net_Wire "HOL-Library.Monad_Syntax"
begin

text \<open>
  The two implementations of SHA-256 in the tree: the kernel's streaming one (\<^verbatim>\<open>core/sha256.cc\<close>: a
  context with a 64-byte buffer that any number of updates fill) and the shell's one-shot routine
  (\<^verbatim>\<open>services/shell/sha256.go\<close>, which hashes whole blocks out of its input and builds the padding in a
  128-byte tail).  Both are proved equal to the padding and block chaining of FIPS 180-4, which is what the Go
  standard library's \<^verbatim>\<open>crypto/sha256\<close> computes for the login service.
\<close>

section \<open>The kernel's streaming implementation\<close>

record sha256_ctx =
  c_h :: "u32 list"
  c_len :: u64
  c_buf :: bytes
  c_buflen :: u32

definition rotr :: "u32 \<Rightarrow> nat \<Rightarrow> u32" where
  "rotr x n = drop_bit n x OR push_bit (32 - n) x"

definition K_sha256 :: "u32 list" where
  "K_sha256 = concat [
   [0x428a2f98, 0x71374491, 0xb5c0fbcf, 0xe9b5dba5, 0x3956c25b, 0x59f111f1],
   [0x923f82a4, 0xab1c5ed5, 0xd807aa98, 0x12835b01, 0x243185be, 0x550c7dc3],
   [0x72be5d74, 0x80deb1fe, 0x9bdc06a7, 0xc19bf174, 0xe49b69c1, 0xefbe4786],
   [0x0fc19dc6, 0x240ca1cc, 0x2de92c6f, 0x4a7484aa, 0x5cb0a9dc, 0x76f988da],
   [0x983e5152, 0xa831c66d, 0xb00327c8, 0xbf597fc7, 0xc6e00bf3, 0xd5a79147],
   [0x06ca6351, 0x14292967, 0x27b70a85, 0x2e1b2138, 0x4d2c6dfc, 0x53380d13],
   [0x650a7354, 0x766a0abb, 0x81c2c92e, 0x92722c85, 0xa2bfe8a1, 0xa81a664b],
   [0xc24b8b70, 0xc76c51a3, 0xd192e819, 0xd6990624, 0xf40e3585, 0x106aa070],
   [0x19a4c116, 0x1e376c08, 0x2748774c, 0x34b0bcb5, 0x391c0cb3, 0x4ed8aa4a],
   [0x5b9cca4f, 0x682e6ff3, 0x748f82ee, 0x78a5636f, 0x84c87814, 0x8cc70208],
   [0x90befffa, 0xa4506ceb, 0xbef9a3f7, 0xc67178f2]]"

definition sha256_word :: "bytes \<Rightarrow> nat \<Rightarrow> u32" where
  "sha256_word p i = push_bit 24 (ucast (p ! (4 * i))) OR push_bit 16 (ucast (p ! (4 * i + 1))) OR
     push_bit 8 (ucast (p ! (4 * i + 2))) OR ucast (p ! (4 * i + 3))"

definition sha256_schedule :: "bytes \<Rightarrow> u32 list" where
  "sha256_schedule p =
     fold (\<lambda>i w. let s0 = rotr (w ! (i - 15)) 7 XOR rotr (w ! (i - 15)) 18 XOR drop_bit 3 (w ! (i - 15));
                     s1 = rotr (w ! (i - 2)) 17 XOR rotr (w ! (i - 2)) 19 XOR drop_bit 10 (w ! (i - 2))
                 in w @ [w ! (i - 16) + s0 + w ! (i - 7) + s1])
       [16..<64] (map (sha256_word p) [0..<16])"

fun sha256_round :: "u32 list \<Rightarrow> nat \<Rightarrow> u32 list \<Rightarrow> u32 list" where
  "sha256_round w i [a, b, c0, d, e, f, g, h] =
     (let S1 = rotr e 6 XOR rotr e 11 XOR rotr e 25;
          ch = (e AND f) XOR (NOT e AND g);
          t1 = h + S1 + ch + K_sha256 ! i + w ! i;
          S0 = rotr a 2 XOR rotr a 13 XOR rotr a 22;
          mj = (a AND b) XOR (a AND c0) XOR (b AND c0);
          t2 = S0 + mj
      in [t1 + t2, a, b, c0, d + t1, e, f, g])"
| "sha256_round w i v = v"

definition sha256_block :: "sha256_ctx \<Rightarrow> bytes \<Rightarrow> sha256_ctx" where
  "sha256_block c p =
     (let w = sha256_schedule p
      in c\<lparr>c_h := map2 (+) (c_h c) (fold (sha256_round w) [0..<64] (c_h c))\<rparr>)"

definition sha256_init :: "sha256_ctx \<Rightarrow> sha256_ctx" where
  "sha256_init c = c\<lparr>
     c_h := [0x6a09e667, 0xbb67ae85, 0x3c6ef372, 0xa54ff53a, 0x510e527f, 0x9b05688c, 0x1f83d9ab, 0x5be0cd19],
     c_len := 0, c_buflen := 0\<rparr>"

text \<open>The loop of an update: it ends because the buffer always has room; that it does is proved, not built in.\<close>

partial_function (option) sha256_fill :: "sha256_ctx \<Rightarrow> bytes \<Rightarrow> sha256_ctx option" where
  "sha256_fill c data =
     (if data = [] then Some c
      else let n = min (unat (64 - c_buflen c)) (length data);
               c = c\<lparr>c_buf := go_copy (c_buf c) (unat (c_buflen c)) (take n data), c_buflen := c_buflen c + of_nat n\<rparr>;
               c = (if c_buflen c = 64 then (sha256_block c (c_buf c))\<lparr>c_buflen := 0\<rparr> else c)
           in sha256_fill c (drop n data))"

declare sha256_fill.simps [code]

definition sha256_update :: "sha256_ctx \<Rightarrow> bytes \<Rightarrow> sha256_ctx option" where
  "sha256_update c data = sha256_fill (c\<lparr>c_len := c_len c + of_nat (length data)\<rparr>) data"

partial_function (option) sha256_zeros :: "sha256_ctx \<Rightarrow> sha256_ctx option" where
  "sha256_zeros c = (if c_buflen c = 56 then Some c else do { c \<leftarrow> sha256_update c [0]; sha256_zeros c })"

declare sha256_zeros.simps [code]

definition be64 :: "u64 \<Rightarrow> bytes" where
  "be64 v = map (\<lambda>i. ucast (drop_bit (56 - 8 * i) v)) [0..<8]"

definition sha256_final :: "sha256_ctx \<Rightarrow> (bytes \<times> sha256_ctx) option" where
  "sha256_final c =
     (let bitlen = c_len c * 8
      in do {
        c \<leftarrow> sha256_update c [0x80];
        c \<leftarrow> sha256_zeros c;
        let c = c\<lparr>c_buf := go_copy (c_buf c) 56 (be64 bitlen)\<rparr>;
        let c = (sha256_block c (c_buf c))\<lparr>c_buflen := 0\<rparr>;
        Some (concat (map be32 (c_h c)), c)
      })"

definition sha256_once :: "sha256_ctx \<Rightarrow> bytes \<Rightarrow> bytes option" where
  "sha256_once c data =
     do { c \<leftarrow> sha256_update (sha256_init c) data; (out, c) \<leftarrow> sha256_final c; Some out }"

section \<open>The shell's one-shot implementation\<close>

text \<open>The scratch array \<^verbatim>\<open>w\<close> the caller passes in is filled before it is read: it is local here.\<close>

definition sha256K :: "u32 list" where
  "sha256K = concat [
   [0x428a2f98, 0x71374491, 0xb5c0fbcf, 0xe9b5dba5, 0x3956c25b, 0x59f111f1, 0x923f82a4, 0xab1c5ed5],
   [0xd807aa98, 0x12835b01, 0x243185be, 0x550c7dc3, 0x72be5d74, 0x80deb1fe, 0x9bdc06a7, 0xc19bf174],
   [0xe49b69c1, 0xefbe4786, 0x0fc19dc6, 0x240ca1cc, 0x2de92c6f, 0x4a7484aa, 0x5cb0a9dc, 0x76f988da],
   [0x983e5152, 0xa831c66d, 0xb00327c8, 0xbf597fc7, 0xc6e00bf3, 0xd5a79147, 0x06ca6351, 0x14292967],
   [0x27b70a85, 0x2e1b2138, 0x4d2c6dfc, 0x53380d13, 0x650a7354, 0x766a0abb, 0x81c2c92e, 0x92722c85],
   [0xa2bfe8a1, 0xa81a664b, 0xc24b8b70, 0xc76c51a3, 0xd192e819, 0xd6990624, 0xf40e3585, 0x106aa070],
   [0x19a4c116, 0x1e376c08, 0x2748774c, 0x34b0bcb5, 0x391c0cb3, 0x4ed8aa4a, 0x5b9cca4f, 0x682e6ff3],
   [0x748f82ee, 0x78a5636f, 0x84c87814, 0x8cc70208, 0x90befffa, 0xa4506ceb, 0xbef9a3f7, 0xc67178f2]]"

definition sha256Rotr :: "u32 \<Rightarrow> nat \<Rightarrow> u32" where
  "sha256Rotr x n = drop_bit n x OR push_bit (32 - n) x"

fun sha256GoRound :: "u32 list \<Rightarrow> nat \<Rightarrow> u32 list \<Rightarrow> u32 list" where
  "sha256GoRound w i [a, b, c, d, e, f, g, hh] =
     (let s1 = sha256Rotr e 6 XOR sha256Rotr e 11 XOR sha256Rotr e 25;
          ch = (e AND f) XOR (NOT e AND g);
          t1 = hh + s1 + ch + sha256K ! i + w ! i;
          s0 = sha256Rotr a 2 XOR sha256Rotr a 13 XOR sha256Rotr a 22;
          maj = (a AND b) XOR (a AND c) XOR (b AND c);
          t2 = s0 + maj
      in [t1 + t2, a, b, c, d + t1, e, f, g])"
| "sha256GoRound w i v = v"

definition sha256Block :: "u32 list \<Rightarrow> bytes \<Rightarrow> u32 list" where
  "sha256Block h block =
     (let w = map (\<lambda>i. BeGet32 (drop (i * 4) block)) [0..<16];
          w = fold (\<lambda>i w. let s0 = sha256Rotr (w ! (i - 15)) 7 XOR sha256Rotr (w ! (i - 15)) 18 XOR drop_bit 3 (w ! (i - 15));
                              s1 = sha256Rotr (w ! (i - 2)) 17 XOR sha256Rotr (w ! (i - 2)) 19 XOR drop_bit 10 (w ! (i - 2))
                          in w @ [w ! (i - 16) + s0 + w ! (i - 7) + s1]) [16..<64] w
      in map2 (+) h (fold (sha256GoRound w) [0..<64] h))"

function sha256Blocks :: "u32 list \<Rightarrow> bytes \<Rightarrow> u32 list \<times> bytes" where
  "sha256Blocks h data =
     (if 64 \<le> length data then sha256Blocks (sha256Block h (take 64 data)) (drop 64 data) else (h, data))"
  by pat_completeness auto
termination by (relation "measure (length \<circ> snd)") auto

declare sha256Blocks.simps [simp del]

definition sha256Sum256 :: "bytes \<Rightarrow> bytes" where
  "sha256Sum256 data =
     (let h = [0x6a09e667, 0xbb67ae85, 0x3c6ef372, 0xa54ff53a, 0x510e527f, 0x9b05688c, 0x1f83d9ab, 0x5be0cd19];
          total = length data;
          (h, left) = sha256Blocks h data;
          tail = go_copy (replicate 128 0) 0 left;
          rest = min 128 (length left);
          tail = tail[rest := 0x80];
          h = (if rest + 1 + 8 \<le> 64
               then let tail = go_copy tail 56 (be64 (of_nat total * 8)) in sha256Block h (take 64 tail)
               else let tail = go_copy tail 120 (be64 (of_nat total * 8))
                    in sha256Block (sha256Block h (take 64 tail)) (drop 64 tail))
      in concat (map be32 h))"

section \<open>The reference\<close>

text \<open>FIPS 180-4: pad the message with one bit, zeros and its length in bits to whole blocks, chain the blocks.\<close>

definition compress :: "u32 list \<Rightarrow> bytes \<Rightarrow> u32 list" where
  "compress h p = map2 (+) h (fold (sha256_round (sha256_schedule p)) [0..<64] h)"

function absorb :: "u32 list \<Rightarrow> bytes \<Rightarrow> u32 list" where
  "absorb h m = (if 64 \<le> length m then absorb (compress h (take 64 m)) (drop 64 m) else h)"
  by pat_completeness auto
termination by (relation "measure (length \<circ> snd)") auto

declare absorb.simps [simp del]

definition sha256_H0 :: "u32 list" where
  "sha256_H0 = [0x6a09e667, 0xbb67ae85, 0x3c6ef372, 0xa54ff53a, 0x510e527f, 0x9b05688c, 0x1f83d9ab, 0x5be0cd19]"

definition pad_zeros :: "nat \<Rightarrow> nat" where
  "pad_zeros n = (119 - n mod 64) mod 64"

definition Sum256 :: "bytes \<Rightarrow> bytes" where
  "Sum256 m = concat (map be32 (absorb sha256_H0 (m @ [0x80] @ replicate (pad_zeros (length m)) 0 @ be64 (of_nat (length m) * 8))))"

section \<open>Blocks\<close>

lemma block_compress: "sha256_block c p = c\<lparr>c_h := compress (c_h c) p\<rparr>"
  by (simp add: sha256_block_def compress_def)

lemma goRotr_eq: "sha256Rotr = rotr"
  by (intro ext) (simp add: sha256Rotr_def rotr_def)

lemma goK_eq: "sha256K = K_sha256"
  by (simp add: sha256K_def K_sha256_def)

lemma GoRound_eq: "sha256GoRound = sha256_round"
proof (intro ext)
  show "sha256GoRound w i v = sha256_round w i v" for w i v
    by (induction w i v rule: sha256_round.induct) (simp_all only: sha256GoRound.simps sha256_round.simps goRotr_eq goK_eq)
qed

lemma goBlock_compress: "length p = 64 \<Longrightarrow> sha256Block h p = compress h p"
proof -
  assume "length p = 64"
  then have "BeGet32 (drop (i * 4) p) = sha256_word p i" if "i < 16" for i
    using that by (simp add: BeGet32_def sha256_word_def mult.commute [of 4])
  then have "map (\<lambda>i. BeGet32 (drop (i * 4) p)) [0..<16] = map (sha256_word p) [0..<16]"
    by (intro map_cong refl) (simp only: set_upt atLeastLessThan_iff)
  then show ?thesis by (simp only: sha256Block_def compress_def sha256_schedule_def Let_def goRotr_eq GoRound_eq)
qed

lemma be64_len [simp]: "length (be64 v) = 8"
  by (simp add: be64_def)

lemma absorb_short [simp]: "length m < 64 \<Longrightarrow> absorb h m = h"
  by (simp add: absorb.simps)

lemma absorb_block [simp]: "length p = 64 \<Longrightarrow> absorb h (p @ m) = absorb (compress h p) m"
  by (subst absorb.simps) simp

lemma absorb_two: "length p = 128 \<Longrightarrow> absorb h p = compress (compress h (take 64 p)) (drop 64 p)"
  by (simp add: absorb.simps)

lemma absorb_append: "64 dvd length w \<Longrightarrow> absorb h (w @ m) = absorb (absorb h w) m"
proof (induction h w rule: absorb.induct)
  case (1 h w)
  show ?case
  proof (cases "64 \<le> length w")
    case True
    then have d: "64 dvd length (drop 64 w)" using 1(2) by (simp add: dvd_diff_nat)
    have w: "w = take 64 w @ drop 64 w" "length (take 64 w) = 64" using True by simp_all
    show ?thesis
      using 1(1) [OF True d] w absorb_block [OF w(2), of h "drop 64 w @ m"] absorb_block [OF w(2), of h "drop 64 w"]
      by (metis append_assoc)
  next
    case False
    then have "w = []" using 1(2) by (auto dest: dvd_imp_le)
    then show ?thesis by simp
  qed
qed

lemma sha256Blocks_eq:
  "\<exists>w r. data = w @ r \<and> 64 dvd length w \<and> length r < 64 \<and> sha256Blocks h data = (absorb h w, r)"
proof (induction h data rule: sha256Blocks.induct)
  case (1 h data)
  show ?case
  proof (cases "64 \<le> length data")
    case True
    then obtain w r where i: "drop 64 data = w @ r" "64 dvd length w" "length r < 64"
      "sha256Blocks (sha256Block h (take 64 data)) (drop 64 data) = (absorb (sha256Block h (take 64 data)) w, r)"
      using 1 [OF True] by blast
    have d: "data = (take 64 data @ w) @ r" using i(1) by (metis append_assoc append_take_drop_id)
    moreover have "sha256Blocks h data = (absorb h (take 64 data @ w), r)"
      using True i(4) by (subst sha256Blocks.simps) (simp add: goBlock_compress)
    moreover have "64 dvd length (take 64 data @ w)" using i(2) True by simp
    ultimately show ?thesis using i(3) by blast
  next
    case False
    then show ?thesis by (intro exI [of _ "[]"] exI [of _ data]) (simp add: sha256Blocks.simps)
  qed
qed

section \<open>The context of the streaming implementation\<close>

text \<open>What a context stands for: the whole blocks of the message are in the chaining value, the rest is in the buffer.\<close>

definition holds :: "sha256_ctx \<Rightarrow> bytes \<Rightarrow> bool" where
  "holds c m \<longleftrightarrow> (\<exists>w r. m = w @ r \<and> 64 dvd length w \<and> length r < 64 \<and> c_h c = absorb sha256_H0 w \<and>
     unat (c_buflen c) = length r \<and> length (c_buf c) = 64 \<and> take (length r) (c_buf c) = r)"

lemma holds_init: "length (c_buf c) = 64 \<Longrightarrow> holds (sha256_init c) []"
  by (simp add: holds_def sha256_init_def sha256_H0_def)

lemma holds_len [simp]: "holds (c\<lparr>c_len := n\<rparr>) m = holds c m"
  by (simp add: holds_def)

lemma holds_buflen: "holds c m \<Longrightarrow> unat (c_buflen c) = length m mod 64"
  by (auto simp: holds_def dvd_def)

lemma fill_step:
  assumes "holds c m" "n = min (unat (64 - c_buflen c)) (length data)" "data \<noteq> []"
    and "c1 = c\<lparr>c_buf := go_copy (c_buf c) (unat (c_buflen c)) (take n data), c_buflen := c_buflen c + of_nat n\<rparr>"
    and "c2 = (if c_buflen c1 = 64 then (sha256_block c1 (c_buf c1))\<lparr>c_buflen := 0\<rparr> else c1)"
  shows "0 < n \<and> holds c2 (m @ take n data) \<and> c_len c2 = c_len c"
proof -
  obtain w r where m: "m = w @ r" "64 dvd length w" "length r < 64" "c_h c = absorb sha256_H0 w"
    "unat (c_buflen c) = length r" "length (c_buf c) = 64" "take (length r) (c_buf c) = r"
    using assms(1) by (auto simp: holds_def)
  have "unat (64 - c_buflen c) = 64 - length r"
    using m(3,5) by (subst unat_sub) (simp_all add: word_le_nat_alt)
  then have n: "n = min (64 - length r) (length data)" using assms(2) by simp
  then have l: "0 < n" "length r + n \<le> 64" "length (take n data) = n" using m(3) assms(3) by auto
  have bl: "unat (c_buflen c1) = length r + n"
    using l(2) m(5) assms(4) by (simp add: unat_word_ariths unat_of_nat)
  have full: "c_buflen c1 = 64 \<longleftrightarrow> length r + n = 64"
    using bl by (simp add: word_unat_eq_iff)
  have buf: "length (c_buf c1) = 64" "take (length r + n) (c_buf c1) = r @ take n data"
    using m(5,6,7) l(2,3) assms(4) by (simp_all add: go_copy_exact)
  have "holds c2 (m @ take n data)"
  proof (cases "length r + n = 64")
    case True
    then have b: "c_buf c1 = r @ take n data" using buf by simp
    have "absorb sha256_H0 (w @ (r @ take n data)) = compress (absorb sha256_H0 w) (r @ take n data)"
      using absorb_append [OF m(2)] absorb_block [of "r @ take n data" "absorb sha256_H0 w" "[]"] b buf(1) by simp
    then have "c_h c2 = absorb sha256_H0 (m @ take n data)" "c_buflen c2 = 0" "length (c_buf c2) = 64"
      using True full b buf(1) m(1,4) assms(4,5) by (simp_all add: block_compress)
    then show ?thesis unfolding holds_def using m(1,2) True l(3)
      by (intro exI [of _ "m @ take n data"] exI [of _ "[]"]) (simp add: add.assoc)
  next
    case False
    then show ?thesis unfolding holds_def using full m bl buf l assms(4,5)
      by (intro exI [of _ w] exI [of _ "r @ take n data"]) simp
  qed
  then show ?thesis using l(1) assms(4,5) by (simp add: block_compress)
qed

lemma fill_ok: "holds c m \<Longrightarrow> \<exists>c'. sha256_fill c data = Some c' \<and> holds c' (m @ data) \<and> c_len c' = c_len c"
proof (induction "length data" arbitrary: c m data rule: less_induct)
  case less
  show ?case
  proof (cases "data = []")
    case True
    then show ?thesis using less(2) by (subst sha256_fill.simps) simp
  next
    case False
    let ?n = "min (unat (64 - c_buflen c)) (length data)"
    let ?c1 = "c\<lparr>c_buf := go_copy (c_buf c) (unat (c_buflen c)) (take ?n data), c_buflen := c_buflen c + of_nat ?n\<rparr>"
    let ?c2 = "if c_buflen ?c1 = 64 then (sha256_block ?c1 (c_buf ?c1))\<lparr>c_buflen := 0\<rparr> else ?c1"
    note st = fill_step [OF less(2) refl False refl refl]
    have "length (drop ?n data) < length data" using st False by simp
    from less(1) [OF this st [THEN conjunct2, THEN conjunct1]] show ?thesis
      using False st by (subst sha256_fill.simps) (simp add: Let_def)
  qed
qed

lemma update_ok:
  "holds c m \<Longrightarrow> \<exists>c'. sha256_update c data = Some c' \<and> holds c' (m @ data) \<and> c_len c' = c_len c + of_nat (length data)"
  using fill_ok [of "c\<lparr>c_len := c_len c + of_nat (length data)\<rparr>" m data] by (simp add: sha256_update_def)

lemma zeros_ok:
  "\<lbrakk>holds c m; (length m + k) mod 64 = 56; k < 64\<rbrakk> \<Longrightarrow> \<exists>c'. sha256_zeros c = Some c' \<and> holds c' (m @ replicate k 0)"
proof (induction k arbitrary: c m)
  case 0
  then have "c_buflen c = 56" using holds_buflen [OF 0(1)] by (simp add: word_unat_eq_iff)
  then show ?case using 0(1) by (subst sha256_zeros.simps) simp
next
  case (Suc k)
  have "length m mod 64 \<noteq> 56"
  proof
    assume "length m mod 64 = 56"
    then have "(56 + Suc k) mod 64 = 56" using Suc(3) mod_add_left_eq [of "length m" 64 "Suc k"] by simp
    then show False using Suc(4) by (cases "Suc k < 8") (simp_all add: le_mod_geq)
  qed
  then have n: "c_buflen c \<noteq> 56" using holds_buflen [OF Suc(2)] by (auto simp: word_unat_eq_iff)
  obtain c1 where u: "sha256_update c [0] = Some c1" "holds c1 (m @ [0])" using update_ok [OF Suc(2)] by blast
  have "\<exists>c'. sha256_zeros c1 = Some c' \<and> holds c' ((m @ [0]) @ replicate k 0)"
    using Suc(3,4) by (intro Suc(1) [OF u(2)]) simp_all
  then show ?case using n u(1) by (subst sha256_zeros.simps) simp
qed

section \<open>Agreement\<close>

lemma pad_zeros_eq: "length m mod 64 = n \<Longrightarrow> pad_zeros (length m) = (if n \<le> 55 then 55 - n else 119 - n)"
proof -
  assume n: "length m mod 64 = n"
  then have "n < 64" by auto
  then show ?thesis using n by (auto simp: pad_zeros_def le_mod_geq)
qed

lemma pad_zeros_mod: "(Suc (length m) + pad_zeros (length m)) mod 64 = 56" "pad_zeros (length m) < 64"
proof -
  define n where "n = length m mod 64"
  have k: "pad_zeros (length m) = (if n \<le> 55 then 55 - n else 119 - n)" by (rule pad_zeros_eq) (simp add: n_def)
  have n: "n < 64" by (simp add: n_def)
  have "(Suc (length m) + pad_zeros (length m)) mod 64 = (n + Suc (pad_zeros (length m))) mod 64"
    unfolding n_def using mod_add_left_eq [of "length m" 64 "Suc (pad_zeros (length m))"] by simp
  then show "(Suc (length m) + pad_zeros (length m)) mod 64 = 56" using k n by auto
  show "pad_zeros (length m) < 64" using k n by auto
qed

lemma final_ok:
  assumes "holds c m" "c_len c = of_nat (length m)"
  shows "\<exists>c'. sha256_final c = Some (Sum256 m, c')"
proof -
  let ?k = "pad_zeros (length m)"
  let ?b = "be64 (of_nat (length m) * 8)"
  obtain c1 where u: "sha256_update c [0x80] = Some c1" "holds c1 (m @ [0x80])" using update_ok [OF assms(1)] by blast
  obtain c2 where z: "sha256_zeros c1 = Some c2" "holds c2 ((m @ [0x80]) @ replicate ?k 0)"
    using zeros_ok [OF u(2), of ?k] pad_zeros_mod by auto
  obtain w r where h: "(m @ [0x80]) @ replicate ?k 0 = w @ r" "64 dvd length w" "length r < 64" "c_h c2 = absorb sha256_H0 w"
    "length (c_buf c2) = 64" "take (length r) (c_buf c2) = r"
    using z(2) by (auto simp: holds_def)
  have "length r = length (w @ r) mod 64" using h(2,3) by (auto simp: dvd_def)
  also have "\<dots> = 56" using pad_zeros_mod(1) [of m] by (simp flip: h(1))
  finally have r: "length r = 56" .
  then have b: "go_copy (c_buf c2) 56 ?b = r @ ?b" using h(5,6) by (simp add: go_copy_exact)
  have "absorb sha256_H0 ((w @ r) @ ?b) = compress (absorb sha256_H0 w) (r @ ?b)"
    using absorb_append [OF h(2), of sha256_H0 "r @ ?b"] absorb_block [of "r @ ?b" "absorb sha256_H0 w" "[]"] r by simp
  then have "Sum256 m = concat (map be32 (compress (absorb sha256_H0 w) (r @ ?b)))"
    unfolding Sum256_def h(1) [symmetric] by simp
  then show ?thesis using u(1) z(1) b h(4) assms(2) by (simp add: sha256_final_def block_compress Let_def)
qed

lemma Sum256_go: "sha256Sum256 m = Sum256 m"
proof -
  let ?b = "be64 (of_nat (length m) * 8)"
  let ?k = "pad_zeros (length m)"
  obtain w r where m: "m = w @ r" "64 dvd length w" "length r < 64" "sha256Blocks sha256_H0 m = (absorb sha256_H0 w, r)"
    using sha256Blocks_eq by blast
  let ?tail = "r @ 0x80 # replicate (127 - length r) 0"
  have t: "(go_copy (replicate 128 0) 0 r)[length r := 0x80] = ?tail"
  proof -
    have "128 - length r = Suc (127 - length r)" using m(3) by simp
    then show ?thesis using m(3) by (simp add: go_copy_def list_update_append)
  qed
  have rest: "min 128 (length r) = length r" using m(3) by simp
  have k: "?k = (if length r \<le> 55 then 55 - length r else 119 - length r)"
    by (rule pad_zeros_eq) (use m(1,2,3) in \<open>auto simp: dvd_def\<close>)
  let ?p = "r @ 0x80 # replicate ?k 0 @ ?b"
  have s: "Sum256 m = concat (map be32 (absorb (absorb sha256_H0 w) ?p))"
    using absorb_append [OF m(2), of sha256_H0 ?p] m(1) by (simp add: Sum256_def)
  show ?thesis
  proof (cases "length r \<le> 55")
    case True
    then have "56 - length r = Suc (55 - length r)" "64 - length r = Suc (63 - length r)" "63 - length r - (55 - length r) = 8" by simp_all
    then have "take 64 (go_copy ?tail 56 ?b) = ?p" using True k by (simp add: go_copy_exact)
    moreover have "length ?p = 64" using True k by simp
    moreover have "sha256Sum256 m = concat (map be32 (sha256Block (absorb sha256_H0 w) (take 64 (go_copy ?tail 56 ?b))))"
      using True by (simp only: sha256Sum256_def sha256_H0_def [symmetric] m(4) Let_def prod.case rest t) simp_all
    ultimately show ?thesis
      using s absorb_block [of ?p "absorb sha256_H0 w" "[]"] by (simp only: goBlock_compress append_Nil2) simp
  next
    case False
    have "120 - length r = Suc (119 - length r)" using m(3) by simp
    then have p: "go_copy ?tail 120 ?b = ?p" "length ?p = 128" using False k m(3) by (simp_all add: go_copy_exact)
    have "sha256Sum256 m = concat (map be32 (sha256Block (sha256Block (absorb sha256_H0 w) (take 64 ?p)) (drop 64 ?p)))"
      using False by (simp only: sha256Sum256_def sha256_H0_def [symmetric] m(4) Let_def prod.case rest t p(1)) simp_all
    then show ?thesis using s absorb_two [OF p(2)] p(2) by (simp add: goBlock_compress del: take_append drop_append)
  qed
qed

text \<open>C13: The two implementations of SHA-256 agree.  However a message is cut into updates, the kernel's streaming
  implementation terminates and yields the digest the shell's one-shot routine computes, and both are the
  digest of FIPS 180-4.\<close>

theorem sha256_agree:
  assumes "length (c_buf c) = 64"
  shows "\<exists>c1 c2. fold (\<lambda>d s. Option.bind s (\<lambda>c. sha256_update c d)) ds (Some (sha256_init c)) = Some c1 \<and>
    sha256_final c1 = Some (sha256Sum256 (concat ds), c2) \<and> sha256Sum256 (concat ds) = Sum256 (concat ds)"
proof -
  have "\<exists>c1. fold (\<lambda>d s. Option.bind s (\<lambda>c. sha256_update c d)) ds (Some c) = Some c1 \<and> holds c1 (m @ concat ds) \<and>
      c_len c1 = of_nat (length (m @ concat ds))" if "holds c m" "c_len c = of_nat (length m)" for c m
    using that
  proof (induction ds arbitrary: c m)
    case (Cons d ds)
    obtain c1 where c1: "sha256_update c d = Some c1" "holds c1 (m @ d)" "c_len c1 = of_nat (length (m @ d))"
      using update_ok [OF Cons.prems(1), of d] Cons.prems(2) by auto
    show ?case using Cons.IH [OF c1(2,3)] c1(1) by simp
  qed simp
  from this [OF holds_init [OF assms]] show ?thesis
    using final_ok Sum256_go by (fastforce simp: sha256_init_def)
qed

theorem sha256_agree_witness:
  "\<exists>c1 c2. fold (\<lambda>d s. Option.bind s (\<lambda>c. sha256_update c d)) [str ''ab'', str ''c'']
     (Some (sha256_init \<lparr>c_h = [], c_len = 0, c_buf = replicate 64 7, c_buflen = 9\<rparr>)) = Some c1 \<and>
     sha256_final c1 = Some (sha256Sum256 (str ''abc''), c2)"
  using sha256_agree [of "\<lparr>c_h = [], c_len = 0, c_buf = replicate 64 7, c_buflen = 9\<rparr>" "[str ''ab'', str ''c'']"]
  by (auto simp: str_def)

end
