(* ===== verification/Login.thy ===== *)
theory Login
  imports Go_Text Crypto_Sha256
begin

text \<open>
  The login service (\<^verbatim>\<open>services/login/login.go\<close>): the table of users, password verification and the answer to an AUTH
  request.  What the service does to the kernel and to other services is the list of its effects in order; the
  outcomes of the calls that can fail (binding the reply port, spawning the shell) are arguments; a registration with the file server is the attempt, whose
  outcome changes nothing but a console line.  Console lines
  and the polling for the shell's port inside \<^verbatim>\<open>focusShell\<close> are left out.
\<close>

section \<open>Users\<close>

record User =
  u_Name :: bytes
  u_UID :: u32
  u_Mask :: u64
  u_Salt :: bytes
  u_Hash :: bytes

abbreviation (input) CapFocus :: u64 where "CapFocus \<equiv> 8"
abbreviation (input) CapPortBind :: u64 where "CapPortBind \<equiv> 0x1000"
abbreviation (input) CapAll :: u64 where "CapAll \<equiv> 0x1FFF"

definition DefaultUsers :: "User list" where
  "DefaultUsers =
     [\<lparr>u_Name = str ''admin'', u_UID = 0, u_Mask = CapAll, u_Salt = [], u_Hash = []\<rparr>,
      \<lparr>u_Name = str ''u1'', u_UID = 1001, u_Mask = CapFocus OR CapFSAdmin, u_Salt = [], u_Hash = []\<rparr>,
      \<lparr>u_Name = str ''u2'', u_UID = 1002, u_Mask = CapFocus OR CapFSAdmin, u_Salt = [], u_Hash = []\<rparr>]"

definition splitSalted :: "bytes \<Rightarrow> bytes \<times> bytes" where
  "splitSalted s = (case IndexByte s 0x24 of None \<Rightarrow> ([], s) | Some i \<Rightarrow> (take i s, drop (i + 1) s))"

text \<open>One line of \<^verbatim>\<open>/etc/users\<close>: \<^term>\<open>None\<close> where the loop of \<^verbatim>\<open>parseEtcUsers\<close> continues without a user.\<close>

definition parse_user_line :: "bytes \<Rightarrow> User option" where
  "parse_user_line ln =
     (let line = TrimSpace ln
      in if line = [] \<or> HasPrefix line (str ''#'') then None
         else case SplitN 0x3A 4 line of
             [name, uid, saltedHash, capmask] \<Rightarrow>
               (case ParseUint uid 10 32 of
                  None \<Rightarrow> None
                | Some u \<Rightarrow>
                    (case ParseUint (TrimPrefix (TrimSpace capmask) (str ''0x'')) 16 64 of
                       None \<Rightarrow> None
                     | Some m \<Rightarrow>
                         let (salt, hash) = splitSalted saltedHash
                         in Some \<lparr>u_Name = name, u_UID = of_nat u, u_Mask = of_nat m, u_Salt = salt, u_Hash = hash\<rparr>))
           | _ \<Rightarrow> None)"

definition parseEtcUsers :: "bytes \<Rightarrow> User list" where
  "parseEtcUsers text = List.map_filter parse_user_line (split_on 10 text)"

text \<open>\<^verbatim>\<open>readUsers\<close>: one read into a buffer of 8192 bytes; the argument is what the file holds, if it can be read.\<close>

definition readUsers :: "bytes option \<Rightarrow> User list option" where
  "readUsers file = map_option (\<lambda>text. parseEtcUsers (take 8192 text)) file"

definition verifyPassword :: "User \<Rightarrow> bytes \<Rightarrow> bool" where
  "verifyPassword u password \<longleftrightarrow> u_Salt u = [] \<or> EncodeToString (Sum256 (u_Salt u @ password)) = u_Hash u"

definition lookup_user :: "User list \<Rightarrow> bytes \<Rightarrow> User option" where
  "lookup_user users name = find (\<lambda>u. u_Name u = name) users"

section \<open>The AUTH request\<close>

abbreviation (input) opAuth :: u16 where "opAuth \<equiv> 1"
abbreviation (input) opFSRegister :: u16 where "opFSRegister \<equiv> 8"
abbreviation (input) statusOK :: u32 where "statusOK \<equiv> 0"
abbreviation (input) statusBad :: u32 where "statusBad \<equiv> 0xFFFFFFFF"
abbreviation (input) spawnNone :: u32 where "spawnNone \<equiv> 0xFFFFFFFF"

definition lbyte :: "bytes \<Rightarrow> bytes \<times> nat" where
  "lbyte b =
     (if length b < 1 then ([], 0)
      else let n = unat (b ! 0) in if 1 + n > length b then ([], 0) else (take n (drop 1 b), 1 + n))"

definition appendStatus :: "bytes \<Rightarrow> u32 \<Rightarrow> u64 \<Rightarrow> u32 \<Rightarrow> bytes" where
  "appendStatus rep status capmask sid =
     (let tail = replicate 16 0;
          tail = Put32 tail 0 status;
          tail = Put64 tail 4 capmask;
          tail = Put32 tail 12 sid
      in rep @ tail)"

datatype auth_effect =
    EfBind bytes
  | EfSpawn bytes bytes u64 bytes
  | EfLogin bytes u32 u64
  | EfFocusShell
  | EfRegisterFS bytes
  | EfSend int bytes

definition registerFS_payload :: "User \<Rightarrow> bytes" where
  "registerFS_payload u =
     (let pl = Put32 (replicate 4 0) 0 (u_UID u);
          pl = AppendLStr pl (u_Name u)
      in pl @ Put64 (replicate 8 0) 0 (u_Mask u))"

definition doSpawn :: "u32 option \<Rightarrow> bytes \<Rightarrow> User \<Rightarrow> u32 \<times> auth_effect list" where
  "doSpawn spawned shell u =
     (let capmask = u_Mask u OR CapPortBind;
          call = EfSpawn shell shell capmask (str ''/home/'' @ u_Name u)
      in case spawned of
           None \<Rightarrow> (spawnNone, [call])
         | Some sid \<Rightarrow> (sid, [call, EfLogin shell (u_UID u) capmask]))"

definition kernAuth :: "bytes \<Rightarrow> User list \<Rightarrow> bytes \<Rightarrow> int option \<Rightarrow> u32 option \<Rightarrow> auth_effect list" where
  "kernAuth req users shell bound spawned =
     (case ParseHeader req of
        None \<Rightarrow> []
      | Some hdr \<Rightarrow>
          if h_Op hdr \<noteq> opAuth \<or> h_RNam hdr = [] then []
          else
            let payload = drop CanonicalHeaderLen req;
                (name, n2) = lbyte payload;
                (pass, _) = lbyte (drop n2 payload)
            in EfBind (h_RNam hdr) #
               (case bound of
                  None \<Rightarrow> []
                | Some rh \<Rightarrow>
                    let rep = replicate CanonicalHeaderLen 0;
                        rep = Put16 rep 0 (h_Op hdr);
                        rep = Put16 rep 2 (h_Seq hdr);
                        refuse = [EfSend rh (appendStatus rep statusBad 0 spawnNone)]
                    in case lookup_user users name of
                         None \<Rightarrow> refuse
                       | Some u \<Rightarrow>
                           if u_Mask u = 0 then refuse
                           else if \<not> verifyPassword u pass then refuse
                           else
                             let (sid, es) = doSpawn spawned shell u
                             in es @ [EfLogin (h_RNam hdr) (u_UID u) (u_Mask u OR CapPortBind), EfFocusShell,
                                  EfRegisterFS (registerFS_payload u), EfSend rh (appendStatus rep statusOK (u_Mask u) sid)]))"

text \<open>One turn of \<^verbatim>\<open>Serve\<close> with the table read from the file system: the last good table is kept.\<close>

definition login_turn :: "bytes option \<Rightarrow> bytes \<Rightarrow> bytes \<Rightarrow> int option \<Rightarrow> u32 option \<Rightarrow> User list \<Rightarrow> auth_effect list \<times> User list" where
  "login_turn file dgram shell bound spawned users =
     (if length dgram > 8
      then let users = (case readUsers file of Some (u # us) \<Rightarrow> u # us | _ \<Rightarrow> users)
           in (kernAuth dgram users shell bound spawned, users)
      else ([], users))"

definition login_start :: "bytes option \<Rightarrow> User list" where
  "login_start file = (case readUsers file of Some (u # us) \<Rightarrow> u # us | _ \<Rightarrow> DefaultUsers)"

end
