(* ===== verification/Login_Props.thy ===== *)
theory Login_Props
  imports Login
begin

text \<open>
  What the login service guarantees: no identity is granted without a verified password, and what it registers with
  the file server is what the file server's policy then works with; and what a row without a salt means.
\<close>

section \<open>Authentication\<close>

fun grants :: "auth_effect \<Rightarrow> bool" where
  "grants (EfSpawn _ _ _ _) = True"
| "grants (EfLogin _ _ _) = True"
| "grants (EfRegisterFS _) = True"
| "grants _ = False"

definition auth_name :: "bytes \<Rightarrow> bytes" where
  "auth_name req = fst (lbyte (drop 24 req))"

definition auth_pass :: "bytes \<Rightarrow> bytes" where
  "auth_pass req = fst (lbyte (drop (snd (lbyte (drop 24 req))) (drop 24 req)))"

lemma kernAuth_granting:
  assumes "x \<in> set (kernAuth req users shell bound spawned)" "grants x"
  shows "\<exists>hdr u rh sid es. ParseHeader req = Some hdr \<and> lookup_user users (auth_name req) = Some u \<and> u_Mask u \<noteq> 0 \<and>
    verifyPassword u (auth_pass req) \<and> doSpawn spawned shell u = (sid, es) \<and>
    kernAuth req users shell bound spawned =
      EfBind (h_RNam hdr) # es @ [EfLogin (h_RNam hdr) (u_UID u) (u_Mask u OR CapPortBind), EfFocusShell,
        EfRegisterFS (registerFS_payload u),
        EfSend rh (appendStatus (Put16 (Put16 (replicate 24 0) 0 (h_Op hdr)) 2 (h_Seq hdr)) statusOK (u_Mask u) sid)]"
proof -
  obtain hdr where h: "ParseHeader req = Some hdr" using assms by (cases "ParseHeader req") (auto simp: kernAuth_def)
  have o: "h_Op hdr = opAuth" "h_RNam hdr \<noteq> []" using assms(1) h by (auto simp: kernAuth_def split: if_splits)
  obtain name n2 where l1: "lbyte (drop 24 req) = (name, n2)" by fastforce
  obtain pass n3 where l2: "lbyte (drop n2 (drop 24 req)) = (pass, n3)" by fastforce
  have np: "auth_name req = name" "auth_pass req = pass" using l1 l2 by (simp_all add: auth_name_def auth_pass_def)
  obtain rh where b: "bound = Some rh" using assms h o l1 l2 by (cases bound) (auto simp: kernAuth_def)
  obtain u where u: "lookup_user users name = Some u"
    using assms h o l1 l2 b by (cases "lookup_user users name") (auto simp: kernAuth_def)
  have v: "u_Mask u \<noteq> 0" "verifyPassword u pass"
    using assms h o l1 l2 b u by (auto simp: kernAuth_def Let_def split: if_splits)
  obtain sid es where d: "doSpawn spawned shell u = (sid, es)" by fastforce
  show ?thesis unfolding np kernAuth_def using h o l1 l2 b u v d by (auto simp: Let_def)
qed

lemma lookup_user_Some: "lookup_user users name = Some u \<Longrightarrow> u \<in> set users \<and> u_Name u = name"
  by (auto simp: lookup_user_def find_Some_iff)

lemma doSpawn_effects:
  "doSpawn spawned shell u = (sid, es) \<Longrightarrow>
   set es \<subseteq> {EfSpawn shell shell (u_Mask u OR CapPortBind) (str ''/home/'' @ u_Name u), EfLogin shell (u_UID u) (u_Mask u OR CapPortBind)}"
  by (auto simp: doSpawn_def Let_def split: option.splits)

text \<open>C11: The login service grants nothing without authentication.  If, whatever the request and whatever the outcomes of
  its calls, it spawns a shell, sets an identity or registers a user, then the request names a row of
  the table with a non-empty capability mask and its password verifies against that row; every identity set is that
  row's uid with that row's capabilities and the right to bind ports; and the attempt to register with the file server
  precedes the one reply, which is the last effect.\<close>

theorem auth_grants:
  assumes "x \<in> set (kernAuth req users shell bound spawned)" "grants x"
  shows "\<exists>u \<in> set users. u_Name u = auth_name req \<and> u_Mask u \<noteq> 0 \<and> verifyPassword u (auth_pass req) \<and>
    (\<forall>n uid m. EfLogin n uid m \<in> set (kernAuth req users shell bound spawned) \<longrightarrow> uid = u_UID u \<and> m = u_Mask u OR CapPortBind) \<and>
    (\<exists>pre rh rep. kernAuth req users shell bound spawned = pre @ [EfRegisterFS (registerFS_payload u), EfSend rh rep] \<and>
       (\<forall>h d. EfSend h d \<notin> set pre))"
proof -
  from kernAuth_granting [OF assms] obtain hdr :: HeaderView and u rh sid es where k: "lookup_user users (auth_name req) = Some u" "u_Mask u \<noteq> 0"
    "verifyPassword u (auth_pass req)" "doSpawn spawned shell u = (sid, es)"
    "kernAuth req users shell bound spawned =
      EfBind (h_RNam hdr) # es @ [EfLogin (h_RNam hdr) (u_UID u) (u_Mask u OR CapPortBind), EfFocusShell,
        EfRegisterFS (registerFS_payload u),
        EfSend rh (appendStatus (Put16 (Put16 (replicate 24 0) 0 (h_Op hdr)) 2 (h_Seq hdr)) statusOK (u_Mask u) sid)]"
    by blast
  let ?pre = "EfBind (h_RNam hdr) # es @ [EfLogin (h_RNam hdr) (u_UID u) (u_Mask u OR CapPortBind), EfFocusShell]"
  have e: "\<exists>rep. kernAuth req users shell bound spawned = ?pre @ [EfRegisterFS (registerFS_payload u), EfSend rh rep]"
    using k(5) by simp
  have "\<forall>h d. EfSend h d \<notin> set ?pre" using doSpawn_effects [OF k(4)] by auto
  moreover have "\<forall>n uid m. EfLogin n uid m \<in> set (kernAuth req users shell bound spawned) \<longrightarrow> uid = u_UID u \<and> m = u_Mask u OR CapPortBind"
    unfolding k(5) using doSpawn_effects [OF k(4)] by auto
  ultimately show ?thesis using e k(2,3) lookup_user_Some [OF k(1)] by blast
qed

definition auth_request :: bytes where
  "auth_request = stamp_uid 1001 (FrameCanonical opAuth 5 (str ''sh'') ([5] @ str ''admin'' @ [2] @ str ''pw''))"

lemma auth_request_fields:
  "ParseHeader auth_request = Some \<lparr>h_Op = 1, h_Seq = 5, h_UID = 1001, h_RNam = str ''sh''\<rparr>"
  "auth_name auth_request = str ''admin''" "auth_pass auth_request = str ''pw''"
proof -
  have n: "length (str ''sh'') \<le> 16" "0 \<notin> set (str ''sh'')" by (simp_all add: str_def)
  note h = ParseHeader_FrameCanonical [OF n, of 1001 opAuth 5 "[5] @ str ''admin'' @ [2] @ str ''pw''", folded auth_request_def]
  show "ParseHeader auth_request = Some \<lparr>h_Op = 1, h_Seq = 5, h_UID = 1001, h_RNam = str ''sh''\<rparr>" by (rule h(1))
  show "auth_name auth_request = str ''admin''" "auth_pass auth_request = str ''pw''"
    unfolding auth_name_def auth_pass_def h(2) by (simp_all add: lbyte_def str_def)
qed

lemma auth_default:
  "kernAuth auth_request DefaultUsers (str ''shell'') (Some 3) None =
    [EfBind (str ''sh''), EfSpawn (str ''shell'') (str ''shell'') CapAll (str ''/home/admin''),
     EfLogin (str ''sh'') 0 CapAll, EfFocusShell, EfRegisterFS (registerFS_payload (DefaultUsers ! 0)),
     EfSend 3 (appendStatus (Put16 (Put16 (replicate 24 0) 0 1) 2 5) 0 CapAll 0xFFFFFFFF)]"
proof -
  obtain n2 where l: "lbyte (drop 24 auth_request) = (str ''admin'', n2)"
    using auth_request_fields(2) by (metis auth_name_def fst_conv surj_pair)
  obtain n3 where l2: "lbyte (drop n2 (drop 24 auth_request)) = (str ''pw'', n3)"
    using auth_request_fields(3) l by (metis auth_pass_def fst_conv snd_conv surj_pair)
  show ?thesis
    unfolding kernAuth_def auth_request_fields(1) using l l2
    by (simp add: Let_def lookup_user_def DefaultUsers_def verifyPassword_def doSpawn_def str_def)
qed

theorem auth_grants_witness:
  "\<exists>u \<in> set DefaultUsers. u_Name u = str ''admin'' \<and> verifyPassword u (str ''pw'') \<and>
     (\<forall>n uid m. EfLogin n uid m \<in> set (kernAuth auth_request DefaultUsers (str ''shell'') (Some 3) None) \<longrightarrow> uid = u_UID u)"
proof -
  have "EfLogin (str ''sh'') 0 CapAll \<in> set (kernAuth auth_request DefaultUsers (str ''shell'') (Some 3) None)"
    by (simp add: auth_default)
  from auth_grants [OF this] show ?thesis unfolding auth_request_fields by auto
qed

section \<open>Registration with the file server\<close>

lemma registerSession_payload:
  assumes "u_Name u \<noteq> []" "length (u_Name u) \<le> 32"
  shows "registerSession (registerFS_payload u) ss =
    (FSOK, ss(u_UID u \<mapsto> \<lparr>ss_name = ToLower (u_Name u), ss_mask = u_Mask u\<rparr>))"
proof -
  have p: "registerFS_payload u = AppendLStr (le32 (u_UID u)) (u_Name u) @ le64 (u_Mask u)"
    by (simp add: registerFS_payload_def Put32_def Put64_def)
  have l: "LStr (registerFS_payload u) 4 = Some (u_Name u, 6 + length (u_Name u))"
    unfolding p using LStr_framed [of "u_Name u" "le32 (u_UID u)" "le64 (u_Mask u)"] assms(2) by simp
  have d: "drop (6 + length (u_Name u)) (registerFS_payload u) = le64 (u_Mask u)"
    "Get32 (registerFS_payload u) = u_UID u" "length (registerFS_payload u) = 14 + length (u_Name u)"
    unfolding p by (simp_all add: AppendLStr_def)
  show ?thesis using assms l d by (simp add: registerSession_def)
qed



section \<open>Rows without a salt\<close>

definition row_a :: bytes where
  "row_a = str ''a:0:5e:1''"

lemma row_a_parts:
  "TrimSpace row_a = row_a" "\<not> HasPrefix row_a (str ''#'')" "SplitN 0x3A 4 row_a = [str ''a'', str ''0'', str ''5e'', str ''1'']"
  "TrimSpace (str ''1'') = str ''1''" "ParseUint (str ''0'') 10 32 = Some 0"
  "ParseUint (TrimPrefix (str ''1'') (str ''0x'')) 16 64 = Some 1" "row_a \<noteq> []" "10 \<notin> set row_a"
proof -
  have "trimmed row_a" "trimmed (str ''1'')" by (simp_all add: trimmed_def spaces_def HasPrefix_def HasSuffix_def str_def row_a_def)
  then show "TrimSpace row_a = row_a" "TrimSpace (str ''1'') = str ''1''" by (simp_all add: TrimSpace_id)
  show "SplitN 0x3A 4 row_a = [str ''a'', str ''0'', str ''5e'', str ''1'']" unfolding SplitN_4 by (simp add: str_def row_a_def)
qed (simp_all add: ParseUint_def digit_val_def hexVal_def TrimPrefix_def HasPrefix_def str_def row_a_def)

lemma row_a_user:
  "parse_user_line row_a = Some \<lparr>u_Name = str ''a'', u_UID = 0, u_Mask = 1, u_Salt = [], u_Hash = str ''5e''\<rparr>"
proof -
  have "splitSalted (str ''5e'') = ([], str ''5e'')" by (simp add: splitSalted_def IndexByte_def str_def)
  then show ?thesis unfolding parse_user_line_def row_a_parts Let_def by (simp add: row_a_parts)
qed

text \<open>A row of \<^verbatim>\<open>/etc/users\<close> whose third field has no salt separator admits every password, whatever hash it holds: the
  field is taken for a hash with an empty salt, and an empty salt is accepted without looking at the hash.\<close>

theorem login_unsalted_open:
  assumes "parse_user_line ln = Some u" "TrimSpace ln = name @ 0x3A # uid @ 0x3A # hash @ 0x3A # m"
    and "0x3A \<notin> set name" "0x3A \<notin> set uid" "0x3A \<notin> set hash" "0x24 \<notin> set hash"
  shows "u_Hash u = hash \<and> (\<forall>password. verifyPassword u password)"
proof -
  have "SplitN 0x3A 4 (TrimSpace ln) = [name, uid, hash, m]" using SplitN_4 assms(2-5) by blast
  then have "u_Hash u = hash" "u_Salt u = []"
    using assms(1,6) by (auto simp: parse_user_line_def splitSalted_def IndexByte_def Let_def split: if_splits option.splits)
  then show ?thesis by (simp add: verifyPassword_def)
qed

theorem login_unsalted_open_witness:
  "\<exists>u. parse_user_line row_a = Some u \<and> u_Hash u = str ''5e'' \<and> verifyPassword u (str ''wrong'')"
proof -
  have "TrimSpace row_a = str ''a'' @ 0x3A # str ''0'' @ 0x3A # str ''5e'' @ 0x3A # str ''1''"
    unfolding row_a_parts(1) by (simp add: row_a_def str_def)
  from login_unsalted_open [OF row_a_user this] show ?thesis unfolding row_a_user by (simp add: str_def)
qed

end
