(* ===== verification/Init_Sup.thy ===== *)
theory Init_Sup
  imports Go_Text
begin

text \<open>
  The init service (\<^verbatim>\<open>services/init/init.go\<close>): its two configuration parsers, the supervisor (boot, sweep, restart, reload)
  and the initctl requests (\<^verbatim>\<open>guests/lib/initctl.go\<close>).  The kernel's registry is a record of operations on a state
  of its own, of which nothing is assumed.  Log lines are left out.
\<close>

section \<open>Configuration\<close>

record Service =
  v_Name :: bytes
  v_Path :: bytes
  v_Capmask :: u64
  v_Respawn :: bool

datatype conf_err = WantFields nat | BadCapmask nat bytes | BadPolicy nat bytes

text \<open>One line that is neither blank nor a comment; \<^verbatim>\<open>ln\<close> counts from 0 as the loop does.\<close>

definition parse_service :: "nat \<Rightarrow> bytes \<Rightarrow> conf_err + Service" where
  "parse_service ln line =
     (let fields = Fields line
      in if length fields < 3 then Inl (WantFields (ln + 1))
         else case ParseUint (TrimPrefix (fields ! 2) (str ''0x'')) 16 64 of
             None \<Rightarrow> Inl (BadCapmask (ln + 1) (fields ! 2))
           | Some capmask \<Rightarrow>
               let svc = (\<lambda>r. Inr \<lparr>v_Name = fields ! 0, v_Path = fields ! 1, v_Capmask = of_nat capmask, v_Respawn = r\<rparr>)
               in if length fields \<ge> 4
                  then if fields ! 3 = str ''respawn=yes'' then svc True
                       else if fields ! 3 = str ''respawn=no'' then svc False
                       else Inl (BadPolicy (ln + 1) (fields ! 3))
                  else svc True)"

fun parse_services :: "nat \<Rightarrow> bytes list \<Rightarrow> conf_err + Service list" where
  "parse_services ln [] = Inr []"
| "parse_services ln (raw # raws) =
     (let line = TrimSpace raw
      in if line = [] \<or> HasPrefix line (str ''#'') then parse_services (ln + 1) raws
         else case parse_service ln line of
             Inl e \<Rightarrow> Inl e
           | Inr svc \<Rightarrow> (case parse_services (ln + 1) raws of Inl e \<Rightarrow> Inl e | Inr svcs \<Rightarrow> Inr (svc # svcs)))"

definition ParseConf :: "bytes \<Rightarrow> conf_err + Service list" where
  "ParseConf text = parse_services 0 (split_on 10 text)"

definition knob_line :: "bytes \<Rightarrow> (bytes \<times> bytes) option" where
  "knob_line raw =
     (let line = TrimSpace raw
      in if line = [] \<or> HasPrefix line (str ''#'') then None
         else case IndexByte line 0x3D of
             None \<Rightarrow> None
           | Some i \<Rightarrow> if i > 0 then Some (TrimSpace (take i line), TrimSpace (drop (i + 1) line)) else None)"

definition ParseKnobs :: "bytes \<Rightarrow> (bytes \<rightharpoonup> bytes)" where
  "ParseKnobs text =
     fold (\<lambda>raw knobs. case knob_line raw of None \<Rightarrow> knobs | Some (k, v) \<Rightarrow> knobs(k \<mapsto> v)) (split_on 10 text) Map.empty"

section \<open>The registry and the supervisor\<close>

record SessionInfo =
  se_Sid :: u32
  se_UID :: u32
  se_State :: byte
  se_Name :: bytes

definition Alive :: "byte \<Rightarrow> bool" where
  "Alive state \<longleftrightarrow> state \<noteq> 0 \<and> state \<noteq> 3"

record 'k registry =
  rg_Spawn :: "bytes \<Rightarrow> bytes \<Rightarrow> u64 \<Rightarrow> 'k \<Rightarrow> u32 option \<times> 'k"
  rg_List :: "'k \<Rightarrow> SessionInfo list option \<times> 'k"
  rg_Kill :: "u32 \<Rightarrow> 'k \<Rightarrow> u32 option \<times> 'k"
  rg_SetConf :: "bytes \<Rightarrow> u64 \<Rightarrow> 'k \<Rightarrow> bool \<times> 'k"

abbreviation (input) maxSpawnFails :: nat where "maxSpawnFails \<equiv> 5"
abbreviation (input) listSaturationCap :: nat where "listSaturationCap \<equiv> 12"

record svcState =
  sv_svc :: Service
  sv_sid :: u32
  sv_fails :: nat
  sv_spawned :: bool

definition new_state :: "Service \<Rightarrow> svcState" where
  "new_state svc = \<lparr>sv_svc = svc, sv_sid = 0, sv_fails = 0, sv_spawned = False\<rparr>"

definition spawn :: "'k registry \<Rightarrow> svcState \<Rightarrow> 'k \<Rightarrow> svcState \<times> 'k" where
  "spawn R st k =
     (if sv_fails st \<ge> maxSpawnFails then (st, k)
      else case rg_Spawn R (v_Name (sv_svc st)) (v_Path (sv_svc st)) (v_Capmask (sv_svc st)) k of
          (None, k) \<Rightarrow> (st\<lparr>sv_fails := sv_fails st + 1\<rparr>, k)
        | (Some sid, k) \<Rightarrow> (st\<lparr>sv_sid := sid, sv_spawned := True, sv_fails := 0\<rparr>, k))"

text \<open>A loop over the states in order, threading the registry.\<close>

fun each :: "(svcState \<Rightarrow> 'k \<Rightarrow> svcState \<times> 'k) \<Rightarrow> svcState list \<Rightarrow> 'k \<Rightarrow> svcState list \<times> 'k" where
  "each f [] k = ([], k)"
| "each f (st # sts) k = (let (st, k) = f st k; (sts, k) = each f sts k in (st # sts, k))"

text \<open>The map \<^verbatim>\<open>alive\<close>: the last entry of a session counts.\<close>

definition alive_map :: "SessionInfo list \<Rightarrow> (u32 \<rightharpoonup> bool)" where
  "alive_map sis = fold (\<lambda>si m. m(se_Sid si \<mapsto> Alive (se_State si))) sis Map.empty"

definition sweep_one :: "'k registry \<Rightarrow> (u32 \<rightharpoonup> bool) \<Rightarrow> svcState \<Rightarrow> 'k \<Rightarrow> svcState \<times> 'k" where
  "sweep_one R alive st k =
     (if \<not> v_Respawn (sv_svc st) then (st, k)
      else if sv_spawned st
      then (if alive (sv_sid st) = Some True then (st, k) else spawn R (st\<lparr>sv_spawned := False\<rparr>) k)
      else if sv_fails st = 0 then (st, k)
      else spawn R st k)"

definition sweep :: "'k registry \<Rightarrow> svcState list \<Rightarrow> 'k \<Rightarrow> svcState list \<times> 'k" where
  "sweep R sts k =
     (case rg_List R k of
        (None, k) \<Rightarrow> (sts, k)
      | (Some sis, k) \<Rightarrow> if length sis \<ge> listSaturationCap then (sts, k) else each (sweep_one R (alive_map sis)) sts k)"

definition sup_boot :: "'k registry \<Rightarrow> Service list \<Rightarrow> 'k \<Rightarrow> svcState list \<times> 'k" where
  "sup_boot R svcs k = each (spawn R) (map new_state svcs) k"

text \<open>Go visits the entries of a map in any order: \<^verbatim>\<open>ks\<close> is the order of the keys.\<close>

definition applyKnobs :: "'k registry \<Rightarrow> bytes list \<Rightarrow> bytes \<Rightarrow> 'k \<Rightarrow> 'k" where
  "applyKnobs R ks knobsText k =
     (if knobsText = [] then k
      else fold (\<lambda>key k. case ParseKnobs knobsText key of
            None \<Rightarrow> k
          | Some val \<Rightarrow> (case ParseUint val 10 64 of None \<Rightarrow> k | Some num \<Rightarrow> snd (rg_SetConf R key (of_nat num) k))) ks k)"

definition byName :: "svcState list \<Rightarrow> bytes \<Rightarrow> nat option" where
  "byName sts name = find (\<lambda>i. v_Name (sv_svc (sts ! i)) = name) [0..<length sts]"

definition restart :: "'k registry \<Rightarrow> svcState \<Rightarrow> 'k \<Rightarrow> svcState \<times> 'k" where
  "restart R st k =
     (let (st, k) = (if sv_spawned st then (st\<lparr>sv_spawned := False\<rparr>, snd (rg_Kill R (sv_sid st) k)) else (st, k))
      in spawn R (st\<lparr>sv_fails := 0\<rparr>) k)"

section \<open>Reload\<close>

fun reload_merge :: "'k registry \<Rightarrow> Service list \<Rightarrow> svcState list \<Rightarrow> 'k \<Rightarrow> svcState list \<times> 'k" where
  "reload_merge R [] sts k = (sts, k)"
| "reload_merge R (svc # svcs) sts k =
     (case byName sts (v_Name svc) of
        Some i \<Rightarrow> reload_merge R svcs (sts[i := (sts ! i)\<lparr>sv_svc := (sv_svc (sts ! i))\<lparr>v_Path := v_Path svc,
            v_Capmask := v_Capmask svc, v_Respawn := v_Respawn svc\<rparr>\<rparr>]) k
      | None \<Rightarrow> (let (st, k) = spawn R (new_state svc) k in reload_merge R svcs (sts @ [st]) k))"

definition reload_drop :: "Service list \<Rightarrow> svcState \<Rightarrow> svcState" where
  "reload_drop svcs st =
     (if v_Name (sv_svc st) \<in> v_Name ` set svcs then st else st\<lparr>sv_svc := (sv_svc st)\<lparr>v_Respawn := False\<rparr>\<rparr>)"

definition reload_one :: "'k registry \<Rightarrow> (u32 \<rightharpoonup> bool) \<Rightarrow> svcState \<Rightarrow> 'k \<Rightarrow> svcState \<times> 'k" where
  "reload_one R alive st k =
     (if \<not> v_Respawn (sv_svc st) \<or> \<not> sv_spawned st then (st, k)
      else if alive (sv_sid st) = Some True then (st, k)
      else spawn R (st\<lparr>sv_spawned := False, sv_fails := 0\<rparr>) k)"

datatype reload_err = ErrNoConfSource | ErrConf conf_err

definition reloadInitconf :: "'k registry \<Rightarrow> bytes option \<Rightarrow> svcState list \<Rightarrow> 'k \<Rightarrow> (reload_err + nat) \<times> svcState list \<times> 'k" where
  "reloadInitconf R file sts k =
     (case file of
        None \<Rightarrow> (Inl ErrNoConfSource, sts, k)
      | Some text \<Rightarrow>
          (case ParseConf text of
             Inl e \<Rightarrow> (Inl (ErrConf e), sts, k)
           | Inr svcs \<Rightarrow>
               let (sts, k) = reload_merge R svcs sts k;
                   sts = map (reload_drop svcs) sts;
                   (sts, k) = (case rg_List R k of
                      (None, k) \<Rightarrow> (sts, k)
                    | (Some sis, k) \<Rightarrow> each (reload_one R (alive_map sis)) sts k)
               in (Inr (length svcs), sts, k)))"

section \<open>Requests\<close>

abbreviation (input) InitSubRestart :: u16 where "InitSubRestart \<equiv> 1"
abbreviation (input) InitSubReload :: u16 where "InitSubReload \<equiv> 2"
abbreviation (input) InitSubApplyKnobs :: u16 where "InitSubApplyKnobs \<equiv> 3"
abbreviation (input) InitSubPolicy :: u16 where "InitSubPolicy \<equiv> 4"
abbreviation (input) InitOK :: u32 where "InitOK \<equiv> 0"
abbreviation (input) InitNotFound :: u32 where "InitNotFound \<equiv> 1"
abbreviation (input) InitBadName :: u32 where "InitBadName \<equiv> 2"
abbreviation (input) InitUnavailable :: u32 where "InitUnavailable \<equiv> 4"

definition boolByte :: "bool \<Rightarrow> byte" where
  "boolByte yes = (if yes then 0x31 else 0x30)"

definition policy_payload :: "bytes \<Rightarrow> bool \<Rightarrow> bytes" where
  "policy_payload svc yes = svc @ [0] @ [boolByte yes]"

definition SplitPolicyPayload :: "bytes \<Rightarrow> (bytes \<times> bool) option" where
  "SplitPolicyPayload pl =
     (case IndexByte pl 0 of
        None \<Rightarrow> None
      | Some i \<Rightarrow>
          if i + 2 \<noteq> length pl then None
          else if pl ! (i + 1) = 0x31 then Some (take i pl, True)
          else if pl ! (i + 1) = 0x30 then Some (take i pl, False)
          else None)"

text \<open>\<^verbatim>\<open>handleInitctl\<close>: status, states and registry; the detail text of the reply is left out.\<close>

definition handleInitctl ::
  "'k registry \<Rightarrow> bytes option \<Rightarrow> bytes list \<Rightarrow> bytes \<Rightarrow> u16 \<Rightarrow> bytes \<Rightarrow> svcState list \<Rightarrow> 'k \<Rightarrow> u32 \<times> svcState list \<times> 'k" where
  "handleInitctl R file ks knobsText subop pl sts k =
     (if subop = InitSubRestart
      then (if pl = [] \<or> length pl > 15 then (InitBadName, sts, k)
            else case byName sts pl of
                None \<Rightarrow> (InitNotFound, sts, k)
              | Some i \<Rightarrow> (let (st, k) = restart R (sts ! i) k in (InitOK, sts[i := st], k)))
      else if subop = InitSubReload
      then (case reloadInitconf R file sts k of
              (Inl ErrNoConfSource, sts, k) \<Rightarrow> (InitUnavailable, sts, k)
            | (Inl (ErrConf _), sts, k) \<Rightarrow> (InitBadName, sts, k)
            | (Inr _, sts, k) \<Rightarrow> (InitOK, sts, k))
      else if subop = InitSubApplyKnobs then (InitOK, sts, applyKnobs R ks knobsText k)
      else if subop = InitSubPolicy
      then (case SplitPolicyPayload pl of
              None \<Rightarrow> (InitBadName, sts, k)
            | Some (name, yes) \<Rightarrow>
                if name = [] \<or> length name > 15 then (InitBadName, sts, k)
                else case byName sts name of
                    None \<Rightarrow> (InitNotFound, sts, k)
                  | Some i \<Rightarrow> (InitOK, sts[i := (sts ! i)\<lparr>sv_svc := (sv_svc (sts ! i))\<lparr>v_Respawn := yes\<rparr>\<rparr>], k))
      else (InitBadName, sts, k))"

end
