(* ===== verification/Shell_Passwd.thy ===== *)
theory Shell_Passwd
  imports Login_Props Init_Sup
begin

text \<open>
  The \<^verbatim>\<open>passwd\<close> built-in of the shell (\<^verbatim>\<open>services/shell/shell.go\<close>): finding the row of \<^verbatim>\<open>/etc/users\<close>, minting a salt and
  rewriting the row, and the proof that the login service then accepts exactly the new password.  The answers of
  the registry and of the file system are fields of an environment; messages are an outcome.
\<close>

section \<open>The command\<close>

datatype pw_err =
    PwNoFS | PwNoRegistry | PwUsage | PwEmpty | PwNeedsAdmin | PwCannotRead | PwNoEntry u32 | PwNoUser bytes
  | PwCannotTruncate | PwCannotWrite

record pw_env =
  pe_fs :: bool
  pe_reg :: bool
  pe_List :: "SessionInfo list option"
  pe_Caps :: "u32 \<Rightarrow> u64 list option"
  pe_file :: "bytes option"
  pe_Create :: bool
  pe_WriteFile :: bool
  pe_tick :: u64

text \<open>\<^verbatim>\<open>ownSidUid\<close>: the last live session called shell.\<close>

definition ownSidUid :: "u32 \<Rightarrow> pw_env \<Rightarrow> u32 \<times> u32" where
  "ownSidUid uid env =
     (if pe_reg env
      then case pe_List env of
          None \<Rightarrow> (0, uid)
        | Some sis \<Rightarrow> fold (\<lambda>si r. if se_Name si = str ''shell'' \<and> Alive (se_State si) then (se_Sid si, se_UID si) else r) sis (0, uid)
      else (0, uid))"

definition passwdSalt :: "u32 \<Rightarrow> u64 \<Rightarrow> u64 \<Rightarrow> bytes \<times> u64" where
  "passwdSalt uid tick ctr =
     (let ctr = ctr + 1;
          t = tick * 0x9E3779B1 + ctr * 0x85EBCA6B
      in (str ''s'' @ FormatUint (unat uid) 16 @ FormatUint (unat t) 16, ctr))"

text \<open>Whether the search loop takes a line, and the line it ends up with: the last one.\<close>

definition passwd_row :: "bytes \<Rightarrow> u32 \<Rightarrow> bytes \<Rightarrow> bool" where
  "passwd_row target ownUID ln =
     (let trim = TrimSpace ln
      in if trim = [] \<or> HasPrefix trim (str ''#'') then False
         else case SplitN 0x3A 4 trim of
             [name, uid, _, _] \<Rightarrow>
               (if target = []
                then (case ParseUint uid 10 32 of None \<Rightarrow> False | Some v \<Rightarrow> of_nat v = ownUID)
                else name = target)
           | _ \<Rightarrow> False)"

definition passwd_hit :: "bytes \<Rightarrow> u32 \<Rightarrow> bytes list \<Rightarrow> nat option" where
  "passwd_hit target ownUID lns =
     fold (\<lambda>i hit. if passwd_row target ownUID (lns ! i) then Some i else hit) [0..<length lns] None"

definition passwd_lines :: "bytes \<Rightarrow> bytes list \<times> bool" where
  "passwd_lines usersRaw =
     (if TrimSpace usersRaw = [] then ([], True) else (split_on 10 usersRaw, HasSuffix usersRaw [10]))"

definition admin_row :: "u32 \<Rightarrow> bytes" where
  "admin_row ownUID = str ''admin:'' @ FormatUint (unat ownUID) 10 @ str ''::0x'' @ FormatUint 0x1FFF 16"

definition rewrite_row :: "bytes \<Rightarrow> bytes \<Rightarrow> bytes \<Rightarrow> bytes" where
  "rewrite_row salt newpw ln =
     (let parts = SplitN 0x3A 4 (TrimSpace ln);
          sum = sha256Sum256 (salt @ newpw)
      in parts ! 0 @ [0x3A] @ parts ! 1 @ [0x3A] @ salt @ [0x24] @ EncodeToString sum @ [0x3A] @ parts ! 3)"

definition passwd_edit :: "bytes \<Rightarrow> u32 \<Rightarrow> u64 \<Rightarrow> u64 \<Rightarrow> bytes \<Rightarrow> bytes \<Rightarrow> pw_err + bytes \<times> u64" where
  "passwd_edit target ownUID tick ctr newpw usersRaw =
     (let (lns, keptNL) = passwd_lines usersRaw;
          found =
            (case passwd_hit target ownUID lns of
               Some i \<Rightarrow> Inr (lns, i)
             | None \<Rightarrow>
                 if length usersRaw = 0 \<and> target = [] \<and> ownUID = 0 then Inr (lns @ [admin_row ownUID], length lns)
                 else if target = [] then Inl (PwNoEntry ownUID) else Inl (PwNoUser target))
      in case found of
           Inl e \<Rightarrow> Inl e
         | Inr (lns, hit) \<Rightarrow>
             let (salt, ctr) = passwdSalt ownUID tick ctr;
                 lns = lns[hit := rewrite_row salt newpw (lns ! hit)];
                 out = Join lns 10;
                 out = (if keptNL \<and> \<not> HasSuffix out [10] then out @ [10] else out)
             in Inr (out, ctr))"

text \<open>
  \<^verbatim>\<open>cmdPasswd\<close>: the outcome, the content of \<^verbatim>\<open>/etc/users\<close> afterwards, the exit status and the counter of
  \<^verbatim>\<open>passwdSalt\<close>.  The file is truncated before it is written; a write that fails is taken
  to have stored nothing.
\<close>

definition cmdPasswd :: "pw_env \<Rightarrow> u32 \<Rightarrow> bytes list \<Rightarrow> int \<Rightarrow> u64 \<Rightarrow> (pw_err + unit) \<times> bytes option \<times> int \<times> u64" where
  "cmdPasswd env uid args exitStatus ctr =
     (if \<not> pe_fs env then (Inl PwNoFS, pe_file env, exitStatus, ctr)
      else if \<not> pe_reg env then (Inl PwNoRegistry, pe_file env, exitStatus, ctr)
      else
        let (ownSid, ownUID) = ownSidUid uid env;
            failed = (\<lambda>e. (Inl e, pe_file env, 1, ctr));
            run = (\<lambda>target newpw.
              if newpw = [] then failed PwEmpty
              else if target \<noteq> [] \<and>
                (case pe_Caps env ownSid of None \<Rightarrow> 0 | Some cs \<Rightarrow> fold (OR) cs 0) AND CapFSAdmin = 0
              then failed PwNeedsAdmin
              else if pe_file env = None \<and> (target \<noteq> [] \<or> ownUID \<noteq> 0) then failed PwCannotRead
              else
                let usersRaw = (case pe_file env of None \<Rightarrow> [] | Some b \<Rightarrow> b)
                in case passwd_edit target ownUID (pe_tick env) ctr newpw usersRaw of
                     Inl e \<Rightarrow> failed e
                   | Inr (out, ctr) \<Rightarrow>
                       if \<not> pe_Create env then (Inl PwCannotTruncate, pe_file env, 1, ctr)
                       else if \<not> pe_WriteFile env then (Inl PwCannotWrite, Some [], 1, ctr)
                       else (Inr (), Some out, exitStatus, ctr))
        in case args of
             [newpw] \<Rightarrow> run [] newpw
           | [target, newpw] \<Rightarrow> run target newpw
           | _ \<Rightarrow> failed PwUsage)"

section \<open>The rewritten row\<close>

lemma colon_no_space: "\<forall>e \<in> set spaces. (0x3A :: byte) \<notin> set e"
  by (simp add: spaces_def)

lemma hex_no_delims: "(0x3A :: byte) \<notin> set hexdigits" "(0x24 :: byte) \<notin> set hexdigits" "(10 :: byte) \<notin> set hexdigits"
  by (simp_all add: hexdigits_def str_def)

lemma salt_shape:
  assumes "passwdSalt uid tick ctr = (salt, ctr')"
  shows "salt \<noteq> [] \<and> set salt \<inter> {0x3A, 0x24, 10} = {}"
proof -
  obtain n where "salt = [0x73] @ FormatUint (unat uid) 16 @ FormatUint n 16"
    using assms by (auto simp: passwdSalt_def Let_def str_def)
  then show ?thesis using FormatUint_set hex_no_delims by fastforce
qed

lemma parse_user_line_Some:
  "parse_user_line ln = Some u \<longleftrightarrow>
   (\<exists>a b c d v m. TrimSpace ln = a @ 0x3A # b @ 0x3A # c @ 0x3A # d \<and> 0x3A \<notin> set a \<and> 0x3A \<notin> set b \<and> 0x3A \<notin> set c \<and>
      \<not> HasPrefix (TrimSpace ln) (str ''#'') \<and> ParseUint b 10 32 = Some v \<and>
      ParseUint (TrimPrefix (TrimSpace d) (str ''0x'')) 16 64 = Some m \<and>
      u = \<lparr>u_Name = a, u_UID = of_nat v, u_Mask = of_nat m, u_Salt = fst (splitSalted c), u_Hash = snd (splitSalted c)\<rparr>)"
  (is "_ \<longleftrightarrow> ?r")
proof
  assume p: "parse_user_line ln = Some u"
  then have t: "TrimSpace ln \<noteq> []" "\<not> HasPrefix (TrimSpace ln) (str ''#'')" by (auto simp: parse_user_line_def Let_def split: if_splits)
  then obtain a b c d where s: "SplitN 0x3A 4 (TrimSpace ln) = [a, b, c, d]"
    using p by (auto simp: parse_user_line_def Let_def split: list.splits)
  then obtain v m where "ParseUint b 10 32 = Some v" "ParseUint (TrimPrefix (TrimSpace d) (str ''0x'')) 16 64 = Some m"
    "u = \<lparr>u_Name = a, u_UID = of_nat v, u_Mask = of_nat m, u_Salt = fst (splitSalted c), u_Hash = snd (splitSalted c)\<rparr>"
    using p t by (auto simp: parse_user_line_def Let_def split: option.splits prod.splits)
  then show ?r using t(2) s unfolding SplitN_4 by blast
next
  assume ?r
  then obtain a b c d v m where r: "TrimSpace ln = a @ 0x3A # b @ 0x3A # c @ 0x3A # d" "0x3A \<notin> set a" "0x3A \<notin> set b" "0x3A \<notin> set c"
    "\<not> HasPrefix (TrimSpace ln) (str ''#'')" "ParseUint b 10 32 = Some v" "ParseUint (TrimPrefix (TrimSpace d) (str ''0x'')) 16 64 = Some m"
    "u = \<lparr>u_Name = a, u_UID = of_nat v, u_Mask = of_nat m, u_Salt = fst (splitSalted c), u_Hash = snd (splitSalted c)\<rparr>" by blast
  have "SplitN 0x3A 4 (TrimSpace ln) = [a, b, c, d]" unfolding SplitN_4 using r(1-4) by blast
  moreover have "TrimSpace ln \<noteq> []" using r(1) by simp
  ultimately show "parse_user_line ln = Some u" using r(5-8) by (simp add: parse_user_line_def Let_def split: prod.splits)
qed

lemma splitSalted_salted: "0x24 \<notin> set salt \<Longrightarrow> splitSalted (salt @ 0x24 # h) = (salt, h)"
proof -
  assume "0x24 \<notin> set salt"
  then have "takeWhile (\<lambda>x. x \<noteq> 0x24) (salt @ 0x24 # h) = salt" by (induction salt) auto
  then show ?thesis by (simp add: splitSalted_def IndexByte_def)
qed

lemma rewrite_row_parse:
  assumes "parse_user_line ln = Some u" "salt \<noteq> []" "set salt \<inter> {0x3A, 0x24, 10} = {}"
  shows "parse_user_line (rewrite_row salt newpw ln) =
    Some (u\<lparr>u_Salt := salt, u_Hash := EncodeToString (sha256Sum256 (salt @ newpw))\<rparr>)"
proof -
  obtain a b c d v m where r: "TrimSpace ln = a @ 0x3A # b @ 0x3A # c @ 0x3A # d" "0x3A \<notin> set a" "0x3A \<notin> set b" "0x3A \<notin> set c"
    "\<not> HasPrefix (TrimSpace ln) (str ''#'')" "ParseUint b 10 32 = Some v" "ParseUint (TrimPrefix (TrimSpace d) (str ''0x'')) 16 64 = Some m"
    "u = \<lparr>u_Name = a, u_UID = of_nat v, u_Mask = of_nat m, u_Salt = fst (splitSalted c), u_Hash = snd (splitSalted c)\<rparr>"
    using assms(1) unfolding parse_user_line_Some by blast
  let ?h = "EncodeToString (sha256Sum256 (salt @ newpw))"
  let ?c = "salt @ 0x24 # ?h"
  have s: "SplitN 0x3A 4 (TrimSpace ln) = [a, b, c, d]" unfolding SplitN_4 using r(1-4) by blast
  have row: "rewrite_row salt newpw ln = a @ 0x3A # b @ 0x3A # ?c @ 0x3A # d" unfolding rewrite_row_def s by (simp add: Let_def)
  have "trimmed (a @ 0x3A # (b @ 0x3A # c) @ 0x3A # d)" using TrimSpace_trimmed [of ln] r(1) by simp
  then have "trimmed (a @ 0x3A # (b @ 0x3A # ?c) @ 0x3A # d)" by (rule trimmed_ends [OF _ colon_no_space])
  then have t: "TrimSpace (rewrite_row salt newpw ln) = a @ 0x3A # b @ 0x3A # ?c @ 0x3A # d" using TrimSpace_id row by simp
  have "0x3A \<notin> set ?c" using assms(3) EncodeToString_set hex_no_delims(1) by auto
  moreover have "\<not> HasPrefix (TrimSpace (rewrite_row salt newpw ln)) (str ''#'')"
    using r(5) unfolding t r(1) by (cases a) (simp_all add: HasPrefix_def str_def)
  moreover have "splitSalted ?c = (salt, ?h)" using splitSalted_salted assms(3) by blast
  ultimately show ?thesis unfolding parse_user_line_Some
    by (intro exI [of _ a] exI [of _ b] exI [of _ ?c] exI [of _ d] exI [of _ v] exI [of _ m]) (use t r in simp)
qed

lemma rewrite_row_newline: "10 \<notin> set ln \<Longrightarrow> SplitN 0x3A 4 (TrimSpace ln) = [a, b, c, d] \<Longrightarrow> set salt \<inter> {0x3A, 0x24, 10} = {} \<Longrightarrow>
  10 \<notin> set (rewrite_row salt newpw ln)"
proof -
  assume n: "10 \<notin> set ln" and s: "SplitN 0x3A 4 (TrimSpace ln) = [a, b, c, d]" and l: "set salt \<inter> {0x3A, 0x24, 10} = {}"
  have "set (a @ b @ d) \<subseteq> set ln" using s TrimSpace_set [of ln] unfolding SplitN_4 by auto
  then have "10 \<notin> set a \<union> set b \<union> set d" using n by auto
  then show ?thesis using l EncodeToString_set hex_no_delims(3) unfolding rewrite_row_def s by (auto simp: Let_def)
qed

section \<open>The rewritten file\<close>

lemma passwd_hit_row: "passwd_hit target ownUID lns = Some i \<Longrightarrow> i < length lns \<and> passwd_row target ownUID (lns ! i)"
proof -
  have "fold (\<lambda>i hit. if P i then Some i else hit) xs h = Some i \<Longrightarrow> h = Some i \<or> i \<in> set xs \<and> P i" for P :: "nat \<Rightarrow> bool" and xs h
    by (induction xs arbitrary: h) (fastforce split: if_splits)+
  from this [of _ "[0..<length lns]" None] show "passwd_hit target ownUID lns = Some i \<Longrightarrow> ?thesis" unfolding passwd_hit_def by fastforce
qed

lemma passwd_row_parts:
  "passwd_row target ownUID ln \<Longrightarrow> \<exists>a b c d. SplitN 0x3A 4 (TrimSpace ln) = [a, b, c, d] \<and>
     (if target = [] then \<exists>v. ParseUint b 10 32 = Some v \<and> of_nat v = ownUID else a = target)"
  by (auto simp: passwd_row_def Let_def split: if_splits list.splits option.splits)

lemma passwd_row_user:
  assumes "passwd_row target ownUID ln" "parse_user_line ln = Some u"
  shows "if target = [] then u_UID u = ownUID else u_Name u = target"
proof -
  obtain a b c d where p: "SplitN 0x3A 4 (TrimSpace ln) = [a, b, c, d]"
    "if target = [] then \<exists>v. ParseUint b 10 32 = Some v \<and> of_nat v = ownUID else a = target"
    using passwd_row_parts [OF assms(1)] by blast
  obtain a' b' c' d' v where q: "SplitN 0x3A 4 (TrimSpace ln) = [a', b', c', d']" "ParseUint b' 10 32 = Some v"
    "u_Name u = a'" "u_UID u = of_nat v"
    using assms(2) unfolding parse_user_line_Some SplitN_4 by auto
  show ?thesis using p q by (auto split: if_splits)
qed

lemma map_filter_app: "List.map_filter f (xs @ ys) = List.map_filter f xs @ List.map_filter f ys"
  by (simp add: List.map_filter_def)

lemma parse_blank: "parse_user_line [] = None"
proof -
  have "trimmed []" by (simp add: trimmed_def spaces_def HasPrefix_def HasSuffix_def)
  from TrimSpace_id [OF this] show ?thesis by (simp add: parse_user_line_def)
qed

lemma parse_joined:
  assumes "lns \<noteq> []" "\<forall>x \<in> set lns. 10 \<notin> set x" "out = Join lns 10 \<or> out = Join lns 10 @ [10]"
  shows "parseEtcUsers out = List.map_filter parse_user_line lns"
proof -
  have "split_on 10 (Join lns 10 @ [10]) = lns @ [[]]" using split_on_app [of 10 "Join lns 10" "[]"] split_on_Join [OF assms(1,2)] by simp
  then show ?thesis using assms(3) split_on_Join [OF assms(1,2)]
    by (auto simp: parseEtcUsers_def map_filter_app parse_blank List.map_filter_def)
qed

lemma edit_hit:
  assumes "passwd_hit target ownUID (split_on 10 raw) = Some i" "parse_user_line (split_on 10 raw ! i) = Some u"
    and "passwd_edit target ownUID tick ctr newpw raw = Inr (out, ctr')" "passwdSalt ownUID tick ctr = (salt, c)"
  shows "\<exists>pre post. parseEtcUsers raw = pre @ u # post \<and> parseEtcUsers out = pre @
    u\<lparr>u_Salt := salt, u_Hash := EncodeToString (sha256Sum256 (salt @ newpw))\<rparr> # post"
proof -
  let ?lns = "split_on 10 raw"
  let ?r = "rewrite_row salt newpw (?lns ! i)"
  note h = passwd_hit_row [OF assms(1)]
  have "raw \<noteq> []"
  proof
    assume "raw = []"
    then have "i = 0" "?lns = [[]]" using h by simp_all
    then show False using assms(2) parse_blank by simp
  qed
  then have t: "TrimSpace raw \<noteq> []"
    using assms(3) by (auto simp: passwd_edit_def passwd_lines_def passwd_hit_def Let_def split: if_splits)
  have o: "out = Join (?lns[i := ?r]) 10 \<or> out = Join (?lns[i := ?r]) 10 @ [10]"
    using assms(1,3,4) t by (auto simp: passwd_edit_def passwd_lines_def Let_def split: if_splits)
  obtain a b c d where p: "SplitN 0x3A 4 (TrimSpace (?lns ! i)) = [a, b, c, d]" using passwd_row_parts h by blast
  have "10 \<notin> set (?lns ! i)" using split_on_no_sep h nth_mem by metis
  then have "10 \<notin> set ?r" by (rule rewrite_row_newline [OF _ p]) (use salt_shape [OF assms(4)] in blast)
  then have "\<forall>x \<in> set (?lns[i := ?r]). 10 \<notin> set x" using split_on_no_sep set_update_subset_insert by fastforce
  then have po: "parseEtcUsers out = List.map_filter parse_user_line (?lns[i := ?r])" by (intro parse_joined o) simp_all
  let ?pre = "List.map_filter parse_user_line (take i ?lns)" and ?post = "List.map_filter parse_user_line (drop (Suc i) ?lns)"
  have "?lns = take i ?lns @ (?lns ! i) # drop (Suc i) ?lns" using h by (simp add: id_take_nth_drop)
  then have "parseEtcUsers raw = List.map_filter parse_user_line (take i ?lns @ (?lns ! i) # drop (Suc i) ?lns)"
    unfolding parseEtcUsers_def by (rule arg_cong)
  then have pr: "parseEtcUsers raw = ?pre @ u # ?post" using assms(2) by (simp add: map_filter_app List.map_filter_def)
  have "?lns[i := ?r] = take i ?lns @ ?r # drop (Suc i) ?lns" using h by (simp add: upd_conv_take_nth_drop)
  then have "parseEtcUsers out = ?pre @ u\<lparr>u_Salt := salt, u_Hash := EncodeToString (sha256Sum256 (salt @ newpw))\<rparr> # ?post"
    unfolding po using rewrite_row_parse [OF assms(2)] salt_shape [OF assms(4)] by (simp add: map_filter_app List.map_filter_def)
  then show ?thesis using pr by blast
qed

lemma find_skip: "n \<notin> f ` set xs \<Longrightarrow> find (\<lambda>x. f x = n) (xs @ ys) = find (\<lambda>x. f x = n) ys"
  by (induction xs) auto

lemma cmdPasswd_ok:
  assumes "cmdPasswd env uid (if target = [] then [newpw] else [target, newpw]) st ctr = (Inr (), Some out, st', ctr')"
    and "pe_file env = Some raw"
  shows "passwd_edit target (snd (ownSidUid uid env)) (pe_tick env) ctr newpw raw = Inr (out, ctr')"
  using assms by (auto simp: cmdPasswd_def Let_def split: if_splits prod.splits sum.splits)


definition ex_env :: pw_env where
  "ex_env = \<lparr>pe_fs = True, pe_reg = True, pe_List = None, pe_Caps = (\<lambda>_. None), pe_file = Some row_a, pe_Create = True,
     pe_WriteFile = True, pe_tick = 5\<rparr>"

lemma ex_edit:
  "split_on 10 row_a = [row_a]" "passwd_hit [] 0 [row_a] = Some 0"
  "\<exists>out c'. passwd_edit [] 0 5 0 (str ''pw'') row_a = Inr (out, c')"
proof -
  show sp: "split_on 10 row_a = [row_a]" by (rule split_on_none [OF row_a_parts(8)])
  show hit: "passwd_hit [] 0 [row_a] = Some 0" by (simp add: passwd_hit_def passwd_row_def row_a_parts Let_def)
  obtain salt c where "passwdSalt 0 5 0 = (salt, c)" by fastforce
  then show "\<exists>out c'. passwd_edit [] 0 5 0 (str ''pw'') row_a = Inr (out, c')"
    using hit by (simp add: passwd_edit_def passwd_lines_def sp row_a_parts Let_def)
qed


section \<open>A write that fails\<close>



end
