(* ===== verification/Conf.thy ===== *)
theory Conf
  imports Init_Sup Login_Props
begin

text \<open>
  The configuration validators behind the shell's \<^verbatim>\<open>checkconf\<close> (\<^verbatim>\<open>services/shell/conf/conf.go\<close>) and the kernel code that a validated
  knob reaches: the SETCONF operation of \<^verbatim>\<open>core/kernsvc.cc\<close>, the quantum and preemption switches of \<^verbatim>\<open>core/preempt.cc\<close> and
  the knob store of \<^verbatim>\<open>core/sched.cc\<close>.  A message is a value with the text it quotes.
\<close>

section \<open>The validators\<close>

datatype conf_msg =
    MsgLineTooLong | MsgNul | MsgWantService | MsgBadServiceName | MsgBadModulePath | MsgBadCapmask bytes | MsgBadPolicy bytes
  | MsgWantKeyValue | MsgUnknownKnob bytes | MsgNonNumeric bytes | MsgRange bytes
  | MsgWantUser | MsgBadUserName | MsgBadUid bytes | MsgBadHash | MsgBadKey

record Error =
  e_File :: bytes
  e_Line :: nat
  e_Msg :: conf_msg

abbreviation (input) MaxLineLen :: nat where "MaxLineLen \<equiv> 256"
abbreviation (input) MaxErrors :: nat where "MaxErrors \<equiv> 10"
abbreviation (input) TrustedKeySize :: nat where "TrustedKeySize \<equiv> 32"

text \<open>What the four validators share: the loop over the lines and the checks before a line is looked at.\<close>

definition check_line :: "(bytes \<Rightarrow> conf_msg option) \<Rightarrow> bytes \<Rightarrow> conf_msg option" where
  "check_line body raw =
     (if length raw > MaxLineLen then Some MsgLineTooLong
      else if 0 \<in> set raw then Some MsgNul
      else let line = TrimSpace raw in if line = [] \<or> HasPrefix line (str ''#'') then None else body line)"

definition check_file :: "(bytes \<Rightarrow> conf_msg option) \<Rightarrow> bytes \<Rightarrow> bytes \<Rightarrow> Error list" where
  "check_file body file text =
     List.map_filter (\<lambda>(i, raw). map_option (\<lambda>msg. \<lparr>e_File = file, e_Line = i + 1, e_Msg = msg\<rparr>) (check_line body raw))
       (enumerate 0 (split_on 10 text))"

definition init_line :: "bytes \<Rightarrow> conf_msg option" where
  "init_line line =
     (let fields = Fields line
      in if length fields < 3 then Some MsgWantService
         else if length (fields ! 0) = 0 \<or> length (fields ! 0) > 15 then Some MsgBadServiceName
         else if length (fields ! 1) = 0 then Some MsgBadModulePath
         else if ParseUint (TrimPrefix (fields ! 2) (str ''0x'')) 16 64 = None then Some (MsgBadCapmask (fields ! 2))
         else if length fields \<ge> 4 \<and> fields ! 3 \<noteq> str ''respawn=yes'' \<and> fields ! 3 \<noteq> str ''respawn=no''
         then Some (MsgBadPolicy (fields ! 3))
         else None)"

definition ValidateInitConfFile :: "bytes \<Rightarrow> bytes \<Rightarrow> Error list" where
  "ValidateInitConfFile file text = check_file init_line file text"

definition NormalizeKnob :: "bytes \<Rightarrow> bytes option" where
  "NormalizeKnob key =
     (if key \<in> {str ''quantum_us'', str ''log_level'', str ''audit_mask'', str ''preempt''} then Some key
      else if key \<in> {str ''quantum_ms'', str ''quantum''} then Some (str ''quantum_us'')
      else None)"

definition KnobIndex :: "bytes \<Rightarrow> byte option" where
  "KnobIndex key =
     [str ''quantum_us'' \<mapsto> 0, str ''log_level'' \<mapsto> 1, str ''audit_mask'' \<mapsto> 2] key"

text \<open>\<^verbatim>\<open>checkKnobRange\<close>: the empty message is \<^term>\<open>None\<close>.  The product wraps at 64 bits.\<close>

definition checkKnobRange :: "bytes \<Rightarrow> bytes \<Rightarrow> u64 \<Rightarrow> conf_msg option" where
  "checkKnobRange canon key num =
     (if canon = str ''quantum_us''
      then let us = (if key = str ''quantum_ms'' \<or> key = str ''quantum'' then num * 1000 else num)
           in if us < 100 \<or> us > 200000 then Some (MsgRange key) else None
      else if canon = str ''log_level'' then (if num > 3 then Some (MsgRange key) else None)
      else if canon = str ''audit_mask'' then (if num > 255 then Some (MsgRange key) else None)
      else if canon = str ''preempt'' then (if num > 1 then Some (MsgRange key) else None)
      else None)"

definition kernel_line :: "bytes \<Rightarrow> conf_msg option" where
  "kernel_line line =
     (case IndexByte line 0x3D of
        None \<Rightarrow> Some MsgWantKeyValue
      | Some eq \<Rightarrow>
          if eq = 0 then Some MsgWantKeyValue
          else
            let key = TrimSpace (take eq line); val = TrimSpace (drop (eq + 1) line)
            in case NormalizeKnob key of
                 None \<Rightarrow> Some (MsgUnknownKnob key)
               | Some canon \<Rightarrow>
                   (case ParseUint val 10 64 of
                      None \<Rightarrow> Some (MsgNonNumeric key)
                    | Some num \<Rightarrow> checkKnobRange canon key (of_nat num)))"

definition ValidateKernelConfFile :: "bytes \<Rightarrow> bytes \<Rightarrow> Error list" where
  "ValidateKernelConfFile file text = check_file kernel_line file text"

definition users_line :: "bytes \<Rightarrow> conf_msg option" where
  "users_line line =
     (case SplitN 0x3A 4 line of
        [name, uid, hash, capmask] \<Rightarrow>
          if name = [] \<or> 0x20 \<in> set name \<or> 9 \<in> set name then Some MsgBadUserName
          else if ParseUint uid 10 32 = None then Some (MsgBadUid uid)
          else if hash \<noteq> [] \<and>
            (case IndexByte hash 0x24 of None \<Rightarrow> True | Some d \<Rightarrow> d = 0 \<or> d = length hash - 1)
          then Some MsgBadHash
          else
            let body = TrimPrefix (TrimPrefix capmask (str ''0x'')) (str ''0X'')
            in if body = [] then Some (MsgBadCapmask capmask)
               else if ParseUint body 16 64 = None then Some (MsgBadCapmask capmask)
               else None
      | _ \<Rightarrow> Some MsgWantUser)"

definition ValidateUsersFile :: "bytes \<Rightarrow> bytes \<Rightarrow> Error list" where
  "ValidateUsersFile file text = check_file users_line file text"

definition trusted_line :: "bytes \<Rightarrow> conf_msg option" where
  "trusted_line line =
     (case DecodeString line of
        None \<Rightarrow> Some MsgBadKey
      | Some key \<Rightarrow> if length key \<noteq> TrustedKeySize then Some MsgBadKey else None)"

definition ValidateTrustedFile :: "bytes \<Rightarrow> bytes \<Rightarrow> Error list" where
  "ValidateTrustedFile file text = check_file trusted_line file text"

definition push_errors :: "Error list \<Rightarrow> Error list \<Rightarrow> Error list" where
  "push_errors errs out = out @ take (MaxErrors - length out) errs"

definition ValidateAll :: "bytes \<Rightarrow> bytes \<Rightarrow> bytes \<Rightarrow> bytes \<Rightarrow> Error list" where
  "ValidateAll initConf users trusted kernelConf =
     push_errors (ValidateKernelConfFile (str ''/etc/kernel.conf'') kernelConf)
       (push_errors (ValidateTrustedFile (str ''/etc/trusted'') trusted)
         (push_errors (ValidateUsersFile (str ''/etc/users'') users)
           (push_errors (ValidateInitConfFile (str ''/etc/init.conf'') initConf) [])))"

text \<open>The package manager's reading of the trusted keys (\<^verbatim>\<open>services/pkg/pkg.go\<close>), which skips what is malformed.\<close>

definition readTrusted :: "bytes \<Rightarrow> bytes list" where
  "readTrusted text =
     List.map_filter (\<lambda>raw. let line = TrimSpace raw
        in if line = [] \<or> HasPrefix line (str ''#'') then None
           else case DecodeString line of
               None \<Rightarrow> None
             | Some key \<Rightarrow> if length key \<noteq> TrustedKeySize then None else Some key) (split_on 10 text)"

section \<open>The kernel's knobs\<close>

text \<open>\<^verbatim>\<open>kn_pit\<close> is the divisor last programmed into the timer.\<close>

record knobs =
  kn_ticks :: u32
  kn_preempt :: bool
  kn_pit :: u64
  kn_store :: "u64 list"

definition pit_reprogram_for_quantum :: "u32 \<Rightarrow> knobs \<Rightarrow> knobs" where
  "pit_reprogram_for_quantum quantum_us kn =
     (let d = 1193182 * ucast quantum_us div 1000000;
          d = (if d < 1 then 1 else d);
          d = (if d > 65535 then 65535 else d)
      in kn\<lparr>kn_pit := d\<rparr>)"

definition preempt_quantum_us :: "knobs \<Rightarrow> u32" where
  "preempt_quantum_us kn = kn_ticks kn * 1000"

definition conf_set_quantum_us :: "u64 \<Rightarrow> knobs \<Rightarrow> knobs" where
  "conf_set_quantum_us us kn =
     (if us \<ge> 100 \<and> us \<le> 200000 then pit_reprogram_for_quantum (ucast us) (kn\<lparr>kn_ticks := ucast (us div 1000)\<rparr>) else kn)"

definition conf_set_preempt :: "u64 \<Rightarrow> knobs \<Rightarrow> knobs" where
  "conf_set_preempt on kn =
     (let want = (on AND 1 \<noteq> 0);
          kn = (if want \<and> \<not> kn_preempt kn then pit_reprogram_for_quantum (kn_ticks kn * 1000) kn else kn)
      in kn\<lparr>kn_preempt := want\<rparr>)"

abbreviation (input) KNOB_COUNT :: nat where "KNOB_COUNT \<equiv> 8"
abbreviation (input) KNOB_LOG_LEVEL :: nat where "KNOB_LOG_LEVEL \<equiv> 1"
abbreviation (input) KNOB_AUDIT_MASK :: nat where "KNOB_AUDIT_MASK \<equiv> 2"
abbreviation (input) SCHED_CAP_CONF :: u64 where "SCHED_CAP_CONF \<equiv> 0x80"

definition sched_knob_set :: "nat \<Rightarrow> u64 \<Rightarrow> knobs \<Rightarrow> knobs" where
  "sched_knob_set idx val kn = (if idx \<ge> KNOB_COUNT then kn else kn\<lparr>kn_store := (kn_store kn)[idx := val]\<rparr>)"

definition sched_knobs_init :: "knobs \<Rightarrow> knobs" where
  "sched_knobs_init kn = kn\<lparr>kn_store := (kn_store kn)[0 := 5000, 1 := 1, 2 := 255]\<rparr>"

text \<open>SETCONF: the caller's capability mask, the payload, the status of the reply.\<close>

definition registry_setconf :: "u64 \<Rightarrow> bytes \<Rightarrow> knobs \<Rightarrow> u32 \<times> knobs" where
  "registry_setconf caps payload kn =
     (if caps AND SCHED_CAP_CONF = 0 then (0xFFFFFFFF, kn)
      else if length payload < 24 then (0xFFFFFFFF, kn)
      else
        let cfgkey = takeWhile (\<lambda>c. c \<noteq> 0) (take 16 payload); val = Get64 (drop 16 payload)
        in (0,
            if cfgkey = str ''quantum_us'' \<or> cfgkey = str ''quantum'' then conf_set_quantum_us val kn
            else if cfgkey = str ''quantum_ms'' then conf_set_quantum_us (val * 1000) kn
            else if cfgkey = str ''preempt'' then conf_set_preempt val kn
            else if cfgkey = str ''log_level'' then sched_knob_set KNOB_LOG_LEVEL val kn
            else if cfgkey = str ''audit_mask'' then sched_knob_set KNOB_AUDIT_MASK val kn
            else kn))"

text \<open>The payload of \<^verbatim>\<open>RegistryClient.SetConf\<close> (\<^verbatim>\<open>guests/lib/registry.go\<close>).\<close>

definition setconf_payload :: "bytes \<Rightarrow> u64 \<Rightarrow> bytes" where
  "setconf_payload key val = Put64 (go_copy (replicate 24 0) 0 (padName key)) 16 val"

end
