(* ===== verification/Conf_Props.thy ===== *)
theory Conf_Props
  imports Conf
begin

text \<open>
  What a clean \<^verbatim>\<open>checkconf\<close> means for the programs that read the files: init for \<^verbatim>\<open>init.conf\<close>, login for \<^verbatim>\<open>users\<close>, the package
  manager for \<^verbatim>\<open>trusted\<close> and the kernel for the knobs of \<^verbatim>\<open>kernel.conf\<close>.
\<close>

section \<open>Clean files\<close>

abbreviation (input) skipped :: "bytes \<Rightarrow> bool" where
  "skipped raw \<equiv> TrimSpace raw = [] \<or> HasPrefix (TrimSpace raw) (str ''#'')"

lemma map_filter_Nil: "List.map_filter f xs = [] \<longleftrightarrow> (\<forall>x \<in> set xs. f x = None)"
  by (auto simp: List.map_filter_def filter_empty_conv)

lemma check_file_clean:
  "check_file body file text = [] \<longleftrightarrow>
   (\<forall>raw \<in> set (split_on 10 text). length raw \<le> 256 \<and> 0 \<notin> set raw \<and> (skipped raw \<or> body (TrimSpace raw) = None))"
proof -
  have i: "snd ` set (enumerate 0 (split_on 10 text)) = set (split_on 10 text)" by (metis list.set_map map_snd_enumerate)
  have e: "(\<forall>x \<in> set (enumerate 0 (split_on 10 text)). P (snd x)) \<longleftrightarrow> (\<forall>raw \<in> set (split_on 10 text). P raw)" for P
    unfolding i [symmetric] by simp
  have l: "check_line body raw = None \<longleftrightarrow> length raw \<le> 256 \<and> 0 \<notin> set raw \<and> (skipped raw \<or> body (TrimSpace raw) = None)" for raw
    by (auto simp: check_line_def Let_def)
  show ?thesis unfolding check_file_def map_filter_Nil using e [of "\<lambda>raw. check_line body raw = None"]
    by (simp add: split_beta l)
qed

section \<open>init.conf\<close>

lemma Fields_nonempty: "x \<in> set (Fields s) \<Longrightarrow> x \<noteq> []"
proof -
  have "x \<in> set (fields_loop cur s) \<Longrightarrow> x \<noteq> []" for cur s
  proof (induction cur s rule: fields_loop.induct)
    case (1 cur s)
    then show ?case by (subst (asm) fields_loop.simps) (auto split: option.splits list.splits if_splits)
  qed
  then show "x \<in> set (Fields s) \<Longrightarrow> x \<noteq> []" unfolding Fields_def by blast
qed

lemma init_line_iff: "init_line line = None \<longleftrightarrow> (\<exists>svc. parse_service ln line = Inr svc \<and> length (v_Name svc) \<le> 15)"
proof -
  have "Fields line ! i \<noteq> []" if "i < length (Fields line)" for i using Fields_nonempty nth_mem [OF that] by blast
  from this [of 0] this [of 1] have f: "\<not> length (Fields line) < 3 \<Longrightarrow> Fields line ! 0 \<noteq> [] \<and> Fields line ! 1 \<noteq> []" by fastforce
  show ?thesis
  proof (cases "length (Fields line) < 3")
    case True
    then show ?thesis by (simp add: init_line_def parse_service_def Let_def)
  next
    case False
    then show ?thesis using f by (auto simp: init_line_def parse_service_def Let_def split: option.splits)
  qed
qed

lemma parse_services_iff:
  "(\<exists>svcs. parse_services ln raws = Inr svcs \<and> (\<forall>svc \<in> set svcs. P svc)) \<longleftrightarrow>
   (\<forall>raw \<in> set raws. skipped raw \<or> (\<exists>svc. parse_service 0 (TrimSpace raw) = Inr svc \<and> P svc))"
proof (induction raws arbitrary: ln)
  case (Cons raw raws)
  have ln: "parse_service ln line = Inr svc \<longleftrightarrow> parse_service 0 line = Inr svc" for line svc
    by (auto simp: parse_service_def Let_def split: option.splits if_splits)
  show ?case
  proof (cases "skipped raw")
    case True
    then show ?thesis using Cons.IH [of "ln + 1"] by (auto simp: Let_def)
  next
    case False
    show ?thesis
    proof (cases "parse_service ln (TrimSpace raw)")
      case (Inl e)
      then have "\<nexists>svc. parse_service 0 (TrimSpace raw) = Inr svc" using ln by (metis Inl_Inr_False)
      then show ?thesis using False Inl by (auto simp: Let_def)
    next
      case (Inr svc)
      then have p: "parse_service 0 (TrimSpace raw) = Inr svc" using ln by blast
      have "(\<exists>svcs. parse_services ln (raw # raws) = Inr svcs \<and> (\<forall>svc \<in> set svcs. P svc)) \<longleftrightarrow>
          P svc \<and> (\<exists>svcs. parse_services (ln + 1) raws = Inr svcs \<and> (\<forall>svc \<in> set svcs. P svc))"
        using False Inr by (auto simp: Let_def split: sum.splits)
      then show ?thesis using Cons.IH [of "ln + 1"] False p by auto
    qed
  qed
qed simp

text \<open>C25: What \<^verbatim>\<open>checkconf\<close> accepts of \<^verbatim>\<open>init.conf\<close> is exactly what init accepts, restricted: the validator reports nothing if and only if
  init parses the file, every service name has at most 15 bytes, and no line is longer than 256 bytes or
  holds a zero byte.\<close>

theorem checkconf_init_exact:
  "ValidateInitConfFile file text = [] \<longleftrightarrow>
   (\<exists>svcs. ParseConf text = Inr svcs \<and> (\<forall>svc \<in> set svcs. length (v_Name svc) \<le> 15)) \<and>
   (\<forall>raw \<in> set (split_on 10 text). length raw \<le> 256 \<and> 0 \<notin> set raw)"
  unfolding ValidateInitConfFile_def check_file_clean ParseConf_def parse_services_iff init_line_iff [of _ 0] by blast

definition conf_a :: bytes where
  "conf_a = str ''a /b 8''"

lemma conf_a_parts: "TrimSpace conf_a = conf_a" "Fields conf_a = [str ''a'', str ''/b'', str ''8'']" "ParseUint (str ''8'') 16 64 = Some 8"
proof -
  have "trimmed conf_a" by (simp add: trimmed_def spaces_def HasPrefix_def HasSuffix_def str_def conf_a_def)
  then show "TrimSpace conf_a = conf_a" by (rule TrimSpace_id)
  show "Fields conf_a = [str ''a'', str ''/b'', str ''8'']"
    unfolding Fields_def conf_a_def by (simp add: fields_loop.simps space_at_def spaces_def HasPrefix_def str_def)
  show "ParseUint (str ''8'') 16 64 = Some 8" by (simp add: ParseUint_def digit_val_def hexVal_def str_def)
qed

theorem checkconf_init_exact_witness:
  "\<exists>svcs. ParseConf conf_a = Inr svcs \<and> (\<forall>svc \<in> set svcs. length (v_Name svc) \<le> 15)"
proof -
  have sp: "split_on 10 conf_a = [conf_a]" by (rule split_on_none) (simp add: conf_a_def str_def)
  have "init_line conf_a = None" unfolding init_line_def conf_a_parts(2)
    by (simp add: TrimPrefix_def HasPrefix_def str_def ParseUint_def digit_val_def hexVal_def)
  then have "ValidateInitConfFile (str ''f'') conf_a = []"
    unfolding ValidateInitConfFile_def check_file_clean sp by (simp add: conf_a_parts(1)) (simp add: conf_a_def str_def)
  then show ?thesis unfolding checkconf_init_exact by blast
qed

section \<open>users\<close>

lemma space_head_digit: "e \<in> set spaces \<Longrightarrow> HasPrefix s e \<Longrightarrow> s \<noteq> [] \<and> digit_val (s ! 0) = None \<and> s ! 0 \<noteq> 0x30"
proof -
  assume e: "e \<in> set spaces" and p: "HasPrefix s e"
  have "list_all (\<lambda>e. e \<noteq> [] \<and> digit_val (hd e) = None \<and> hd e \<noteq> 0x30) spaces" by code_simp
  then have "e \<noteq> [] \<and> digit_val (hd e) = None \<and> hd e \<noteq> 0x30" using e unfolding list_all_iff by blast
  then show ?thesis using p by (cases e) (auto simp: HasPrefix_iff)
qed

lemma ParseUint_head: "ParseUint s base bits = Some v \<Longrightarrow> s \<noteq> [] \<and> digit_val (s ! 0) \<noteq> None"
  by (cases s) (auto simp: ParseUint_def split: option.splits)

lemma users_line_None:
  "users_line line = None \<longleftrightarrow> (\<exists>a b c d v m. SplitN 0x3A 4 line = [a, b, c, d] \<and> a \<noteq> [] \<and> 0x20 \<notin> set a \<and> 9 \<notin> set a \<and>
     ParseUint b 10 32 = Some v \<and> (c = [] \<or> (\<exists>i. IndexByte c 0x24 = Some i \<and> 0 < i \<and> i \<noteq> length c - 1)) \<and>
     ParseUint (TrimPrefix (TrimPrefix d (str ''0x'')) (str ''0X'')) 16 64 = Some m)"
proof (cases "\<exists>a b c d. SplitN 0x3A 4 line = [a, b, c, d]")
  case True
  then obtain a b c d where s: "SplitN 0x3A 4 line = [a, b, c, d]" by blast
  let ?p = "ParseUint (TrimPrefix (TrimPrefix d (str ''0x'')) (str ''0X'')) 16 64"
  have "?p = Some m \<Longrightarrow> TrimPrefix (TrimPrefix d (str ''0x'')) (str ''0X'') \<noteq> []" for m using ParseUint_head by blast
  then show ?thesis unfolding users_line_def s by (auto simp: Let_def split: option.splits)
next
  case False
  then show ?thesis by (auto simp: users_line_def split: list.splits)
qed

text \<open>C26: A clean \<^verbatim>\<open>/etc/users\<close> loses login only the rows with a capital hexadecimal prefix.  If the validator reports nothing, login skips
  a row that is neither blank nor a comment exactly if its capability mask, after an optional 0x, starts with 0X; and every user
  login reads has a name, and a salt unless the hash field is empty.\<close>

theorem checkconf_users_login:
  assumes "ValidateUsersFile file text = []" "raw \<in> set (split_on 10 text)" "\<not> skipped raw"
  shows "\<exists>a b c d. SplitN 0x3A 4 (TrimSpace raw) = [a, b, c, d] \<and>
    (parse_user_line raw = None \<longleftrightarrow> HasPrefix (TrimPrefix d (str ''0x'')) (str ''0X'')) \<and>
    (\<forall>u. parse_user_line raw = Some u \<longrightarrow> u_Name u \<noteq> [] \<and> (u_Salt u = [] \<longrightarrow> u_Hash u = []))"
proof -
  have "users_line (TrimSpace raw) = None" using assms unfolding ValidateUsersFile_def check_file_clean by blast
  then obtain a b c d v m where r: "SplitN 0x3A 4 (TrimSpace raw) = [a, b, c, d]" "a \<noteq> []" "ParseUint b 10 32 = Some v"
    "c = [] \<or> (\<exists>i. IndexByte c 0x24 = Some i \<and> 0 < i \<and> i \<noteq> length c - 1)"
    "ParseUint (TrimPrefix (TrimPrefix d (str ''0x'')) (str ''0X'')) 16 64 = Some m"
    unfolding users_line_None by blast
  have t: "TrimSpace raw = (a @ 0x3A # b @ 0x3A # c) @ 0x3A # d" using r(1) by (simp add: SplitN_4)
  have "trimmed d" unfolding trimmed_def
  proof (intro ballI conjI notI)
    fix e assume e: "e \<in> set spaces"
    { assume "HasPrefix d e"
      from space_head_digit [OF e this] have "TrimPrefix (TrimPrefix d (str ''0x'')) (str ''0X'') = d" "digit_val (d ! 0) = None"
        by (cases d; simp add: TrimPrefix_def HasPrefix_def str_def)+
      then show False using ParseUint_head [OF r(5)] by simp }
    { assume "HasSuffix d e"
      then have "HasSuffix (TrimSpace raw) e" unfolding HasSuffix_iff t by (metis append.assoc append_Cons)
      then show False using TrimSpace_trimmed [of raw] e by (simp add: trimmed_def) }
  qed
  then have td: "TrimSpace d = d" by (rule TrimSpace_id)
  have x: "ParseUint (TrimPrefix d (str ''0x'')) 16 64 = None \<longleftrightarrow> HasPrefix (TrimPrefix d (str ''0x'')) (str ''0X'')"
  proof
    assume "HasPrefix (TrimPrefix d (str ''0x'')) (str ''0X'')"
    then obtain z where "TrimPrefix d (str ''0x'') = 0x30 # 0x58 # z" by (auto simp: HasPrefix_iff str_def)
    then show "ParseUint (TrimPrefix d (str ''0x'')) 16 64 = None" by (simp add: ParseUint_def digit_val_def hexVal_def)
  next
    assume "ParseUint (TrimPrefix d (str ''0x'')) 16 64 = None"
    then show "HasPrefix (TrimPrefix d (str ''0x'')) (str ''0X'')" using r(5) unfolding TrimPrefix_def [of "TrimPrefix d (str ''0x'')"]
      by (auto split: if_splits)
  qed
  have p: "parse_user_line raw = (case ParseUint (TrimPrefix d (str ''0x'')) 16 64 of None \<Rightarrow> None
      | Some m \<Rightarrow> Some \<lparr>u_Name = a, u_UID = of_nat v, u_Mask = of_nat m, u_Salt = fst (splitSalted c), u_Hash = snd (splitSalted c)\<rparr>)"
    using assms(3) r(1,3) td by (simp add: parse_user_line_def Let_def split: prod.splits option.splits)
  have s: "fst (splitSalted c) = [] \<longrightarrow> snd (splitSalted c) = []" using r(4) by (auto simp: splitSalted_def IndexByte_def split: if_splits)
  show ?thesis using r(1,2) x p s by (intro exI [of _ a] exI [of _ b] exI [of _ c] exI [of _ d]) (auto split: option.splits)
qed

definition row_b :: bytes where
  "row_b = str ''a:0:s$h:0X1''"

theorem checkconf_users_login_witness:
  "ValidateUsersFile (str ''f'') row_b = [] \<and> parse_user_line row_b = None"
proof -
  have sp: "split_on 10 row_b = [row_b]" by (rule split_on_none) (simp add: row_b_def str_def)
  have "trimmed row_b" by (simp add: trimmed_def spaces_def HasPrefix_def HasSuffix_def str_def row_b_def)
  then have t: "TrimSpace row_b = row_b" by (rule TrimSpace_id)
  have s4: "SplitN 0x3A 4 row_b = [str ''a'', str ''0'', str ''s$h'', str ''0X1'']" unfolding SplitN_4 by (simp add: str_def row_b_def)
  have k: "\<not> skipped row_b" unfolding t by (simp add: row_b_def str_def HasPrefix_def)
  have "users_line row_b = None" unfolding users_line_def s4
    by (simp add: str_def ParseUint_def digit_val_def hexVal_def IndexByte_def TrimPrefix_def HasPrefix_def)
  then have v: "ValidateUsersFile (str ''f'') row_b = []"
    unfolding ValidateUsersFile_def check_file_clean sp by (simp add: t) (simp add: row_b_def str_def)
  have "parse_user_line row_b = None \<longleftrightarrow> HasPrefix (TrimPrefix (str ''0X1'') (str ''0x'')) (str ''0X'')"
    using checkconf_users_login [OF v _ k] unfolding t s4 sp by auto
  then show ?thesis using v by (simp add: HasPrefix_def TrimPrefix_def str_def)
qed

section \<open>trusted\<close>

lemma length_map_filter:
  "\<forall>x \<in> set xs. P x \<or> (\<exists>k. Q x k) \<Longrightarrow> (\<And>x. P x \<Longrightarrow> f x = None) \<Longrightarrow> (\<And>x k. \<not> P x \<Longrightarrow> Q x k \<Longrightarrow> f x \<noteq> None) \<Longrightarrow>
   length (List.map_filter f xs) = length (filter (\<lambda>x. \<not> P x) xs)"
proof (induction xs)
  case (Cons x xs)
  then show ?case by (cases "P x") (auto simp: List.map_filter_def)
qed (simp add: List.map_filter_def)

lemma trusted_None: "trusted_line line = None \<longleftrightarrow> (\<exists>key. DecodeString line = Some key \<and> length key = 32)"
  by (auto simp: trusted_line_def split: option.splits)

lemma readTrusted_clean:
  assumes "ValidateTrustedFile file text = []"
  shows "length (readTrusted text) = length (filter (\<lambda>raw. \<not> skipped raw) (split_on 10 text))"
proof -
  have "\<forall>raw \<in> set (split_on 10 text). skipped raw \<or> (\<exists>key. DecodeString (TrimSpace raw) = Some key \<and> length key = 32)"
    using assms unfolding ValidateTrustedFile_def check_file_clean trusted_None by blast
  then show ?thesis unfolding readTrusted_def
    by (rule length_map_filter [where Q = "\<lambda>raw key. DecodeString (TrimSpace raw) = Some key \<and> length key = 32"]) (simp_all add: Let_def)
qed

section \<open>Knobs\<close>

lemma setconf_fields:
  assumes "length key \<le> 16" "0 \<notin> set key"
  shows "length (setconf_payload key val) = 24" "takeWhile (\<lambda>c. c \<noteq> 0) (take 16 (setconf_payload key val)) = key"
    "Get64 (drop 16 (setconf_payload key val)) = val"
proof -
  have e: "setconf_payload key val = (key @ replicate (16 - length key) 0) @ le64 val"
    using assms(1) by (simp add: setconf_payload_def padName_fields Put64_def go_copy_def)
  show "length (setconf_payload key val) = 24" "Get64 (drop 16 (setconf_payload key val)) = val" unfolding e using assms(1) by simp_all
  have "takeWhile (\<lambda>c. c \<noteq> 0) (key @ replicate n 0) = key" for n using cstr16_pad [OF assms(2), of n] by (simp add: cstr16_def)
  then show "takeWhile (\<lambda>c. c \<noteq> 0) (take 16 (setconf_payload key val)) = key" unfolding e using assms(1) by simp
qed

lemma knob_neq:
  "str ''quantum_us'' \<noteq> str ''log_level''" "str ''quantum_us'' \<noteq> str ''audit_mask''" "str ''quantum_us'' \<noteq> str ''preempt''"
  "str ''quantum_us'' \<noteq> str ''quantum_ms''" "str ''quantum_us'' \<noteq> str ''quantum''" "str ''log_level'' \<noteq> str ''audit_mask''"
  "str ''log_level'' \<noteq> str ''preempt''" "str ''log_level'' \<noteq> str ''quantum_ms''" "str ''log_level'' \<noteq> str ''quantum''"
  "str ''audit_mask'' \<noteq> str ''preempt''" "str ''audit_mask'' \<noteq> str ''quantum_ms''" "str ''audit_mask'' \<noteq> str ''quantum''"
  "str ''preempt'' \<noteq> str ''quantum_ms''" "str ''preempt'' \<noteq> str ''quantum''" "str ''quantum_ms'' \<noteq> str ''quantum''"
  by (simp_all add: str_def)

lemmas knob_neqs = knob_neq knob_neq [symmetric]

lemma NormalizeKnob_Some:
  "NormalizeKnob key = Some canon \<Longrightarrow>
   key = str ''quantum_us'' \<and> canon = str ''quantum_us'' \<or> key = str ''log_level'' \<and> canon = str ''log_level'' \<or>
   key = str ''audit_mask'' \<and> canon = str ''audit_mask'' \<or> key = str ''preempt'' \<and> canon = str ''preempt'' \<or>
   key = str ''quantum_ms'' \<and> canon = str ''quantum_us'' \<or> key = str ''quantum'' \<and> canon = str ''quantum_us''"
  by (auto simp: NormalizeKnob_def split: if_splits)

text \<open>The range check of a quantum, and what the kernel does with a key, as functions of the value.\<close>

lemma quantum_range:
  "checkKnobRange (str ''quantum_us'') key num = None \<longleftrightarrow>
   (let us = (if key = str ''quantum_ms'' \<or> key = str ''quantum'' then num * 1000 else num) in 100 \<le> us \<and> us \<le> 200000)"
  by (auto simp: checkKnobRange_def Let_def not_less)

lemma preempt_range: "checkKnobRange (str ''preempt'') key num = None \<Longrightarrow> num = 0 \<or> num = 1"
proof -
  assume "checkKnobRange (str ''preempt'') key num = None"
  then have "\<not> 1 < num" by (auto simp: checkKnobRange_def knob_neqs split: if_splits)
  then have "unat num \<le> 1" by (simp add: word_less_nat_alt)
  then have "unat num = 0 \<or> unat num = 1" by linarith
  then show ?thesis by (metis unat_0 unsigned_1 word_unat_eq_iff)
qed

definition knob_effect :: "bytes \<Rightarrow> u64 \<Rightarrow> knobs \<Rightarrow> knobs" where
  "knob_effect key num kn =
     (if key = str ''quantum_us'' \<or> key = str ''quantum'' then conf_set_quantum_us num kn
      else if key = str ''quantum_ms'' then conf_set_quantum_us (num * 1000) kn
      else if key = str ''preempt'' then conf_set_preempt num kn
      else if key = str ''log_level'' then sched_knob_set 1 num kn
      else if key = str ''audit_mask'' then sched_knob_set 2 num kn else kn)"

lemma setconf_effect:
  assumes "length key \<le> 16" "0 \<notin> set key" "caps AND SCHED_CAP_CONF \<noteq> 0"
  shows "registry_setconf caps (setconf_payload key num) kn = (0, knob_effect key num kn)"
  unfolding registry_setconf_def setconf_fields [OF assms(1,2)] knob_effect_def Let_def using assms(3) by simp

lemma preempt_switch: "num = 0 \<or> num = 1 \<Longrightarrow> kn_preempt (conf_set_preempt num kn) \<longleftrightarrow> num = 1"
  by (auto simp: conf_set_preempt_def Let_def)


definition ex_knobs :: knobs where
  "ex_knobs = \<lparr>kn_ticks = 5, kn_preempt = True, kn_pit = 5965, kn_store = [5000, 1, 255, 0, 0, 0, 0, 0]\<rparr>"


text \<open>A quantum below a millisecond turns into a timer storm.  The kernel keeps the quantum in whole milliseconds: after any
  accepted value below 1000 microseconds it reports a quantum of zero, and switching preemption off and on again
  programs the timer with the smallest divisor, about 1.2 million interrupts a second.\<close>

theorem preempt_tick_storm:
  assumes "100 \<le> us" "us < 1000"
  shows "preempt_quantum_us (conf_set_quantum_us us kn) = 0 \<and>
    kn_pit (conf_set_preempt 1 (conf_set_preempt 0 (conf_set_quantum_us us kn))) = 1"
proof -
  have "unat us < 1000" using assms(2) by (simp add: word_less_nat_alt)
  then have "us div 1000 = 0" by (simp add: word_unat_eq_iff unat_div)
  moreover have "us \<le> 200000" using assms(2) by (simp add: word_le_nat_alt word_less_nat_alt)
  ultimately show ?thesis using assms(1)
    by (simp add: conf_set_quantum_us_def conf_set_preempt_def pit_reprogram_for_quantum_def preempt_quantum_us_def Let_def)
qed

theorem preempt_tick_storm_witness:
  "preempt_quantum_us (conf_set_quantum_us 500 ex_knobs) = 0 \<and>
   kn_pit (conf_set_preempt 1 (conf_set_preempt 0 (conf_set_quantum_us 500 ex_knobs))) = 1"
  using preempt_tick_storm [of 500 ex_knobs] by simp

end
