(* ===== verification/Init_Props.thy ===== *)
theory Init_Props
  imports Init_Sup
begin

text \<open>
  The supervisor of init along every run: a step relation over boot, sweeps, initctl requests and whatever the kernel does in
  between, its invariant, what one sweep does to each service, the bound on retries, and what a refused kill leads to.
\<close>

section \<open>Runs\<close>

inductive sup_reach :: "'k registry \<Rightarrow> Service list \<Rightarrow> svcState list \<Rightarrow> 'k \<Rightarrow> bool" for R svcs where
  start: "sup_boot R svcs k = (sts, k') \<Longrightarrow> sup_reach R svcs sts k'"
| sweeps: "sup_reach R svcs sts k \<Longrightarrow> sweep R sts k = (sts', k') \<Longrightarrow> sup_reach R svcs sts' k'"
| request: "sup_reach R svcs sts k \<Longrightarrow> handleInitctl R src ks knobsText subop pl sts k = (status, sts', k') \<Longrightarrow> sup_reach R svcs sts' k'"
| kernel: "sup_reach R svcs sts k \<Longrightarrow> sup_reach R svcs sts k'"

definition sup_ok :: "svcState \<Rightarrow> bool" where
  "sup_ok st \<longleftrightarrow> sv_fails st \<le> maxSpawnFails \<and> (sv_spawned st \<longrightarrow> sv_fails st = 0)"

abbreviation (input) svc_name :: "svcState \<Rightarrow> bytes" where
  "svc_name st \<equiv> v_Name (sv_svc st)"

section \<open>One service\<close>

lemma spawn_ok:
  "spawn R st k = (st', k') \<Longrightarrow> sup_ok st \<Longrightarrow> \<not> sv_spawned st \<Longrightarrow> sup_ok st' \<and> sv_svc st' = sv_svc st"
  by (auto simp: spawn_def sup_ok_def split: if_splits prod.splits option.splits)

lemma new_state_ok: "sup_ok (new_state svc)" "\<not> sv_spawned (new_state svc)" "sv_svc (new_state svc) = svc"
  by (simp_all add: new_state_def sup_ok_def)

lemma reset_ok: "sup_ok st \<Longrightarrow> sup_ok (st\<lparr>sv_spawned := False\<rparr>)" "sup_ok (st\<lparr>sv_spawned := False, sv_fails := 0\<rparr>)"
  by (simp_all add: sup_ok_def)

lemma sweep_one_ok: "sweep_one R alive st k = (st', k') \<Longrightarrow> sup_ok st \<Longrightarrow> sup_ok st' \<and> sv_svc st' = sv_svc st"
  using spawn_ok [of R "st\<lparr>sv_spawned := False\<rparr>" k st' k'] spawn_ok [of R st k st' k'] reset_ok(1) [of st]
  by (auto simp: sweep_one_def split: if_splits)

lemma reload_one_ok: "reload_one R alive st k = (st', k') \<Longrightarrow> sup_ok st \<Longrightarrow> sup_ok st' \<and> sv_svc st' = sv_svc st"
  using spawn_ok [of R "st\<lparr>sv_spawned := False, sv_fails := 0\<rparr>" k st' k'] reset_ok(2) [of st]
  by (auto simp: reload_one_def split: if_splits)

lemma restart_ok: "restart R st k = (st', k') \<Longrightarrow> sup_ok st' \<and> sv_svc st' = sv_svc st"
  using spawn_ok [of R "st\<lparr>sv_spawned := False, sv_fails := 0\<rparr>"] spawn_ok [of R "st\<lparr>sv_fails := 0\<rparr>"]
  by (fastforce simp: restart_def sup_ok_def split: if_splits)

section \<open>All services\<close>

lemma each_ok:
  assumes "\<And>st k st' k'. f st k = (st', k') \<Longrightarrow> P st \<Longrightarrow> Q st' \<and> sv_svc st' = sv_svc st"
  shows "each f sts k = (sts', k') \<Longrightarrow> list_all P sts \<Longrightarrow> list_all Q sts' \<and> map sv_svc sts' = map sv_svc sts"
proof (induction sts arbitrary: k sts' k')
  case (Cons st sts)
  obtain st1 k1 where f: "f st k = (st1, k1)" by fastforce
  obtain sts1 k2 where e: "each f sts k1 = (sts1, k2)" by fastforce
  show ?case using Cons.prems assms [OF f] Cons.IH [OF e] f e by auto
qed simp

lemma byName_Some: "byName sts name = Some i \<Longrightarrow> i < length sts \<and> svc_name (sts ! i) = name"
  by (auto simp: byName_def find_Some_iff)

definition keeps :: "svcState list \<Rightarrow> svcState list \<Rightarrow> bool" where
  "keeps sts sts' \<longleftrightarrow> list_all sup_ok sts' \<and> (\<exists>new. map svc_name sts' = map svc_name sts @ new)"

lemma keeps_trans: "keeps a b \<Longrightarrow> keeps b c \<Longrightarrow> keeps a c"
  by (auto simp: keeps_def)

lemma map_names: "map svc_name sts = map v_Name (map sv_svc sts)"
  by simp

lemma keeps_same: "list_all sup_ok sts' \<Longrightarrow> map sv_svc sts' = map sv_svc sts \<Longrightarrow> keeps sts sts'"
  unfolding keeps_def map_names by simp

lemma keeps_upd: "list_all sup_ok sts \<Longrightarrow> sup_ok st \<Longrightarrow> svc_name st = svc_name (sts ! i) \<Longrightarrow> keeps sts (sts[i := st])"
proof (cases "i < length sts")
  case True
  assume a: "list_all sup_ok sts" "sup_ok st" "svc_name st = svc_name (sts ! i)"
  have "map svc_name (sts[i := st]) = map svc_name sts" using a(3) True by (metis list_update_id map_update nth_map)
  moreover have "list_all sup_ok (sts[i := st])" using a(1,2) set_update_subset_insert [of sts i st] by (auto simp: list_all_iff)
  ultimately show ?thesis by (simp add: keeps_def)
qed (simp add: keeps_def list_update_beyond)

lemma reload_merge_ok: "reload_merge R svcs sts k = (sts', k') \<Longrightarrow> list_all sup_ok sts \<Longrightarrow> keeps sts sts'"
proof (induction svcs arbitrary: sts k)
  case (Cons svc svcs)
  show ?case
  proof (cases "byName sts (v_Name svc)")
    case None
    obtain st k1 where s: "spawn R (new_state svc) k = (st, k1)" by fastforce
    have "sup_ok st" using spawn_ok [OF s] new_state_ok by blast
    then have "list_all sup_ok (sts @ [st])" "keeps sts (sts @ [st])" using Cons.prems(2) by (simp_all add: keeps_def)
    then show ?thesis using Cons.IH [of "sts @ [st]" k1] Cons.prems(1) None s keeps_trans by fastforce
  next
    case (Some i)
    let ?st = "(sts ! i)\<lparr>sv_svc := (sv_svc (sts ! i))\<lparr>v_Path := v_Path svc, v_Capmask := v_Capmask svc, v_Respawn := v_Respawn svc\<rparr>\<rparr>"
    have "sup_ok ?st" using Cons.prems(2) byName_Some [OF Some] by (auto simp: list_all_length sup_ok_def)
    then have k: "keeps sts (sts[i := ?st])" by (intro keeps_upd Cons.prems) simp_all
    then show ?thesis using Cons.IH [of "sts[i := ?st]" k] Cons.prems(1) Some keeps_trans by (auto simp: keeps_def)
  qed
qed (simp add: keeps_def)

lemma reload_drop_ok: "list_all sup_ok sts \<Longrightarrow> keeps sts (map (reload_drop svcs) sts)"
proof -
  have "svc_name \<circ> reload_drop svcs = svc_name" by (auto simp: fun_eq_iff reload_drop_def)
  then show "list_all sup_ok sts \<Longrightarrow> ?thesis" by (auto simp: keeps_def reload_drop_def sup_ok_def list_all_iff)
qed

lemma sweep_ok: "sweep R sts k = (sts', k') \<Longrightarrow> list_all sup_ok sts \<Longrightarrow> keeps sts sts'"
  using each_ok [of "sweep_one R _" sup_ok sup_ok, OF sweep_one_ok] keeps_same
  by (fastforce simp: sweep_def split: prod.splits option.splits if_splits)

lemma reload_ok:
  assumes "reloadInitconf R src sts k = (r, sts', k')" "list_all sup_ok sts"
  shows "keeps sts sts'"
proof (cases "\<exists>cfg svcs. src = Some cfg \<and> ParseConf cfg = Inr svcs")
  case True
  then obtain cfg svcs where f: "src = Some cfg" "ParseConf cfg = Inr svcs" by blast
  obtain sts1 k1 where m: "reload_merge R svcs sts k = (sts1, k1)" by fastforce
  note k1 = reload_merge_ok [OF m assms(2)]
  then have k2: "keeps sts1 (map (reload_drop svcs) sts1)" by (intro reload_drop_ok) (simp add: keeps_def)
  let ?s = "map (reload_drop svcs) sts1"
  obtain li k3 where l: "rg_List R k1 = (li, k3)" by fastforce
  have "keeps ?s sts'"
  proof (cases li)
    case None
    then show ?thesis using assms(1) f m l k2 by (auto simp: reloadInitconf_def keeps_def)
  next
    case (Some sis)
    obtain sts3 k4 where e: "each (reload_one R (alive_map sis)) ?s k3 = (sts3, k4)" by fastforce
    have s: "list_all sup_ok ?s" using k2 by (simp add: keeps_def)
    have "list_all sup_ok sts3 \<and> map sv_svc sts3 = map sv_svc ?s"
      by (rule each_ok [OF _ e s]) (rule reload_one_ok)
    then have "keeps ?s sts3" by (intro keeps_same) simp_all
    then show ?thesis using assms(1) f m l Some e by (simp add: reloadInitconf_def)
  qed
  then show ?thesis using k1 k2 keeps_trans by blast
next
  case False
  then have "sts' = sts" using assms(1) by (auto simp: reloadInitconf_def split: option.splits sum.splits)
  then show ?thesis using assms(2) by (simp add: keeps_def)
qed

lemma request_ok:
  assumes "handleInitctl R src ks knobsText subop pl sts k = (status, sts', k')" "list_all sup_ok sts"
  shows "keeps sts sts'"
proof -
  have same: "keeps sts sts" using assms(2) by (simp add: keeps_def)
  have upd: "keeps sts (sts[i := st])" if "byName sts n = Some i" "sup_ok st" "svc_name st = svc_name (sts ! i)" for i st n
    using keeps_upd [OF assms(2) that(2,3)] .
  have pol: "sup_ok ((sts ! i)\<lparr>sv_svc := v\<rparr>)" if "byName sts n = Some i" for i v n
    using byName_Some [OF that] assms(2) by (simp add: list_all_length sup_ok_def)
  have rel: "keeps sts s" if "reloadInitconf R src sts k = (r, s, q)" for r s q using reload_ok [OF that assms(2)] .
  have res: "sup_ok s \<and> svc_name s = svc_name (sts ! i)" if "restart R (sts ! i) k = (s, q)" for i s q using restart_ok [OF that] by simp
  show ?thesis
    using assms(1) same upd pol rel res unfolding handleInitctl_def
    by (auto split: if_splits option.splits prod.splits sum.splits reload_err.splits)
qed


text \<open>A registry that counts the spawns it refuses.\<close>

definition ex_registry :: "nat registry" where
  "ex_registry = \<lparr>rg_Spawn = (\<lambda>_ _ _ n. (None, n + 1)), rg_List = (\<lambda>n. (Some [], n)), rg_Kill = (\<lambda>_ n. (Some 0xFFFFFFFF, n)),
     rg_SetConf = (\<lambda>_ _ n. (True, n))\<rparr>"

definition ex_svc :: Service where
  "ex_svc = \<lparr>v_Name = str ''net'', v_Path = str ''/boot/modules/net.wasm'', v_Capmask = 0x20, v_Respawn = True\<rparr>"


section \<open>Sweeps\<close>

lemma each_nth:
  "each f sts k = (sts', k') \<Longrightarrow> length sts' = length sts \<and> (\<forall>i < length sts. \<exists>ka kb. f (sts ! i) ka = (sts' ! i, kb))"
proof (induction sts arbitrary: k sts' k')
  case (Cons st sts)
  obtain st1 k1 where f: "f st k = (st1, k1)" by fastforce
  obtain sts1 k2 where e: "each f sts k1 = (sts1, k2)" by fastforce
  have r: "sts' = st1 # sts1" using Cons.prems f e by simp
  show ?case unfolding r
  proof (intro conjI allI impI)
    show "length (st1 # sts1) = length (st # sts)" using Cons.IH [OF e] by simp
    fix i assume "i < length (st # sts)"
    then show "\<exists>ka kb. f ((st # sts) ! i) ka = ((st1 # sts1) ! i, kb)"
      using Cons.IH [OF e] f by (cases i) auto
  qed
qed simp

lemma sweep_one_result:
  assumes "sup_ok st" "sweep_one R alive st ka = (st', kb)"
  shows "if \<not> v_Respawn (sv_svc st) \<or> sv_spawned st \<and> alive (sv_sid st) = Some True \<or> \<not> sv_spawned st \<and> sv_fails st \<in> {0, 5}
    then st' = st
    else \<exists>r kb. rg_Spawn R (svc_name st) (v_Path (sv_svc st)) (v_Capmask (sv_svc st)) ka = (r, kb) \<and>
      (case r of
         Some sid \<Rightarrow> st' = st\<lparr>sv_sid := sid, sv_spawned := True, sv_fails := 0\<rparr>
       | None \<Rightarrow> st' = st\<lparr>sv_spawned := False, sv_fails := sv_fails st + 1\<rparr>)"
proof -
  obtain r kc where s: "rg_Spawn R (svc_name st) (v_Path (sv_svc st)) (v_Capmask (sv_svc st)) ka = (r, kc)" by fastforce
  have f: "sv_fails st \<noteq> 5 \<Longrightarrow> \<not> 5 \<le> sv_fails st" "sv_spawned st \<Longrightarrow> sv_fails st = 0" using assms(1) by (simp_all add: sup_ok_def)
  have n: "\<not> sv_spawned st \<Longrightarrow> st\<lparr>sv_spawned := False\<rparr> = st" by (cases st) simp
  show ?thesis
  proof (cases "sv_spawned st")
    case True
    then show ?thesis using assms(2) s f(2) by (cases r) (auto simp: sweep_one_def spawn_def split: if_splits)
  next
    case False
    have "st\<lparr>sv_spawned := False, sv_fails := sv_fails st + 1\<rparr> = st\<lparr>sv_fails := sv_fails st + 1\<rparr>" using n [OF False] by simp
    then show ?thesis using False assms(2) s f(1) by (cases r) (auto simp: sweep_one_def spawn_def split: if_splits)
  qed
qed



section \<open>A refused kill\<close>

text \<open>A restart does not look at the answer to its kill.  If the kernel refuses to kill the running session and then spawns, the restart reports success and
  supervises the new session only: the old one, still running, is supervised by nobody.\<close>

theorem restart_refused_kill:
  assumes "byName sts pl = Some i" "pl \<noteq> []" "length pl \<le> 15" "sv_spawned (sts ! i)"
    and "rg_Kill R (sv_sid (sts ! i)) k = (Some 0xFFFFFFFF, k1)"
    and "rg_Spawn R pl (v_Path (sv_svc (sts ! i))) (v_Capmask (sv_svc (sts ! i))) k1 = (Some sid, k2)"
    and "\<forall>j < length sts. j \<noteq> i \<longrightarrow> sv_sid (sts ! j) \<noteq> sv_sid (sts ! i)" "sid \<noteq> sv_sid (sts ! i)"
  shows "\<exists>sts'. handleInitctl R src ks knobsText InitSubRestart pl sts k = (InitOK, sts', k2) \<and>
    sv_spawned (sts' ! i) \<and> sv_sid (sts' ! i) = sid \<and> (\<forall>st \<in> set sts'. sv_sid st \<noteq> sv_sid (sts ! i))"
proof -
  note b = byName_Some [OF assms(1)]
  let ?st = "(sts ! i)\<lparr>sv_sid := sid, sv_spawned := True, sv_fails := 0\<rparr>"
  have "restart R (sts ! i) k = (?st, k2)" using assms(4-6) b by (simp add: restart_def spawn_def)
  then have h: "handleInitctl R src ks knobsText InitSubRestart pl sts k = (InitOK, sts[i := ?st], k2)"
    using assms(1-3) by (simp add: handleInitctl_def)
  have "\<forall>st \<in> set (sts[i := ?st]). sv_sid st \<noteq> sv_sid (sts ! i)"
  proof
    fix st assume "st \<in> set (sts[i := ?st])"
    then obtain j where "j < length sts" "st = sts[i := ?st] ! j" by (auto simp: in_set_conv_nth)
    then show "sv_sid st \<noteq> sv_sid (sts ! i)" using assms(7,8) b by (cases "j = i") simp_all
  qed
  then show ?thesis using h b by (intro exI [of _ "sts[i := ?st]"]) simp
qed

theorem restart_refused_kill_witness:
  "\<exists>sts'. handleInitctl (ex_registry\<lparr>rg_Spawn := \<lambda>_ _ _ n. (Some 9, n + 1)\<rparr>) None [] [] InitSubRestart (str ''net'')
      [(new_state ex_svc)\<lparr>sv_sid := 4, sv_spawned := True\<rparr>] 0 = (InitOK, sts', 1) \<and> (\<forall>st \<in> set sts'. sv_sid st \<noteq> 4)"
proof -
  let ?s = "[(new_state ex_svc)\<lparr>sv_sid := 4, sv_spawned := True\<rparr>]"
  let ?R = "ex_registry\<lparr>rg_Spawn := \<lambda>_ _ _ n. (Some 9, n + 1)\<rparr>"
  have b: "byName ?s (str ''net'') = Some 0" by (simp add: byName_def new_state_def ex_svc_def)
  have r: "rg_Kill ?R (sv_sid (?s ! 0)) 0 = (Some 0xFFFFFFFF, 0)" "str ''net'' \<noteq> []" "length (str ''net'') \<le> 15" "sv_spawned (?s ! 0)"
    "rg_Spawn ?R (str ''net'') (v_Path (sv_svc (?s ! 0))) (v_Capmask (sv_svc (?s ! 0))) 0 = (Some 9, 1)"
    by (simp_all add: ex_registry_def str_def)
  show ?thesis using restart_refused_kill [OF b r(2,3,4,1,5), of None "[]" "[]"] by auto
qed

end
