(* ===== verification/Spec2Isabelle.thy ===== *)
theory Spec2Isabelle
  imports Kfs_Properties Fs_Server_Props Fs_Block Fs_Main Net_Codec Net_Ring Net_Tcp_Close Net_Port Kern_Ports_Props Shell_Passwd Conf_Props Init_Props
begin

text \<open>
  \<^bold>\<open>mkgo: file system, network, kernel ports and the services that decide who may do what.\<close>

  \<^bold>\<open>The program.\<close>  mkgo is a small kernel in C++ (\<^verbatim>\<open>core/\<close>) that runs WebAssembly guests written in Go.  Guests talk
  over named message ports: a client sends a datagram with a 24-byte header to a service's port, and the kernel stamps
  the sender's session and uid into it; the service answers on the client's reply port.  \<^verbatim>\<open>services/fs\<close> serves files
  from a log-structured volume (format in \<^verbatim>\<open>kfs/\<close>) under a multi-user policy, \<^verbatim>\<open>services/net\<close> serves sockets from its own
  ARP, IPv4, UDP, TCP and DHCP stack, \<^verbatim>\<open>services/init\<close> starts and supervises the services, \<^verbatim>\<open>services/login\<close>
  authenticates users against \<^verbatim>\<open>/etc/users\<close>, registers them with the file server and has the kernel set identities, and the
  shell changes passwords and validates configuration files.  All file names here and below are relative to \<^verbatim>\<open>src/\<close>.

  \<^bold>\<open>Conventions.\<close>  Machine integers are words of their width, byte slices and strings are lists of bytes, structs are
  records, Go errors are the left summand of a sum, and an operation that fails after it has changed something returns both
  the error and the state it leaves (\<^verbatim>\<open>Prelude\<close>).  A panic is an error value of its own.  Loops are recursive functions with a
  termination proof; a loop that may run for ever is a partial function into option, and that it returns is then a statement
  of its own.  No definition takes fuel.  Definitions keep the names of the source, with a prefix for the receiver
  (\<^verbatim>\<open>conn_handle\<close>, \<^verbatim>\<open>ring_Send\<close>) where two types share a method name.

  \<^bold>\<open>Volume format and log (\<close>\<^verbatim>\<open>kfs/format.go\<close>\<^bold>\<open>, \<close>\<^verbatim>\<open>kfs/formatter.go\<close>\<^bold>\<open>).\<close>
  \<^item> \<^verbatim>\<open>Kfs_Format\<close>: superblock, CRC-framed records, payloads, placement of the data volume.
  \<^item> \<^verbatim>\<open>Kfs_Device\<close>: devices, as a record of three methods over an arbitrary state.  The locale \<^verbatim>\<open>block_device\<close> says that a
    device behaves as one flat byte image; it is interpreted on the memory device, offset and discovered volumes, the
    shared-memory window (\<^verbatim>\<open>Fs_Block\<close>) and the kernel's block imports (\<^verbatim>\<open>Fs_Import\<close>).
  \<^item> \<^verbatim>\<open>Kfs_Formatter\<close>, \<^verbatim>\<open>Kfs_Properties\<close>: formatter, log writer and log reader as operations on that image; round
    trips, what a corrupted frame cannot pass as, and that the reader returns what was appended.

  \<^bold>\<open>The guest file system (\<close>\<^verbatim>\<open>services/fs/kfs.go\<close>\<^bold>\<open>, \<close>\<^verbatim>\<open>mount.go\<close>\<^bold>\<open>).\<close>
  \<^item> \<^verbatim>\<open>Fs_Kfs\<close>: the whole of every method; \<^verbatim>\<open>Fs_Kfs_Log\<close>, \<^verbatim>\<open>Fs_Kfs_Sync\<close>, \<^verbatim>\<open>Fs_Kfs_Ops\<close>, \<^verbatim>\<open>Fs_Kfs_Data\<close>: mounting as a
    function of the log, agreement of memory and log under each operation, and file contents.
  \<^item> \<^verbatim>\<open>Fs_Kfs_Run\<close>, \<^verbatim>\<open>Fs_Kfs_Tree\<close>: runs as the step relation \<^verbatim>\<open>kfs_reach\<close>.  A remount rebuilds tables and contents, a read
    returns the last write, a torn append is as if it had not been started, tables stay well-formed, and a write changes no
    other path.  Also two failures: deletions do not survive a remount, and a huge offset makes every mount panic.

  \<^bold>\<open>The file service (\<close>\<^verbatim>\<open>services/fs\<close>\<^bold>\<open>, \<close>\<^verbatim>\<open>guests/lib/frame.go\<close>\<^bold>\<open>, block backend of \<close>\<^verbatim>\<open>core/devblk.cc\<close>\<^bold>\<open>).\<close>
  \<^item> \<^verbatim>\<open>Port_Frame\<close>, \<^verbatim>\<open>Fs_Server\<close>: datagram layouts, session table, path policy and every request.  The locale \<^verbatim>\<open>fs_backend\<close> is
    what the server relies on in a store, interpreted on the file system above.
  \<^item> \<^verbatim>\<open>Fs_Server_Props\<close>: where an accepted path can lead, who can change the session table, that homes are private through
    server and file system together, and which replies fit a datagram.
  \<^item> \<^verbatim>\<open>Fs_Block\<close>, \<^verbatim>\<open>Fs_Import\<close>, \<^verbatim>\<open>Fs_Main\<close>: both block transports and start-up.  A volume with data is never formatted unless
    this is asked for, and the first start on a blank device ends with a served volume that holds the
    standard directories.

  \<^bold>\<open>The network service (\<close>\<^verbatim>\<open>services/net\<close>\<^bold>\<open>).\<close>
  \<^item> \<^verbatim>\<open>Net_Wire\<close>, \<^verbatim>\<open>Net_Codec\<close>: wire formats, their round trips, and what the checksums detect.
  \<^item> \<^verbatim>\<open>Net_Ring\<close>: packet window and wire.  The locale \<^verbatim>\<open>frame_queue\<close> is the contract of a bounded first-in first-out queue,
    interpreted on the window, the wire, and the kernel's ports (\<^verbatim>\<open>Kern_Ports_Props\<close>).
  \<^item> \<^verbatim>\<open>Net_Tcp\<close>, \<^verbatim>\<open>Net_Tcp_Stream\<close>, \<^verbatim>\<open>Net_Tcp_Close\<close>: the connection.  What is received is a prefix of what was sent whatever the
    network does to segments; a close drains the queue; ephemeral ports; where teardown loses data.
  \<^item> \<^verbatim>\<open>Net_Stack\<close>, \<^verbatim>\<open>Net_Stack_Props\<close>, \<^verbatim>\<open>Net_Dhcp\<close>, \<^verbatim>\<open>Net_Dhcp_Props\<close>, \<^verbatim>\<open>Net_Port\<close>: receive path, address resolution, routing,
    ping, leases and the socket server, with a datagram followed from one client's socket to another's.  A goroutine that
    waits for a lock it holds is the result None.

  \<^bold>\<open>The kernel's ports (\<close>\<^verbatim>\<open>core/ports.cc\<close>\<^bold>\<open>, \<close>\<^verbatim>\<open>core/fsroute.cc\<close>\<^bold>\<open>, parts of \<close>\<^verbatim>\<open>core/sched.cc\<close>\<^bold>\<open> and \<close>\<^verbatim>\<open>core/kernsvc.cc\<close>\<^bold>\<open>).\<close>
  \<^item> \<^verbatim>\<open>Kern_Ports\<close>: port and handle tables, rings, reply interception, the session fields they consult, kill, and the LOGIN
    operation, as functions on the record \<^verbatim>\<open>kern\<close>.  A run is a fold over calls; the kernel services' dispatcher is a parameter.
  \<^item> \<^verbatim>\<open>Kern_Ports_Props\<close>: the tables stay well-formed along every run, a port is a queue, binding is gated by capability; a
    killed session can stall a port, and a name with a zero byte is taken for the login service's.

  \<^bold>\<open>Identity and configuration.\<close>
  \<^item> \<^verbatim>\<open>Crypto_Sha256\<close> (\<^verbatim>\<open>core/sha256.cc\<close>, \<^verbatim>\<open>services/shell/sha256.go\<close>): both implementations compute the digest of FIPS 180-4.
    The same function stands for Go's \<^verbatim>\<open>crypto/sha256\<close> in the login service.
  \<^item> \<^verbatim>\<open>Go_Text\<close>: the functions of Go's \<^verbatim>\<open>strings\<close>, \<^verbatim>\<open>strconv\<close> and \<^verbatim>\<open>encoding/hex\<close> in use.
  \<^item> \<^verbatim>\<open>Login\<close>, \<^verbatim>\<open>Login_Props\<close> (\<^verbatim>\<open>services/login/login.go\<close>): nothing is granted without a verified password, and the user
    registered is the user the file server then knows; a row without a salt is open to everyone.
  \<^item> \<^verbatim>\<open>Shell_Passwd\<close> (\<^verbatim>\<open>services/shell/shell.go\<close>): after \<^verbatim>\<open>passwd\<close> the login service accepts exactly passwords with the new
    digest; an interrupted rewrite opens the administrator's account.
  \<^item> \<^verbatim>\<open>Init_Sup\<close>, \<^verbatim>\<open>Init_Props\<close> (\<^verbatim>\<open>services/init/init.go\<close>, \<^verbatim>\<open>guests/lib/initctl.go\<close>): parsers and supervisor, over an arbitrary
    registry; runs are the step relation \<^verbatim>\<open>sup_reach\<close>.
  \<^item> \<^verbatim>\<open>Conf\<close>, \<^verbatim>\<open>Conf_Props\<close> (\<^verbatim>\<open>services/shell/conf/conf.go\<close>, \<^verbatim>\<open>core/preempt.cc\<close>, SETCONF, key reading of \<^verbatim>\<open>services/pkg/pkg.go\<close>):
    what a file without reported errors means for the program that reads it.

  This theory composes the kernel's stamp with the file server's dispatcher.

  \<^bold>\<open>Hypotheses.\<close>  The virtio driver, the kernel services' dispatcher, the registry, the clock, the entropy source and the outcome
  of allocation are parameters.  Case folding is modelled on ASCII; statements that depend on it are made for ASCII names.
  Operations run one at a time: locks appear only where an operation would wait for itself.

  \<^bold>\<open>Not modelled.\<close>  The FAT16 filter, the WebAssembly compiler and engine, device drivers, the scheduler, memory management and
  loading, machine-level code, package verification, terminal programs and graphics: each is a program of its own or works on
  hardware registers.  Of the modelled services, port binding, polling with budgets, tracing and console lines are left out.
\<close>

section \<open>The kernel's uid stamp and the file server\<close>

text \<open>C5: A guest cannot speak for another user.  Whatever bytes a session sends to a service's port, the one datagram
  that is queued names the session as its sender and carries the uid the kernel holds for it; and if that uid
  is not zero the file server, given the datagram, changes nothing of its table of users, so a guest cannot register or
  rename anyone.  The kernel's port code and the file server's dispatcher are composed here.\<close>

theorem guest_identity:
  assumes "port_of st sid h = Some i" "i < length (k_ports st)" "\<not> p_kernel (k_ports st ! i)" "sid \<noteq> 0"
    and "not_awaited (p_name (k_ports st ! i)) st" "pring_ok (k_ports st ! i)"
    and "port_send disp mem sid h data st = (0, st')" "sched_uid_of st sid \<noteq> 0" "sessions_typed ss"
  shows "\<exists>m. port_queue (k_ports st' ! i) = port_queue (k_ports st ! i) @ [m] \<and> from_sid m = sid \<and>
    drop 8 (m_data m) = drop 8 data \<and>
    (\<forall>hdr. ParseHeader (m_data m) = Some hdr \<longrightarrow> h_UID hdr = sched_uid_of st sid) \<and>
    (\<forall>s r ss' s'. fs_dispatch S (m_data m) (ss, s) = (r, ss', s') \<longrightarrow> ss' = ss)"
proof -
  let ?m = "\<lparr>from_sid = sid, m_data = stamp sid st data\<rparr>"
  have s: "p_qn (k_ports st ! i) < MAX_Q" "st' = set_port i (ring_put ?m) st"
    using assms(7) send_queued [OF assms(1,3,4,5), of disp mem data] by (auto split: if_splits)
  have q: "port_queue (k_ports st' ! i) = port_queue (k_ports st ! i) @ [?m]"
    using ring_put_queue(2) [OF assms(6) s(1)] assms(2) by (simp add: s(2) set_port_def)
  have u: "h_UID hdr = sched_uid_of st sid" if "ParseHeader (stamp sid st data) = Some hdr" for hdr
    using that stamp_fields(1) [of sid st data] stamp_fields(4) [of data sid st] by (auto simp: ParseHeader_def split: if_splits)
  have t: "ss' = ss" if d: "fs_dispatch S (stamp sid st data) (ss, s) = (r, ss', s')" for s r ss' s'
  proof (cases "8 \<le> length data")
    case True
    then show ?thesis using dispatch_sessions [OF d assms(9)] stamp_fields(4) [OF True, of sid st] assms(8) by simp
  next
    case False
    then have "ParseHeader (stamp sid st data) = None" using stamp_fields(1) [of sid st data] by (simp add: ParseHeader_def)
    then show ?thesis using d by (simp add: fs_dispatch_def)
  qed
  show ?thesis by (rule exI [of _ ?m]) (use q u t stamp_fields(2) in simp)
qed

theorem guest_identity_witness:
  "\<exists>st' m. port_send (\<lambda>_ _ _ _ st. st) True 2 0 (replicate 30 0) chat_kern = (0, st') \<and>
     port_queue (k_ports st' ! 0) = [m] \<and> from_sid m = 2 \<and>
     (\<forall>hdr. ParseHeader (m_data m) = Some hdr \<longrightarrow> h_UID hdr = sched_uid_of chat_kern 2) \<and>
     (\<forall>s r ss' s'. fs_dispatch (kfs_store mem_dev) (m_data m) (ex_sessions, s) = (r, ss', s') \<longrightarrow> ss' = ex_sessions)"
proof -
  have c: "port_of chat_kern 2 0 = Some 0" "0 < length (k_ports chat_kern)" "\<not> p_kernel (k_ports chat_kern ! 0)" "(2::nat) \<noteq> 0"
    "not_awaited (p_name (k_ports chat_kern ! 0)) chat_kern" "pring_ok (k_ports chat_kern ! 0)"
    using chat_port_ok by (simp_all add: chat_state) (simp_all add: chat_kern_def chat_port_def own_port_def)
  have "\<exists>st'. port_send (\<lambda>_ _ _ _ st. st) True 2 0 (replicate 30 0) chat_kern = (0, st')"
    using send_queued [OF c(1,3,4,5), of "\<lambda>_ _ _ _ st. st" True "replicate 30 0"]
    by (simp add: chat_state chat_port_def own_port_def)
  then obtain st' where st: "port_send (\<lambda>_ _ _ _ st. st) True 2 0 (replicate 30 0) chat_kern = (0, st')" by blast
  have u: "sched_uid_of chat_kern 2 \<noteq> 0" by (simp add: chat_kern_def boot_fields sched_uid_of_def sess_def)
  show ?thesis
    using guest_identity [OF c st u ex_sessions_ok(1), of "kfs_store mem_dev"] st chat_port_ok(3) by (auto simp: chat_state)
qed

end
